(* ===== verification/Prelude.thy ===== *)
theory Prelude
  imports Complex_Main "HOL-Library.Sublist" "HOL-Library.AList" "HOL-Library.Code_Target_Nat"
begin

section \<open>Prelude: the JavaScript values and library functions the components share\<close>

text \<open>
  ProPR is written in TypeScript. This theory fixes how its values appear in the model.

  \<^item> A string is a \<^typ>\<open>string\<close>, a list of 8-bit characters. The functions below
    (\<open>js_trim\<close>, \<open>js_lower\<close>, \dots) agree with JavaScript on every string whose
    UTF-16 code units are below 256.
  \<^item> A number is a \<open>jsnum\<close>: a finite value, kept exactly as a rational, one of the two
    infinities, or not-a-number. Rounding of IEEE doubles is not modelled.
  \<^item> A value of type \<open>unknown\<close> (a parsed JSON document, a setting, an environment
    variable) is a \<open>jsval\<close>.
  \<^item> A \<open>Map\<close> or an object used as a dictionary is an association list in insertion
    order; \<^const>\<open>AList.update\<close> overwrites in place or appends, which is the order
    JavaScript keeps.
  \<^item> A thrown \<open>Error\<close> is the \<open>Inl\<close> of a sum type.

  The collections \<open>js_defs\<close> and \<open>js_eval\<close> gather the definitions that component
  proofs unfold and the ones that evaluate closed terms.
\<close>

named_theorems js_defs
named_theorems js_eval

subsection \<open>Numbers and values\<close>

datatype jsnum = Fin rat | PosInfinity | NegInfinity | NotANumber

datatype jsval =
    JUndefined
  | JNull
  | JBool bool
  | JNum jsnum
  | JStr string
  | JArr "jsval list"
  | JObj "(string \<times> jsval) list"

type_synonym error_message = string
type_synonym 'a result = "error_message + 'a"

abbreviation Throw :: "error_message \<Rightarrow> 'a result" where
  "Throw e \<equiv> Inl e"

abbreviation Return :: "'a \<Rightarrow> 'a result" where
  "Return x \<equiv> Inr x"

fun is_finite_num :: "jsnum \<Rightarrow> bool" where
  "is_finite_num (Fin _) = True"
| "is_finite_num _ = False"

fun js_string_of :: "jsval \<Rightarrow> string option" where
  "js_string_of (JStr s) = Some s"
| "js_string_of _ = None"

text \<open>\<open>value ?? fallback\<close>: only \<open>undefined\<close> and \<open>null\<close> fall back.\<close>

fun js_nullish :: "jsval \<Rightarrow> bool" where
  "js_nullish JUndefined = True"
| "js_nullish JNull = True"
| "js_nullish _ = False"

definition js_coalesce :: "jsval \<Rightarrow> jsval \<Rightarrow> jsval" where
  "js_coalesce a b = (if js_nullish a then b else a)"

text \<open>\<open>record.key\<close> on a value already known to be an object; a missing key is \<open>undefined\<close>.\<close>

definition js_get :: "(string \<times> jsval) list \<Rightarrow> string \<Rightarrow> jsval" where
  "js_get r k = (case map_of r k of None \<Rightarrow> JUndefined | Some v \<Rightarrow> v)"

text \<open>An object that is not an array, as the \<open>isRecord\<close> and \<open>record\<close> helpers test for.\<close>

fun js_record :: "jsval \<Rightarrow> (string \<times> jsval) list option" where
  "js_record (JObj r) = Some r"
| "js_record _ = None"

text \<open>Truthiness, as \<open>Boolean(value)\<close> and conditions test it.\<close>

fun js_truthy :: "jsval \<Rightarrow> bool" where
  "js_truthy JUndefined = False"
| "js_truthy JNull = False"
| "js_truthy (JBool b) = b"
| "js_truthy (JNum (Fin r)) = (r \<noteq> 0)"
| "js_truthy (JNum NotANumber) = False"
| "js_truthy (JNum _) = True"
| "js_truthy (JStr s) = (s \<noteq> [])"
| "js_truthy _ = True"

text \<open>
  Whether \<open>String(value)\<close> is a given lower-case word that is not the name of a primitive: only a
  string, or an array nest around one, converts to it.
\<close>

fun js_string_is :: "string \<Rightarrow> jsval \<Rightarrow> bool" where
  "js_string_is w (JStr s) = (s = w)"
| "js_string_is w (JArr [v]) = js_string_is w v"
| "js_string_is w _ = False"

text \<open>\<open>{...a, ...b}\<close>.\<close>

definition js_spread :: "(string \<times> 'v) list \<Rightarrow> (string \<times> 'v) list \<Rightarrow> (string \<times> 'v) list" where
  "js_spread a b = fold (\<lambda>(k, v) r. AList.update k v r) b a"

lemma js_record_Some [simp]: "js_record v = Some r \<longleftrightarrow> v = JObj r"
  by (cases v) auto

lemma js_string_of_Some [simp]: "js_string_of v = Some s \<longleftrightarrow> v = JStr s"
  by (cases v) auto

subsection \<open>Strings\<close>

definition code_of :: "char \<Rightarrow> nat" where
  "code_of c = of_char c"

text \<open>White space below U+0100, for \<open>trim\<close> and for \<open>\s\<close>.\<close>

definition js_space :: "char \<Rightarrow> bool" where
  "js_space c = (let n = code_of c in (9 \<le> n \<and> n \<le> 13) \<or> n = 32 \<or> n = 160)"

definition js_lower_char :: "char \<Rightarrow> char" where
  "js_lower_char c =
     (let n = code_of c
      in if (65 \<le> n \<and> n \<le> 90) \<or> (192 \<le> n \<and> n \<le> 222 \<and> n \<noteq> 215)
         then char_of (n + 32) else c)"

definition js_lower :: "string \<Rightarrow> string" where
  "js_lower s = map js_lower_char s"

definition js_upper_char :: "char \<Rightarrow> char" where
  "js_upper_char c =
     (let n = code_of c in if 97 \<le> n \<and> n \<le> 122 then char_of (n - 32) else c)"

definition js_trim_start :: "string \<Rightarrow> string" where
  "js_trim_start s = dropWhile js_space s"

definition js_trim_end :: "string \<Rightarrow> string" where
  "js_trim_end s = rev (dropWhile js_space (rev s))"

definition js_trim :: "string \<Rightarrow> string" where
  "js_trim s = js_trim_end (js_trim_start s)"

definition js_includes :: "string \<Rightarrow> string \<Rightarrow> bool" where
  "js_includes s t = list_ex (\<lambda>u. prefix t u) (suffixes s)"

definition js_digit :: "char \<Rightarrow> bool" where
  "js_digit c = (let n = code_of c in 48 \<le> n \<and> n \<le> 57)"

text \<open>\<open>s.split(c)\<close> for a one-character separator: never an empty list.\<close>

fun js_split :: "char \<Rightarrow> string \<Rightarrow> string list" where
  "js_split c [] = [[]]"
| "js_split c (x # xs) =
     (if x = c then [] # js_split c xs
      else (case js_split c xs of [] \<Rightarrow> [[x]] | y # ys \<Rightarrow> (x # y) # ys))"

text \<open>\<open>s.split(/\s+/).filter(Boolean)\<close>: the maximal runs of characters outside a class.\<close>

fun js_words_acc :: "(char \<Rightarrow> bool) \<Rightarrow> string \<Rightarrow> string \<Rightarrow> string list" where
  "js_words_acc sep acc [] = (if acc = [] then [] else [rev acc])"
| "js_words_acc sep acc (x # xs) =
     (if sep x then (if acc = [] then [] else [rev acc]) @ js_words_acc sep [] xs
      else js_words_acc sep (x # acc) xs)"

definition js_words :: "(char \<Rightarrow> bool) \<Rightarrow> string \<Rightarrow> string list" where
  "js_words sep s = js_words_acc sep [] s"

text \<open>\<open>Number(s)\<close> for a string of decimal digits.\<close>

definition js_number_of_digits :: "string \<Rightarrow> nat" where
  "js_number_of_digits s = foldl (\<lambda>n c. 10 * n + (code_of c - 48)) 0 s"

text \<open>
  \<open>Number(s)\<close> for any string: white space around it is ignored, an empty string is zero, and the
  rest is a decimal literal with an optional sign and exponent, \<open>Infinity\<close>, an unsigned literal in base 16, 8 or 2, or
  not a number.
\<close>

definition digit_value :: "char \<Rightarrow> nat" where
  "digit_value c =
     (let n = code_of c
      in if 48 \<le> n \<and> n \<le> 57 then n - 48 else if 97 \<le> n \<and> n \<le> 102 then n - 87
         else if 65 \<le> n \<and> n \<le> 70 then n - 55 else 99)"

definition number_in_base :: "nat \<Rightarrow> string \<Rightarrow> jsnum" where
  "number_in_base b s =
     (if s = [] \<or> \<not> list_all (\<lambda>c. digit_value c < b) s then NotANumber
      else Fin (of_nat (foldl (\<lambda>n c. b * n + digit_value c) 0 s)))"

definition signed :: "string \<Rightarrow> int \<times> string" where
  "signed s = (case s of [] \<Rightarrow> (1, s) | c # cs \<Rightarrow> (if c = CHR ''-'' then (- 1, cs) else if c = CHR ''+'' then (1, cs) else (1, s)))"

definition ten_power :: "int \<Rightarrow> rat" where
  "ten_power e = (if e < 0 then 1 / 10 ^ nat (- e) else 10 ^ nat e)"

definition decimal_number :: "string \<Rightarrow> jsnum" where
  "decimal_number s =
     (let whole = takeWhile js_digit s; rest = dropWhile js_digit s;
          point = (rest \<noteq> [] \<and> hd rest = CHR ''.'');
          fraction = (if point then takeWhile js_digit (tl rest) else []);
          exponent = (if point then dropWhile js_digit (tl rest) else rest);
          mantissa = of_nat (js_number_of_digits (whole @ fraction)) * ten_power (- int (length fraction))
      in if whole @ fraction = [] then NotANumber
         else if exponent = [] then Fin mantissa
         else let (sign, digits) = signed (tl exponent)
              in if hd exponent \<in> {CHR ''e'', CHR ''E''} \<and> digits \<noteq> [] \<and> list_all js_digit digits
                 then Fin (mantissa * ten_power (sign * int (js_number_of_digits digits)))
                 else NotANumber)"

definition js_number :: "string \<Rightarrow> jsnum" where
  "js_number s0 =
     (let s = js_trim s0; (sign, rest) = signed s
      in if s = [] then Fin 0
         else if take 2 s \<in> {''0x'', ''0X''} then number_in_base 16 (drop 2 s)
         else if take 2 s \<in> {''0o'', ''0O''} then number_in_base 8 (drop 2 s)
         else if take 2 s \<in> {''0b'', ''0B''} then number_in_base 2 (drop 2 s)
         else if rest = ''Infinity'' then (if sign < 0 then NegInfinity else PosInfinity)
         else case decimal_number rest of Fin r \<Rightarrow> Fin (of_int sign * r) | v \<Rightarrow> v)"

fun show_nat :: "nat \<Rightarrow> string" where
  "show_nat n =
     (if n < 10 then [char_of (48 + n)] else show_nat (n div 10) @ [char_of (48 + n mod 10)])"

declare show_nat.simps [simp del]

definition show_int :: "int \<Rightarrow> string" where
  "show_int i = (if i < 0 then ''-'' @ show_nat (nat (- i)) else show_nat (nat i))"

definition quoted :: "string \<Rightarrow> string" where
  "quoted s = [CHR 0x22] @ s @ [CHR 0x22]"

text \<open>Sequencing of calls that may throw.\<close>

definition and_then :: "'a result \<Rightarrow> ('a \<Rightarrow> 'b result) \<Rightarrow> 'b result" where
  "and_then m f = (case m of Inl e \<Rightarrow> Throw e | Inr x \<Rightarrow> f x)"

lemma and_then_Return [simp]: "and_then m f = Return y \<longleftrightarrow> (\<exists>x. m = Return x \<and> f x = Return y)"
  by (cases m) (simp_all add: and_then_def)

lemma and_then_simps [simp]: "and_then (Return x) f = f x" "and_then (Throw e) f = Throw e"
  by (simp_all add: and_then_def)

lemma js_split_not_Nil [simp]: "js_split c s \<noteq> []"
  by (induction s) (auto split: list.splits)

lemma js_trim_start_idem [simp]: "js_trim_start (js_trim_start s) = js_trim_start s"
  by (simp add: js_trim_start_def)

lemma js_lower_char_idem [simp]: "js_lower_char (js_lower_char c) = js_lower_char c"
  by (auto simp: js_lower_char_def code_of_def Let_def)

lemma js_lower_idem [simp]: "js_lower (js_lower s) = js_lower s"
  by (simp add: js_lower_def comp_def)

lemma js_lower_Nil [simp]: "js_lower [] = []"
  by (simp add: js_lower_def)

lemma js_lower_eq_Nil [simp]: "js_lower s = [] \<longleftrightarrow> s = []"
  by (simp add: js_lower_def)

lemma js_lower_append: "js_lower (s @ t) = js_lower s @ js_lower t"
  by (simp add: js_lower_def)

lemma length_js_lower [simp]: "length (js_lower s) = length s"
  by (simp add: js_lower_def)

lemma show_nat_not_Nil [simp]: "show_nat n \<noteq> []"
  by (subst show_nat.simps) simp

definition js_join :: "string \<Rightarrow> string list \<Rightarrow> string" where
  "js_join sep parts = (case parts of [] \<Rightarrow> [] | p # ps \<Rightarrow> p @ concat (map (\<lambda>q. sep @ q) ps))"

text \<open>\<open>parseInt(s, 10)\<close>: \<open>None\<close> stands for \<open>NaN\<close>.\<close>

definition js_parse_int :: "string \<Rightarrow> int option" where
  "js_parse_int s =
     (case signed (js_trim_start s) of (sign, rest) \<Rightarrow>
        let digits = takeWhile js_digit rest in if digits = [] then None else Some (sign * int (js_number_of_digits digits)))"

lemma js_split_first: "c \<notin> set a \<Longrightarrow> js_split c (a @ c # b) = a # js_split c b"
  by (induction a) auto

lemma js_split_single: "c \<notin> set a \<Longrightarrow> js_split c a = [a]"
  by (induction a) auto

lemma js_split_last: "c \<notin> set n \<Longrightarrow> js_split c (r @ c # n) = js_split c r @ [n]"
  by (induction r) (auto simp: js_split_single split: list.splits)

lemma join_js_split: "js_join [c] (js_split c r) = r"
proof (induction r)
  case (Cons x xs)
  obtain y ys where "js_split c xs = y # ys" by (cases "js_split c xs") auto
  with Cons show ?case by (simp add: js_join_def)
qed (simp add: js_join_def)

lemma digit_char: "n < 10 \<Longrightarrow> js_digit (char_of (48 + n)) \<and> code_of (char_of (48 + n)) = 48 + n"
  by (simp add: js_digit_def code_of_def Let_def)

lemma show_nat_digits: "list_all js_digit (show_nat n)"
  by (induction n rule: show_nat.induct) (subst show_nat.simps, simp add: digit_char)

lemma number_of_show_nat: "js_number_of_digits (show_nat n) = n"
proof (induction n rule: show_nat.induct)
  case (1 n)
  show ?case
  proof (cases "n < 10")
    case True
    then show ?thesis by (subst show_nat.simps) (simp add: js_number_of_digits_def digit_char)
  next
    case False
    with 1 have "js_number_of_digits (show_nat (n div 10)) = n div 10" by simp
    moreover have "code_of (char_of (48 + n mod 10)) = 48 + n mod 10" using digit_char [of "n mod 10"] by simp
    ultimately show ?thesis using False by (subst show_nat.simps) (simp add: js_number_of_digits_def)
  qed
qed

lemma digit_not_special: "js_digit c \<Longrightarrow> \<not> js_space c \<and> c \<noteq> CHR ''-'' \<and> c \<noteq> CHR ''+'' \<and> c \<noteq> CHR '':''"
  by (auto simp: js_digit_def js_space_def code_of_def Let_def)

lemma parse_int_show_nat: "js_parse_int (show_nat n) = Some (int n)"
proof -
  obtain d ds where s: "show_nat n = d # ds" by (cases "show_nat n") auto
  have d: "js_digit d" and all: "takeWhile js_digit (show_nat n) = show_nat n"
    using show_nat_digits [of n] s by (auto simp: list_all_iff takeWhile_eq_all_conv)
  have "js_trim_start (show_nat n) = show_nat n" using digit_not_special [OF d] by (simp add: js_trim_start_def s)
  moreover have "signed (show_nat n) = (1, show_nat n)" using digit_not_special [OF d] by (simp add: signed_def s)
  ultimately show ?thesis by (simp add: js_parse_int_def Let_def all number_of_show_nat)
qed

text \<open>\<open>[...new Set(xs)]\<close>: first occurrences, in order.\<close>

fun js_unique :: "'a list \<Rightarrow> 'a list" where
  "js_unique [] = []"
| "js_unique (x # xs) = x # js_unique (filter (\<lambda>y. y \<noteq> x) xs)"

lemma set_js_unique [simp]: "set (js_unique xs) = set xs"
  by (induction xs rule: js_unique.induct) auto

lemma distinct_js_unique [simp]: "distinct (js_unique xs)"
  by (induction xs rule: js_unique.induct) auto

lemma js_unique_eq_Nil [simp]: "js_unique xs = [] \<longleftrightarrow> xs = []"
  by (cases xs) auto

subsection \<open>Association lists as dictionaries\<close>

abbreviation al_keys :: "('k \<times> 'v) list \<Rightarrow> 'k set" where
  "al_keys al \<equiv> fst ` set al"

named_theorems al_simps

lemma al_keys_update [al_simps]: "al_keys (AList.update k v al) = insert k (al_keys al)"
  by (simp add: AList.dom_update)

lemma al_keys_delete [al_simps]: "al_keys (AList.delete k al) = al_keys al - {k}"
  by (auto simp: AList.delete_eq)

lemma al_distinct_update [al_simps]:
  "distinct (map fst al) \<Longrightarrow> distinct (map fst (AList.update k v al))"
  by (rule AList.distinct_update)

lemma al_distinct_delete [al_simps]:
  "distinct (map fst al) \<Longrightarrow> distinct (map fst (AList.delete k al))"
  by (rule AList.distinct_delete)

lemma al_set_update: "set (AList.update k v al) \<subseteq> insert (k, v) (set al)"
  by (induction al) auto

lemma al_length_update: "length (AList.update k v al) = (if k \<in> al_keys al then length al else Suc (length al))"
  by (induction al) auto

lemma al_delete_filter: "AList.delete k al = filter (\<lambda>(m, v). m \<noteq> k) al"
  by (induction al) auto

lemma filter_fst_disjoint:
  assumes "distinct (map fst xs)"
  shows "al_keys (filter P xs) \<inter> al_keys (filter (\<lambda>x. \<not> P x) xs) = {}"
  using assms by (auto simp: distinct_map inj_on_def)

lemma al_keys_filter_subset: "al_keys (filter P xs) \<subseteq> al_keys xs"
  by auto

subsection \<open>Runs of a machine that only moves forward\<close>

text \<open>
  The interface of a stateful object whose operations keep an invariant and only move forward in an
  order. What holds of every sequence of operations is proved once from it.
\<close>

locale monotone_machine =
  fixes step :: "'e \<Rightarrow> 's \<Rightarrow> 's" and inv :: "'s \<Rightarrow> bool" and le :: "'s \<Rightarrow> 's \<Rightarrow> bool"
  assumes step_inv: "inv s \<Longrightarrow> inv (step e s)"
    and step_le: "inv s \<Longrightarrow> le s (step e s)"
    and le_refl: "le s s"
    and le_trans: "le s t \<Longrightarrow> le t u \<Longrightarrow> le s u"
begin

lemma run_inv: "inv s \<Longrightarrow> inv (fold step es s)"
  by (induction es arbitrary: s) (auto intro: step_inv)

lemma run_le: "inv s \<Longrightarrow> le s (fold step es s)"
  by (induction es arbitrary: s) (auto intro: le_refl step_inv step_le le_trans)

end

end
