(* ===== verification/Output_Activity.thy ===== *)
theory Output_Activity
  imports Prelude
begin

section \<open>Classification of agent output records\<close>

text \<open>
  The model of \<^verbatim>\<open>packages/core/src/claude/docker/agentOutputActivity.ts\<close>: one line of an
  agent's newline-delimited JSON output is turned into the list of activities the watchdog
  acts on. \<open>JSON.parse\<close> is the argument \<open>parse\<close> (\<open>None\<close> when it throws), so every lemma
  holds for whatever the parser returns.
\<close>

datatype AgentOutputActivity =
    Text string "string option"              \<comment> \<open>text, messageId\<close>
  | Tool_start "string option" "string option" \<comment> \<open>id, messageId\<close>
  | Tool_end "string option"                 \<comment> \<open>id\<close>
  | Activity "string option"                 \<comment> \<open>messageId\<close>

type_synonym json_record = "(string \<times> jsval) list"

definition ACTIVITY :: AgentOutputActivity where
  "ACTIVITY = Activity None"

definition TOOL_ID_KEYS :: "string list" where
  "TOOL_ID_KEYS = [''tool_use_id'', ''tool_call_id'', ''call_id'', ''callID'', ''tool_id'', ''id'']"

definition TOOL_START_TYPES :: "string list" where
  "TOOL_START_TYPES = [''tool_use'', ''tool_call'', ''tool'']"

definition TOOL_END_TYPES :: "string list" where
  "TOOL_END_TYPES = [''tool_result'', ''tool_response'']"

definition CODEX_TOOL_ITEMS :: "string list" where
  "CODEX_TOOL_ITEMS = [''command_execution'', ''mcp_tool_call'', ''web_search'', ''file_change'']"

definition FINISHED_TOOL_STATUSES :: "string list" where
  "FINISHED_TOOL_STATUSES = [''completed'', ''error'', ''failed'', ''cancelled'']"

fun lower_of :: "jsval \<Rightarrow> string" where
  "lower_of (JStr s) = js_lower s"
| "lower_of _ = []"

text \<open>A non-empty string value, as the truthiness tests on strings ask for.\<close>

fun nonempty_str :: "jsval \<Rightarrow> string option" where
  "nonempty_str (JStr s) = (if s = [] then None else Some s)"
| "nonempty_str _ = None"

text \<open>\<open>cond && typeof value === 'string'\<close>, with the string when it holds.\<close>

definition string_if :: "bool \<Rightarrow> jsval \<Rightarrow> string option" where
  "string_if cond v = (if cond then js_string_of v else None)"

fun first_nonempty :: "jsval list \<Rightarrow> string option" where
  "first_nonempty [] = None"
| "first_nonempty (v # vs) = (case nonempty_str v of Some s \<Rightarrow> Some s | None \<Rightarrow> first_nonempty vs)"

definition toolId :: "json_record \<Rightarrow> string option" where
  "toolId record = first_nonempty (map (js_get record) TOOL_ID_KEYS)"

definition toolStart :: "json_record \<Rightarrow> AgentOutputActivity" where
  "toolStart record = Tool_start (toolId record) None"

definition toolEnd :: "json_record \<Rightarrow> AgentOutputActivity" where
  "toolEnd record = Tool_end (toolId record)"

text \<open>\<open>messageId ? { ...activity, messageId } : activity\<close>; an empty id is falsy.\<close>

fun withMessageId :: "AgentOutputActivity \<Rightarrow> string option \<Rightarrow> AgentOutputActivity" where
  "withMessageId a None = a"
| "withMessageId a (Some []) = a"
| "withMessageId (Text t _) m = Text t m"
| "withMessageId (Tool_start i _) m = Tool_start i m"
| "withMessageId (Tool_end i) m = Tool_end i"
| "withMessageId (Activity _) m = Activity m"

text \<open>The loop over the content blocks of a message; \<open>text\<close> joins consecutive text blocks.\<close>

definition flushText :: "bool \<Rightarrow> string option \<Rightarrow> string option \<Rightarrow> AgentOutputActivity list" where
  "flushText fromUser messageId text =
     (case text of None \<Rightarrow> []
      | Some t \<Rightarrow> [if fromUser then ACTIVITY else withMessageId (Text t None) messageId])"

fun content_blocks ::
  "bool \<Rightarrow> string option \<Rightarrow> string option \<Rightarrow> jsval list \<Rightarrow> AgentOutputActivity list" where
  "content_blocks fromUser messageId text [] = flushText fromUser messageId text"
| "content_blocks fromUser messageId text (block # rest) =
     (case js_record block of
        None \<Rightarrow> content_blocks fromUser messageId text rest
      | Some b \<Rightarrow>
          (let type = lower_of (js_get b ''type'')
           in case string_if (type = ''text'') (js_get b ''text'') of
                Some t \<Rightarrow>
                  content_blocks fromUser messageId
                    (Some ((case text of None \<Rightarrow> [] | Some u \<Rightarrow> u) @ t)) rest
              | None \<Rightarrow>
                  (if type \<notin> set TOOL_START_TYPES \<and> type \<notin> set TOOL_END_TYPES
                   then content_blocks fromUser messageId text rest
                   else flushText fromUser messageId text
                        @ [if type \<in> set TOOL_START_TYPES
                           then withMessageId (toolStart b) (if fromUser then None else messageId)
                           else toolEnd b]
                        @ content_blocks fromUser messageId None rest)))"

definition classifyContentBlocks ::
  "jsval \<Rightarrow> bool \<Rightarrow> string option \<Rightarrow> AgentOutputActivity list" where
  "classifyContentBlocks content fromUser messageId =
     (case content of JArr blocks \<Rightarrow> content_blocks fromUser messageId None blocks | _ \<Rightarrow> [])"

definition classifyToolPart :: "json_record \<Rightarrow> AgentOutputActivity" where
  "classifyToolPart part =
     (let status = (case js_record (js_get part ''state'') of
                      Some st \<Rightarrow> lower_of (js_get st ''status'')
                    | None \<Rightarrow> lower_of (js_get part ''status''))
      in if status \<in> set FINISHED_TOOL_STATUSES then toolEnd part else toolStart part)"

definition classifyMessage :: "json_record \<Rightarrow> string \<Rightarrow> AgentOutputActivity list" where
  "classifyMessage event type =
     (case js_record (js_get event ''message'') of
        None \<Rightarrow> []
      | Some message \<Rightarrow>
          (let fromUser = (type = ''user'' \<or> lower_of (js_get message ''role'') = ''user'');
               messageId = js_string_of (js_get message ''id'')
           in classifyContentBlocks (js_get message ''content'') fromUser messageId))"

text \<open>\<open>None\<close> is the \<open>null\<close> that hands the record on to the next protocol.\<close>

definition classifyChatMessage :: "json_record \<Rightarrow> AgentOutputActivity list option" where
  "classifyChatMessage event =
     (if js_get event ''type'' \<noteq> JUndefined then None
      else let role = lower_of (js_get event ''role'')
           in if role = ''tool'' then Some [toolEnd event]
              else if role \<noteq> ''assistant'' then None
              else let texts = (case nonempty_str (js_get event ''content'') of
                                  Some t \<Rightarrow> [Text t None] | None \<Rightarrow> []);
                       calls = (case js_get event ''tool_calls'' of JArr cs \<Rightarrow> cs | _ \<Rightarrow> []);
                       starts = List.map_filter (\<lambda>c. map_option toolStart (js_record c)) calls;
                       activities = texts @ starts
                   in Some (if activities \<noteq> [] then activities else [ACTIVITY]))"

definition classifyStreamEvent :: "json_record \<Rightarrow> AgentOutputActivity" where
  "classifyStreamEvent event =
     (case js_record (js_get event ''event'') of
        None \<Rightarrow> ACTIVITY
      | Some ev \<Rightarrow>
          (let id = (case js_record (js_get ev ''message'') of
                       None \<Rightarrow> None | Some m \<Rightarrow> nonempty_str (js_get m ''id''))
           in case id of
                Some i \<Rightarrow> Activity (Some i)
              | None \<Rightarrow>
                  (case js_record (js_get ev ''delta'') of
                     None \<Rightarrow> ACTIVITY
                   | Some delta \<Rightarrow>
                       (case js_get delta ''text'' of JStr t \<Rightarrow> Text t None | _ \<Rightarrow> ACTIVITY))))"

definition classifyCodexItem :: "json_record \<Rightarrow> string \<Rightarrow> AgentOutputActivity" where
  "classifyCodexItem item type =
     (let itemType = lower_of (js_get item ''type'')
      in if itemType \<in> set CODEX_TOOL_ITEMS
         then (if type = ''item.completed'' then toolEnd item else toolStart item)
         else case string_if (itemType = ''agent_message'') (js_get item ''text'') of
                Some t \<Rightarrow> Text t None
              | None \<Rightarrow> ACTIVITY)"

definition classifyCodexMessage :: "json_record \<Rightarrow> AgentOutputActivity" where
  "classifyCodexMessage msg =
     (let msgType = lower_of (js_get msg ''type'')
      in if suffix ''_begin'' msgType then toolStart msg
         else if suffix ''_end'' msgType then toolEnd msg
         else case string_if (msgType = ''agent_message_delta'') (js_get msg ''delta'') of
                Some t \<Rightarrow> Text t None
              | None \<Rightarrow>
                  (case string_if (msgType = ''agent_message'') (js_get msg ''message'') of
                     Some t \<Rightarrow> Text t None
                   | None \<Rightarrow> ACTIVITY))"

definition classifyPart :: "json_record \<Rightarrow> AgentOutputActivity option" where
  "classifyPart part =
     (let partType = lower_of (js_get part ''type'')
      in if partType \<in> set TOOL_START_TYPES then Some (classifyToolPart part)
         else if partType \<in> set TOOL_END_TYPES then Some (toolEnd part)
         else map_option (\<lambda>t. Text t None) (string_if (partType = ''text'') (js_get part ''text'')))"

definition flatText :: "json_record \<Rightarrow> string option" where
  "flatText event =
     (case js_get event ''content'' of JStr t \<Rightarrow> Some t
      | _ \<Rightarrow> (case js_get event ''delta'' of JStr t \<Rightarrow> Some t
              | _ \<Rightarrow> js_string_of (js_get event ''text'')))"

definition classifyFlatEvent :: "json_record \<Rightarrow> string \<Rightarrow> AgentOutputActivity" where
  "classifyFlatEvent event type =
     (if type \<in> set TOOL_START_TYPES then classifyToolPart event
      else if type \<in> set TOOL_END_TYPES then toolEnd event
      else if type \<notin> {''message'', ''text'', ''delta''}
              \<or> lower_of (js_get event ''role'') = ''user'' then ACTIVITY
      else case flatText event of None \<Rightarrow> ACTIVITY | Some t \<Rightarrow> Text t None)"

definition classifySingleEvent :: "json_record \<Rightarrow> string \<Rightarrow> AgentOutputActivity" where
  "classifySingleEvent event type =
     (if type = ''stream_event'' then classifyStreamEvent event
      else case (prefix ''item.'' type, js_record (js_get event ''item'')) of
             (True, Some item) \<Rightarrow> classifyCodexItem item type
           | _ \<Rightarrow>
               (case js_record (js_get event ''msg'') of
                  Some msg \<Rightarrow> classifyCodexMessage msg
                | None \<Rightarrow>
                    (let part = (case js_record (js_get event ''part'') of
                                   Some p \<Rightarrow> classifyPart p | None \<Rightarrow> None)
                     in case part of Some a \<Rightarrow> a | None \<Rightarrow> classifyFlatEvent event type)))"

definition classifyEvent :: "json_record \<Rightarrow> AgentOutputActivity list" where
  "classifyEvent event =
     (let type = lower_of (js_get event ''type'');
          message = classifyMessage event type
      in if message \<noteq> [] then message
         else case classifyChatMessage event of
                Some as \<Rightarrow> as
              | None \<Rightarrow> [classifySingleEvent event type])"

definition classifyAgentOutputLine ::
  "(string \<Rightarrow> jsval option) \<Rightarrow> string \<Rightarrow> AgentOutputActivity list" where
  "classifyAgentOutputLine parse line =
     (let trimmed = js_trim line
      in if \<not> prefix ''{'' trimmed then [ACTIVITY]
         else case parse trimmed of
                None \<Rightarrow> [ACTIVITY]
              | Some v \<Rightarrow>
                  (case js_record v of Some event \<Rightarrow> classifyEvent event | None \<Rightarrow> [ACTIVITY]))"

subsection \<open>Which activities a record can give\<close>

fun is_text :: "AgentOutputActivity \<Rightarrow> bool" where
  "is_text (Text _ _) = True"
| "is_text _ = False"

fun names_tool :: "string \<Rightarrow> AgentOutputActivity \<Rightarrow> bool" where
  "names_tool i (Tool_start (Some j) _) = (i = j)"
| "names_tool i (Tool_end (Some j)) = (i = j)"
| "names_tool i _ = False"

lemmas classify_simps [js_eval] =
  ACTIVITY_def TOOL_ID_KEYS_def TOOL_START_TYPES_def TOOL_END_TYPES_def CODEX_TOOL_ITEMS_def
  FINISHED_TOOL_STATUSES_def toolId_def toolStart_def toolEnd_def js_get_def

lemma is_text_withMessageId [simp]: "is_text (withMessageId a m) = is_text a"
  by (induction a m rule: withMessageId.induct) auto

lemma tool_activities_not_text [simp]: "\<not> is_text (toolStart r)" "\<not> is_text (toolEnd r)" "\<not> is_text ACTIVITY"
  by (simp_all add: toolStart_def toolEnd_def ACTIVITY_def)

lemma classifyChatMessage_nonempty: "classifyChatMessage event = Some as \<Longrightarrow> as \<noteq> []"
  by (auto simp: classifyChatMessage_def Let_def split: if_splits)

lemma classifyEvent_nonempty: "classifyEvent event \<noteq> []"
  by (auto simp: classifyEvent_def Let_def split: option.split dest: classifyChatMessage_nonempty)

text \<open>A user's turn is activity, never agent text, however its blocks are laid out.\<close>

lemma content_blocks_from_user: "a \<in> set (content_blocks True m t blocks) \<Longrightarrow> \<not> is_text a"
proof (induction blocks arbitrary: t)
  case Nil
  then show ?case by (auto simp: flushText_def split: option.splits)
next
  case (Cons block rest)
  show ?case
  proof (cases "js_record block")
    case None
    with Cons show ?thesis by simp
  next
    case (Some b)
    with Cons.prems show ?thesis
      by (auto simp: Let_def flushText_def dest: Cons.IH split: option.splits if_splits)
  qed
qed

end
