(* ===== verification/Watchdog.thy ===== *)
theory Watchdog
  imports Output_Activity
begin

section \<open>The agent activity watchdog\<close>

text \<open>
  The model of \<^verbatim>\<open>packages/core/src/claude/docker/agentActivityWatchdog.ts\<close>. The class is
  a record; every method is a function from the record to the record. The clock
  (\<open>options.now\<close>) is the argument \<open>now\<close>, in milliseconds, and the calls of \<open>onTrip\<close>
  are the list \<open>onTripCalls\<close>. A sequence of observations is a list of \<open>wd_event\<close>s.
\<close>

record AgentWatchdogSettings =
  stallTimeoutMs :: int
  toolStallTimeoutMs :: int
  degenerateOutputLimit :: int

datatype AgentWatchdogRule = Inactivity | Tool_inactivity | Degenerate_output
datatype AgentWatchdogTerminationReason = Reason_stalled | Reason_degenerate_output

record AgentWatchdogTrip =
  trip_rule :: AgentWatchdogRule
  trip_terminationReason :: AgentWatchdogTerminationReason
  trip_threshold :: int
  trip_silentSeconds :: "int option"
  trip_degenerateDeltas :: "int option"
  trip_message :: string

record watchdog =
  wd_settings :: AgentWatchdogSettings
  lastActivityAt :: int
  openToolIds :: "(string \<times> string option) list"
  finishedToolIds :: "string set"
  anonymousTools :: "string option list"
  currentMessageId :: "string option"
  lineCount :: nat
  whitespaceDeltas :: int
  tripped :: "AgentWatchdogTrip option"
  onTripCalls :: "AgentWatchdogTrip list"

definition AGENT_WATCHDOG_MESSAGE_PREFIX :: string where
  "AGENT_WATCHDOG_MESSAGE_PREFIX = ''Agent watchdog stopped the run''"

definition show_opt_int :: "int option \<Rightarrow> string" where
  "show_opt_int n = (case n of None \<Rightarrow> ''undefined'' | Some i \<Rightarrow> show_int i)"

definition describeAgentWatchdogTrip :: "AgentWatchdogTrip \<Rightarrow> string" where
  "describeAgentWatchdogTrip trip =
     (if trip_rule trip = Degenerate_output
      then AGENT_WATCHDOG_MESSAGE_PREFIX @ '' (degenerate_output): the agent produced ''
           @ show_opt_int (trip_degenerateDeltas trip)
           @ '' consecutive whitespace-only text deltas (limit '' @ show_int (trip_threshold trip) @ '').''
      else let scope = (if trip_rule trip = Tool_inactivity then ''a running tool call'' else ''the agent'')
           in AGENT_WATCHDOG_MESSAGE_PREFIX @ '' (stalled): no output from '' @ scope @ '' for ''
              @ show_opt_int (trip_silentSeconds trip) @ ''s (threshold ''
              @ show_int ((trip_threshold trip + 500) div 1000) @ ''s).'')"

definition new_watchdog :: "AgentWatchdogSettings \<Rightarrow> int \<Rightarrow> watchdog" where
  "new_watchdog settings now =
     \<lparr>wd_settings = settings, lastActivityAt = now, openToolIds = [], finishedToolIds = {},
      anonymousTools = [], currentMessageId = None, lineCount = 0, whitespaceDeltas = 0,
      tripped = None, onTripCalls = []\<rparr>"

definition enabled :: "watchdog \<Rightarrow> bool" where
  "enabled w = (stallTimeoutMs (wd_settings w) > 0 \<or> toolStallTimeoutMs (wd_settings w) > 0
                \<or> degenerateOutputLimit (wd_settings w) > 0)"

definition openTools :: "watchdog \<Rightarrow> nat" where
  "openTools w = length (openToolIds w) + length (anonymousTools w)"

definition fire :: "AgentWatchdogTrip \<Rightarrow> watchdog \<Rightarrow> watchdog" where
  "fire trip w =
     (case tripped w of
        Some _ \<Rightarrow> w
      | None \<Rightarrow>
          (let t = trip\<lparr>trip_message := describeAgentWatchdogTrip trip\<rparr>
           in w\<lparr>tripped := Some t, onTripCalls := onTripCalls w @ [t]\<rparr>))"

definition checkDegenerate :: "watchdog \<Rightarrow> watchdog" where
  "checkDegenerate w =
     (let limit = degenerateOutputLimit (wd_settings w)
      in if limit > 0 \<and> whitespaceDeltas w \<ge> limit
         then fire \<lparr>trip_rule = Degenerate_output, trip_terminationReason = Reason_degenerate_output,
                    trip_threshold = limit, trip_silentSeconds = None,
                    trip_degenerateDeltas = Some (whitespaceDeltas w), trip_message = []\<rparr> w
         else w)"

definition configure :: "AgentWatchdogSettings \<Rightarrow> watchdog \<Rightarrow> watchdog" where
  "configure settings w = checkDegenerate (w\<lparr>wd_settings := settings\<rparr>)"

definition recordActivity :: "int \<Rightarrow> watchdog \<Rightarrow> watchdog" where
  "recordActivity now w = w\<lparr>lastActivityAt := now\<rparr>"

definition recordToolStart :: "int \<Rightarrow> string option \<Rightarrow> string option \<Rightarrow> watchdog \<Rightarrow> watchdog" where
  "recordToolStart now toolid scope w0 =
     (let w = (recordActivity now w0)\<lparr>whitespaceDeltas := 0\<rparr>
      in case toolid of
           None \<Rightarrow> w\<lparr>anonymousTools := anonymousTools w @ [scope]\<rparr>
         | Some i \<Rightarrow>
             (if i \<notin> finishedToolIds w \<and> i \<notin> fst ` set (openToolIds w)
              then w\<lparr>openToolIds := AList.update i scope (openToolIds w)\<rparr> else w))"

text \<open>
  Closing an identified call that is open; the recursive call of \<open>recordToolEnd\<close> on the
  oldest open id always takes this branch.
\<close>

definition close_open :: "string \<Rightarrow> watchdog \<Rightarrow> watchdog" where
  "close_open i w = w\<lparr>openToolIds := AList.delete i (openToolIds w),
                       finishedToolIds := insert i (finishedToolIds w)\<rparr>"

definition recordToolEnd :: "int \<Rightarrow> string option \<Rightarrow> watchdog \<Rightarrow> watchdog" where
  "recordToolEnd now toolid w0 =
     (let w = (recordActivity now w0)\<lparr>whitespaceDeltas := 0\<rparr>
      in case toolid of
           Some i \<Rightarrow>
             (if i \<in> fst ` set (openToolIds w) then close_open i w
              else if i \<in> finishedToolIds w then w
              else w\<lparr>finishedToolIds := insert i (finishedToolIds w),
                     anonymousTools := drop 1 (anonymousTools w)\<rparr>)
         | None \<Rightarrow>
             (if anonymousTools w \<noteq> [] then w\<lparr>anonymousTools := tl (anonymousTools w)\<rparr>
              else case openToolIds w of
                     [] \<Rightarrow> w
                   | (i, _) # _ \<Rightarrow> close_open i w))"

definition declaredHere :: "string option \<Rightarrow> string option \<Rightarrow> bool" where
  "declaredHere scope toolScope = (scope \<noteq> None \<and> toolScope = scope)"

definition recordTextDelta :: "int \<Rightarrow> string \<Rightarrow> string option \<Rightarrow> watchdog \<Rightarrow> watchdog" where
  "recordTextDelta now text scope w0 =
     (let w = recordActivity now w0
      in if text = [] then w
         else let w1 = w\<lparr>openToolIds := filter (\<lambda>(i, ts). declaredHere scope ts) (openToolIds w),
                         finishedToolIds := finishedToolIds w
                           \<union> fst ` set (filter (\<lambda>(i, ts). \<not> declaredHere scope ts) (openToolIds w)),
                         anonymousTools := filter (declaredHere scope) (anonymousTools w)\<rparr>
              in if js_trim text \<noteq> [] then w1\<lparr>whitespaceDeltas := 0\<rparr>
                 else checkDegenerate (w1\<lparr>whitespaceDeltas := whitespaceDeltas w1 + 1\<rparr>))"

fun activity_messageId :: "AgentOutputActivity \<Rightarrow> string option" where
  "activity_messageId (Text _ m) = m"
| "activity_messageId (Tool_start _ m) = m"
| "activity_messageId (Tool_end _) = None"
| "activity_messageId (Activity m) = m"

definition observe_activity :: "int \<Rightarrow> string \<Rightarrow> AgentOutputActivity \<Rightarrow> watchdog \<Rightarrow> watchdog" where
  "observe_activity now lineScope a w0 =
     (let w = (case activity_messageId a of
                 Some (c # cs) \<Rightarrow> w0\<lparr>currentMessageId := Some (c # cs)\<rparr> | _ \<Rightarrow> w0);
          scope = (case activity_messageId a of
                     Some m \<Rightarrow> Some m
                   | None \<Rightarrow> (case currentMessageId w of Some m \<Rightarrow> Some m | None \<Rightarrow> Some lineScope))
      in case a of
           Text text _ \<Rightarrow> recordTextDelta now text scope w
         | Tool_start i _ \<Rightarrow> recordToolStart now i scope w
         | Tool_end i \<Rightarrow> recordToolEnd now i w
         | Activity _ \<Rightarrow> recordActivity now w)"

definition observeLine :: "(string \<Rightarrow> jsval option) \<Rightarrow> int \<Rightarrow> string \<Rightarrow> watchdog \<Rightarrow> watchdog" where
  "observeLine parse now line w0 =
     (let w = w0\<lparr>lineCount := lineCount w0 + 1\<rparr>;
          lineScope = ''line:'' @ show_nat (lineCount w)
      in fold (observe_activity now lineScope) (classifyAgentOutputLine parse line) w)"

definition currentThresholdMs :: "watchdog \<Rightarrow> int" where
  "currentThresholdMs w =
     (let stall = stallTimeoutMs (wd_settings w); tool = toolStallTimeoutMs (wd_settings w)
      in if openTools w = 0 then max stall 0
         else if tool > 0 then max stall tool else 0)"

definition check :: "int \<Rightarrow> watchdog \<Rightarrow> AgentWatchdogTrip option \<times> watchdog" where
  "check now w =
     (case tripped w of
        Some t \<Rightarrow> (Some t, w)
      | None \<Rightarrow>
          (let threshold = currentThresholdMs w; silentMs = now - lastActivityAt w
           in if threshold \<le> 0 then (None, w)
              else if silentMs < threshold then (None, w)
              else let w' = fire \<lparr>trip_rule = (if openTools w > 0 then Tool_inactivity else Inactivity),
                                  trip_terminationReason = Reason_stalled, trip_threshold = threshold,
                                  trip_silentSeconds = Some (silentMs div 1000),
                                  trip_degenerateDeltas = None, trip_message = []\<rparr> w
                   in (tripped w', w')))"

definition watchdogPollIntervalMs :: "AgentWatchdogSettings \<Rightarrow> int" where
  "watchdogPollIntervalMs settings =
     (let thresholds = filter (\<lambda>v. v > 0) [stallTimeoutMs settings, toolStallTimeoutMs settings]
      in case thresholds of
           [] \<Rightarrow> 0
         | t # ts \<Rightarrow> max 10 (min 5000 (fold min ts t div 4)))"

subsection \<open>Runs\<close>

datatype wd_event =
    Line string
  | Partial
  | Poll
  | Configure AgentWatchdogSettings

fun wd_step :: "(string \<Rightarrow> jsval option) \<Rightarrow> int \<times> wd_event \<Rightarrow> watchdog \<Rightarrow> watchdog" where
  "wd_step parse (now, Line line) w = observeLine parse now line w"
| "wd_step parse (now, Partial) w = recordActivity now w"
| "wd_step parse (now, Poll) w = snd (check now w)"
| "wd_step parse (now, Configure s) w = configure s w"

definition wd_run :: "(string \<Rightarrow> jsval option) \<Rightarrow> (int \<times> wd_event) list \<Rightarrow> watchdog \<Rightarrow> watchdog" where
  "wd_run parse evs w = fold (wd_step parse) evs w"

lemmas record_ops = recordActivity_def recordToolStart_def recordToolEnd_def recordTextDelta_def
  close_open_def checkDegenerate_def configure_def fire_def Let_def

subsection \<open>Invariants of the bookkeeping\<close>

text \<open>
  The callback has run exactly as often as the watchdog has tripped, with the recorded
  trip, and a tool call is never both running and finished.
\<close>

definition trip_once :: "watchdog \<Rightarrow> bool" where
  "trip_once w = (onTripCalls w = (case tripped w of None \<Rightarrow> [] | Some t \<Rightarrow> [t]))"

definition tools_ok :: "watchdog \<Rightarrow> bool" where
  "tools_ok w = (distinct (map fst (openToolIds w))
                 \<and> fst ` set (openToolIds w) \<inter> finishedToolIds w = {})"

definition wd_inv :: "watchdog \<Rightarrow> bool" where
  "wd_inv w = (trip_once w \<and> tools_ok w)"

text \<open>
  What later operations may do to an earlier state: keep a trip that happened and keep
  finished calls finished.
\<close>

definition wd_le :: "watchdog \<Rightarrow> watchdog \<Rightarrow> bool" where
  "wd_le w w' = ((\<forall>t. tripped w = Some t \<longrightarrow> tripped w' = Some t)
                 \<and> finishedToolIds w \<subseteq> finishedToolIds w')"

lemma wd_le_refl [simp]: "wd_le w w"
  by (simp add: wd_le_def)

lemma wd_le_trans: "wd_le u v \<Longrightarrow> wd_le v w \<Longrightarrow> wd_le u w"
  by (auto simp: wd_le_def)

lemma tools_ok_delete:
  "tools_ok w \<Longrightarrow> tools_ok (close_open i w)"
  by (auto simp: tools_ok_def close_open_def al_simps)

lemma fire_inv: "wd_inv w \<Longrightarrow> wd_inv (fire t w)"
  by (auto simp: wd_inv_def trip_once_def tools_ok_def fire_def Let_def split: option.splits)

lemma fire_le: "wd_le w (fire t w)"
  by (auto simp: wd_le_def fire_def Let_def split: option.splits)

lemma checkDegenerate_inv: "wd_inv w \<Longrightarrow> wd_inv (checkDegenerate w)"
  by (simp add: checkDegenerate_def Let_def fire_inv)

lemma checkDegenerate_le: "wd_le w (checkDegenerate w)"
  by (simp add: checkDegenerate_def Let_def fire_le)

lemma recordActivity_inv: "wd_inv w \<Longrightarrow> wd_inv (recordActivity now w)"
  by (simp add: wd_inv_def trip_once_def tools_ok_def recordActivity_def)

lemma recordToolStart_inv: "wd_inv w \<Longrightarrow> wd_inv (recordToolStart now i scope w)"
  by (cases i) (simp_all add: wd_inv_def trip_once_def tools_ok_def recordToolStart_def
      recordActivity_def Let_def al_simps)

lemma recordToolEnd_inv: "wd_inv w \<Longrightarrow> wd_inv (recordToolEnd now i w)"
proof -
  assume "wd_inv w"
  then have w: "wd_inv ((recordActivity now w)\<lparr>whitespaceDeltas := 0\<rparr>)" (is "wd_inv ?w")
    by (simp add: wd_inv_def trip_once_def tools_ok_def recordActivity_def)
  then have c: "wd_inv (close_open j ?w)" for j
    using tools_ok_delete [of ?w j] by (simp add: wd_inv_def trip_once_def close_open_def)
  from w c show ?thesis
    by (auto simp: recordToolEnd_def Let_def wd_inv_def trip_once_def tools_ok_def
        split: option.splits list.splits)
qed

lemma recordTextDelta_inv: "wd_inv w \<Longrightarrow> wd_inv (recordTextDelta now text scope w)"
proof -
  assume inv: "wd_inv w"
  let ?P = "\<lambda>(i :: string, ts). declaredHere scope ts"
  define w1 where "w1 = (recordActivity now w)\<lparr>
    openToolIds := filter ?P (openToolIds w),
    finishedToolIds := finishedToolIds w \<union> fst ` set (filter (\<lambda>x. \<not> ?P x) (openToolIds w)),
    anonymousTools := filter (declaredHere scope) (anonymousTools w)\<rparr>"
  have "distinct (map fst (openToolIds w))" using inv by (simp add: wd_inv_def tools_ok_def)
  from filter_fst_disjoint [OF this, of ?P]
  have "tools_ok w1" using inv
    by (auto simp: w1_def wd_inv_def tools_ok_def recordActivity_def distinct_map_filter)
  moreover have "trip_once w1" using inv
    by (simp add: w1_def wd_inv_def trip_once_def recordActivity_def)
  ultimately have "wd_inv (w1\<lparr>whitespaceDeltas := n\<rparr>)" for n
    by (simp add: wd_inv_def tools_ok_def trip_once_def)
  moreover have "recordTextDelta now text scope w =
      (if text = [] then recordActivity now w
       else if js_trim text \<noteq> [] then w1\<lparr>whitespaceDeltas := 0\<rparr>
       else checkDegenerate (w1\<lparr>whitespaceDeltas := whitespaceDeltas w1 + 1\<rparr>))"
    by (simp add: recordTextDelta_def w1_def Let_def recordActivity_def case_prod_unfold)
  ultimately show ?thesis
    using inv by (auto intro: recordActivity_inv checkDegenerate_inv)
qed

lemma record_le:
  "wd_le w (recordActivity now w)"
  "wd_le w (recordToolStart now i scope w)"
  "wd_le w (recordToolEnd now i w)"
  by (auto simp: wd_le_def recordActivity_def recordToolStart_def recordToolEnd_def close_open_def
      Let_def split: option.splits list.splits)

lemma recordTextDelta_le: "wd_le w (recordTextDelta now text scope w)"
proof -
  have "wd_le w v \<Longrightarrow> wd_le w (checkDegenerate v)" for v
    using checkDegenerate_le wd_le_trans by blast
  then show ?thesis
    by (auto simp: recordTextDelta_def Let_def recordActivity_def wd_le_def)
qed

lemma observe_activity_inv: "wd_inv w \<Longrightarrow> wd_inv (observe_activity now ls a w)"
proof -
  assume "wd_inv w"
  then have "wd_inv (w\<lparr>currentMessageId := m\<rparr>)" for m
    by (simp add: wd_inv_def trip_once_def tools_ok_def)
  with \<open>wd_inv w\<close> show ?thesis
    by (cases a) (auto simp: observe_activity_def Let_def recordTextDelta_inv recordToolStart_inv
        recordToolEnd_inv recordActivity_inv split: option.splits list.splits)
qed

lemma observe_activity_le: "wd_le w (observe_activity now ls a w)"
proof -
  have m: "wd_le (w\<lparr>currentMessageId := m\<rparr>) v \<Longrightarrow> wd_le w v" for m v
    by (simp add: wd_le_def)
  show ?thesis
    by (cases a) (auto simp: observe_activity_def Let_def record_le recordTextDelta_le
        intro: m [OF record_le(1)] m [OF record_le(2)] m [OF recordTextDelta_le]
        split: option.splits list.splits)
qed

interpretation wd_activities: monotone_machine "observe_activity now ls" wd_inv wd_le
  by unfold_locales (auto intro: observe_activity_inv observe_activity_le wd_le_trans)

lemma observeLine_inv: "wd_inv w \<Longrightarrow> wd_inv (observeLine parse now line w)"
  unfolding observeLine_def Let_def
  by (rule wd_activities.run_inv) (simp add: wd_inv_def trip_once_def tools_ok_def)

lemma observeLine_le: "wd_inv w \<Longrightarrow> wd_le w (observeLine parse now line w)"
proof -
  assume "wd_inv w"
  then have "wd_inv (w\<lparr>lineCount := lineCount w + 1\<rparr>)"
    by (simp add: wd_inv_def trip_once_def tools_ok_def)
  from wd_activities.run_le [OF this] show ?thesis
    by (simp add: observeLine_def Let_def wd_le_def)
qed

lemma check_inv: "wd_inv w \<Longrightarrow> wd_inv (snd (check now w))"
  by (auto simp: check_def Let_def fire_inv split: option.splits)

lemma check_le: "wd_le w (snd (check now w))"
  by (auto simp: check_def Let_def fire_le split: option.splits)

lemma configure_inv: "wd_inv w \<Longrightarrow> wd_inv (configure s w)"
  unfolding configure_def
  by (rule checkDegenerate_inv) (simp add: wd_inv_def trip_once_def tools_ok_def)

lemma configure_le: "wd_le w (configure s w)"
  using checkDegenerate_le [of "w\<lparr>wd_settings := s\<rparr>"]
  by (simp add: configure_def wd_le_def)

lemma wd_step_inv: "wd_inv w \<Longrightarrow> wd_inv (wd_step parse e w)"
  by (induction parse e w rule: wd_step.induct)
    (simp_all add: observeLine_inv recordActivity_inv check_inv configure_inv)

lemma wd_step_le: "wd_inv w \<Longrightarrow> wd_le w (wd_step parse e w)"
  by (induction parse e w rule: wd_step.induct)
    (simp_all add: observeLine_le record_le check_le configure_le)

interpretation wd_runs: monotone_machine "wd_step parse" wd_inv wd_le
  by unfold_locales (auto intro: wd_step_inv wd_step_le wd_le_trans)

lemma new_watchdog_inv [simp]: "wd_inv (new_watchdog s now)"
  by (simp add: new_watchdog_def wd_inv_def trip_once_def tools_ok_def)

subsection \<open>What the bookkeeping depends on\<close>

text \<open>
  Everything the watchdog has observed: its state with the thresholds and the trip erased.
  With all thresholds at zero no rule fires, so the operations commute with the erasure.
\<close>

definition observed :: "watchdog \<Rightarrow> watchdog" where
  "observed w = w\<lparr>wd_settings := \<lparr>stallTimeoutMs = 0, toolStallTimeoutMs = 0, degenerateOutputLimit = 0\<rparr>,
                  tripped := None, onTripCalls := []\<rparr>"

lemma observed_fire [simp]: "observed (fire t w) = observed w"
  by (cases w) (simp add: observed_def fire_def Let_def split: option.splits)

lemma observed_checkDegenerate [simp]: "observed (checkDegenerate w) = observed w"
  by (simp add: checkDegenerate_def Let_def)

lemma checkDegenerate_observed [simp]:
  "degenerateOutputLimit (wd_settings w) = 0 \<Longrightarrow> checkDegenerate w = w"
  by (simp add: checkDegenerate_def)

lemma observed_recordActivity: "observed (recordActivity now w) = recordActivity now (observed w)"
  by (cases w) (simp add: observed_def recordActivity_def)

lemma observed_recordToolStart:
  "observed (recordToolStart now i sc w) = recordToolStart now i sc (observed w)"
  by (cases w; cases i) (simp_all add: observed_def recordToolStart_def recordActivity_def Let_def)

lemma observed_recordToolEnd: "observed (recordToolEnd now i w) = recordToolEnd now i (observed w)"
  by (cases w; cases i) (simp_all add: observed_def recordToolEnd_def recordActivity_def
      close_open_def Let_def split: list.splits)

lemma observed_recordTextDelta:
  "observed (recordTextDelta now text sc w) = recordTextDelta now text sc (observed w)"
proof (cases w)
  case (fields st l op fin an cm lc wsd tr calls)
  let ?w = "\<lparr>wd_settings = st, lastActivityAt = now,
    openToolIds = filter (\<lambda>(i, ts). declaredHere sc ts) op,
    finishedToolIds = fin \<union> al_keys (filter (\<lambda>(i, ts). \<not> declaredHere sc ts) op),
    anonymousTools = filter (declaredHere sc) an, currentMessageId = cm, lineCount = lc,
    whitespaceDeltas = wsd + 1, tripped = tr, onTripCalls = calls\<rparr>"
  have "observed (checkDegenerate ?w) = observed ?w" by simp
  with fields show ?thesis
    by (simp add: recordTextDelta_def recordActivity_def Let_def observed_def)
qed

lemmas observed_record = observed_recordActivity observed_recordToolStart observed_recordToolEnd
  observed_recordTextDelta

lemma observed_currentMessageId [simp]:
  "observed (w\<lparr>currentMessageId := m\<rparr>) = (observed w)\<lparr>currentMessageId := m\<rparr>"
  "currentMessageId (observed w) = currentMessageId w"
  by (cases w; simp add: observed_def)+

lemma observed_observe_activity:
  "observed (observe_activity now ls a w) = observe_activity now ls a (observed w)"
  by (cases a) (simp_all add: observe_activity_def Let_def observed_record split: option.split list.split)

lemma observed_fold_activities:
  "observed (fold (observe_activity now ls) as w) = fold (observe_activity now ls) as (observed w)"
  by (induction as arbitrary: w) (auto simp: observed_observe_activity)

lemma observed_observeLine: "observed (observeLine parse now line w) = observeLine parse now line (observed w)"
proof -
  have "observed (w\<lparr>lineCount := n\<rparr>) = (observed w)\<lparr>lineCount := n\<rparr>"
    and "lineCount (observed w) = lineCount w" for n
    by (cases w; simp add: observed_def)+
  then show ?thesis by (simp add: observeLine_def Let_def observed_fold_activities)
qed

lemma observed_check [simp]: "observed (snd (check now w)) = observed w"
  by (simp add: check_def Let_def split: option.splits)

lemma observed_configure [simp]: "observed (configure st w) = observed w"
  by (cases w) (simp add: configure_def, simp add: observed_def)

lemma observed_wd_step:
  "observed w = observed v \<Longrightarrow> observed (wd_step parse e w) = observed (wd_step parse e v)"
  by (cases "(parse, e, w)" rule: wd_step.cases)
    (simp_all add: observed_observeLine observed_recordActivity)

lemma observed_wd_run:
  "observed w = observed v \<Longrightarrow> observed (wd_run parse evs w) = observed (wd_run parse evs v)"
proof (induction evs arbitrary: w v)
  case (Cons e evs)
  from Cons.IH [OF observed_wd_step [OF Cons.prems]] show ?case
    by (simp add: wd_run_def)
qed (simp add: wd_run_def)

subsection \<open>Every line counts as activity\<close>

lemma lastActivityAt_checkDegenerate [simp]: "lastActivityAt (checkDegenerate w) = lastActivityAt w"
  by (simp add: checkDegenerate_def fire_def Let_def split: option.splits)

lemma lastActivityAt_record [simp]:
  "lastActivityAt (recordActivity now w) = now"
  "lastActivityAt (recordToolStart now i sc w) = now"
  "lastActivityAt (recordToolEnd now i w) = now"
  "lastActivityAt (recordTextDelta now text sc w) = now"
  by (auto simp: recordActivity_def recordToolStart_def recordToolEnd_def recordTextDelta_def
      close_open_def Let_def split: option.splits list.splits)

lemma lastActivityAt_observe_activity [simp]: "lastActivityAt (observe_activity now ls a w) = now"
  by (cases a) (simp_all add: observe_activity_def Let_def)

lemma lastActivityAt_fold_activities:
  "as \<noteq> [] \<Longrightarrow> lastActivityAt (fold (observe_activity now ls) as w) = now"
  by (induction as arbitrary: w rule: rev_induct) auto

lemma classifyAgentOutputLine_nonempty: "classifyAgentOutputLine parse line \<noteq> []"
  by (simp add: classifyAgentOutputLine_def Let_def classifyEvent_nonempty split: option.splits)

lemma lastActivityAt_observeLine: "lastActivityAt (observeLine parse now line w) = now"
  by (simp add: observeLine_def Let_def lastActivityAt_fold_activities
      classifyAgentOutputLine_nonempty)

subsection \<open>Properties\<close>

text \<open>A watchdog used in the examples: one second of silence, two white-space deltas.\<close>

definition stall_after_1s :: watchdog where
  "stall_after_1s = new_watchdog
     \<lparr>stallTimeoutMs = 1000, toolStallTimeoutMs = 0, degenerateOutputLimit = 2\<rparr> 0"

text \<open>
  A parser for the examples, defined on the few lines they use: the start and the end of
  a tool call, a white-space delta and a text delta.
\<close>

fun sample_parse :: "string \<Rightarrow> jsval option" where
  "sample_parse line =
     (if line = ''{start'' then Some (JObj [(''type'', JStr ''tool_use''), (''id'', JStr ''a'')])
      else if line = ''{end'' then Some (JObj [(''type'', JStr ''tool_result''), (''id'', JStr ''a'')])
      else if line = ''{blank'' then Some (JObj [(''type'', JStr ''delta''), (''delta'', JStr '' '')])
      else if line = ''{text'' then Some (JObj [(''type'', JStr ''delta''), (''delta'', JStr ''ok'')])
      else None)"

definition tool_turn :: "(int \<times> wd_event) list" where
  "tool_turn = [(1, Line ''{start''), (2, Line ''{end'')]"

definition blank_then_text :: "(int \<times> wd_event) list" where
  "blank_then_text = [(1, Line ''{blank''), (2, Line ''{blank''), (3, Line ''{text'')]"

text \<open>
  Whatever lines, partial output, polls and configuration changes a watchdog sees, its
  trip callback runs at most once, and a trip is final: continuing the run in any way
  keeps the same trip and calls the callback with nothing else.
\<close>

theorem watchdog_trips_at_most_once:
  "length (onTripCalls (wd_run parse evs (new_watchdog s t0))) \<le> 1
    \<and> (\<forall>t evs'. tripped (wd_run parse evs (new_watchdog s t0)) = Some t \<longrightarrow>
          tripped (wd_run parse (evs @ evs') (new_watchdog s t0)) = Some t
        \<and> onTripCalls (wd_run parse (evs @ evs') (new_watchdog s t0)) = [t])"
proof -
  let ?w = "\<lambda>es. wd_run parse es (new_watchdog s t0)"
  have inv: "wd_inv (?w es)" for es
    unfolding wd_run_def by (rule wd_runs.run_inv) simp
  have "wd_le (?w evs) (?w (evs @ es))" for es
    using wd_runs.run_le [OF inv [of evs], where es = es and parse = parse] by (simp add: wd_run_def)
  then show ?thesis
    using inv by (auto simp: wd_inv_def trip_once_def wd_le_def split: option.splits)
qed

theorem watchdog_trips_at_most_once_witness:
  "\<exists>t. tripped (wd_run Map.empty [(1500, Poll)] stall_after_1s) = Some t
      \<and> onTripCalls (wd_run Map.empty ([(1500, Poll)] @ [(1600, Partial), (9000, Poll)]) stall_after_1s) = [t]"
proof -
  have "\<exists>t. tripped (wd_run Map.empty [(1500, Poll)] stall_after_1s) = Some t"
    by (simp add: wd_run_def stall_after_1s_def new_watchdog_def check_def currentThresholdMs_def
        openTools_def fire_def Let_def)
  with watchdog_trips_at_most_once [of Map.empty "[(1500, Poll)]"
      "\<lparr>stallTimeoutMs = 1000, toolStallTimeoutMs = 0, degenerateOutputLimit = 2\<rparr>" 0]
  show ?thesis unfolding stall_after_1s_def by blast
qed

text \<open>
  every complete output line, of any protocol or of none, restarts the silence clock
  (no record classifies to nothing), so a watchdog that has not tripped does not trip for
  silence at a poll that comes sooner after the line than the threshold in force.
\<close>

theorem output_line_postpones_stall:
  assumes "tripped (observeLine parse now line w) = None"
    and "now' - now < currentThresholdMs (observeLine parse now line w)"
  shows "lastActivityAt (observeLine parse now line w) = now
    \<and> check now' (observeLine parse now line w) = (None, observeLine parse now line w)"
  using assms by (simp add: check_def Let_def lastActivityAt_observeLine)

theorem output_line_postpones_stall_witness:
  "check 1500 (observeLine Map.empty 1000 ''hi'' stall_after_1s)
   = (None, observeLine Map.empty 1000 ''hi'' stall_after_1s)"
  by (rule output_line_postpones_stall [THEN conjunct2])
    (simp_all add: observeLine_def Let_def classifyAgentOutputLine_def js_trim_def js_trim_end_def
      js_trim_start_def js_space_def code_of_def ACTIVITY_def observe_activity_def recordActivity_def
      stall_after_1s_def new_watchdog_def currentThresholdMs_def openTools_def)

text \<open>
  A tool call that has ended stays ended. No later line, however it repeats the call's
  start or end record, makes it count as running again.
\<close>

theorem finished_tool_never_reopens:
  assumes "i \<in> finishedToolIds (wd_run parse evs (new_watchdog s t0))"
  shows "i \<in> finishedToolIds (wd_run parse (evs @ evs') (new_watchdog s t0))
    \<and> i \<notin> al_keys (openToolIds (wd_run parse (evs @ evs') (new_watchdog s t0)))"
proof -
  let ?w = "\<lambda>es. wd_run parse es (new_watchdog s t0)"
  have inv: "wd_inv (?w es)" for es
    unfolding wd_run_def by (rule wd_runs.run_inv) simp
  have "wd_le (?w evs) (?w (evs @ evs'))"
    using wd_runs.run_le [OF inv [of evs], where es = evs' and parse = parse] by (simp add: wd_run_def)
  with assms inv [of "evs @ evs'"] show ?thesis
    by (auto simp: wd_le_def wd_inv_def tools_ok_def)
qed

theorem finished_tool_never_reopens_witness:
  "''a'' \<in> finishedToolIds (wd_run sample_parse (tool_turn @ [(3, Line ''{start'')]) stall_after_1s)
   \<and> ''a'' \<notin> al_keys (openToolIds (wd_run sample_parse (tool_turn @ [(3, Line ''{start'')]) stall_after_1s))"
  unfolding stall_after_1s_def
  by (rule finished_tool_never_reopens) code_simp

text \<open>
  C30: what the watchdog has observed never depends on its thresholds, so thresholds that
  become known late find the same activity and the same running tools as if they had
  applied from the start.
\<close>

theorem observations_independent_of_settings:
  "observed (configure s (wd_run parse evs (new_watchdog placeholder t0)))
   = observed (wd_run parse evs (new_watchdog s t0))"
proof -
  have "observed (new_watchdog placeholder t0) = observed (new_watchdog s t0)"
    by (simp add: observed_def new_watchdog_def)
  from observed_wd_run [OF this] show ?thesis by simp
qed


text \<open>
  While a silence rule is enabled, the watchdog is polled every 10 to 5000
  milliseconds, and at least four times per enabled threshold of 40 milliseconds or more;
  with both rules disabled there is no poll.
\<close>

theorem poll_interval_bounds:
  "(watchdogPollIntervalMs s = 0 \<longleftrightarrow> stallTimeoutMs s \<le> 0 \<and> toolStallTimeoutMs s \<le> 0)
   \<and> (0 < stallTimeoutMs s \<or> 0 < toolStallTimeoutMs s \<longrightarrow>
        10 \<le> watchdogPollIntervalMs s \<and> watchdogPollIntervalMs s \<le> 5000
      \<and> (40 \<le> stallTimeoutMs s \<longrightarrow> 4 * watchdogPollIntervalMs s \<le> max 40 (stallTimeoutMs s))
      \<and> (40 \<le> toolStallTimeoutMs s \<longrightarrow> 4 * watchdogPollIntervalMs s \<le> max 40 (toolStallTimeoutMs s)))"
  by (auto simp: watchdogPollIntervalMs_def Let_def min_def max_def)

theorem poll_interval_bounds_witness:
  "watchdogPollIntervalMs (wd_settings stall_after_1s) = 250
   \<and> 4 * watchdogPollIntervalMs (wd_settings stall_after_1s) \<le> max 40 (stallTimeoutMs (wd_settings stall_after_1s))"
  using poll_interval_bounds [of "wd_settings stall_after_1s"]
  by (simp add: stall_after_1s_def new_watchdog_def watchdogPollIntervalMs_def)

end
