(* ===== verification/Cost_Cap.thy ===== *)
theory Cost_Cap
  imports Prelude
begin

section \<open>Spend caps: parsing, precedence, remaining budget\<close>

text \<open>
  The model of \<^verbatim>\<open>packages/core/src/budget/runCostCap.ts\<close> and of the shared constants in
  \<^verbatim>\<open>packages/shared/src/runCostCap.ts\<close>. Amounts are exact rationals. A configured value is
  a \<^typ>\<open>jsval\<close>, since it comes from a submission, a YAML file or a settings row.
\<close>

datatype RunCostCapSource = Override | Workflow | Instance_default

record RunCostCap =
  capUsd :: rat
  cap_source :: RunCostCapSource

record RunCostCapInputs =
  in_override :: jsval
  in_workflow :: jsval
  in_instanceDefault :: jsval

definition MAX_RUN_COST_CAP_USD :: rat where
  "MAX_RUN_COST_CAP_USD = 100000"

fun RUN_COST_CAP_SOURCE_LABELS :: "RunCostCapSource \<Rightarrow> string" where
  "RUN_COST_CAP_SOURCE_LABELS Override = ''per-task override''"
| "RUN_COST_CAP_SOURCE_LABELS Workflow = ''.propr/workflow.yml''"
| "RUN_COST_CAP_SOURCE_LABELS Instance_default = ''instance default''"

text \<open>\<open>/^\s*\d+(?:\.\d+)?\s*$/\<close>, giving the digits before and after the point.\<close>

definition decimal_amount :: "string \<Rightarrow> (string \<times> string) option" where
  "decimal_amount value =
     (let s = js_trim value; whole = takeWhile js_digit s; rest = dropWhile js_digit s
      in if whole = [] then None
         else case rest of
                [] \<Rightarrow> Some (whole, [])
              | c # fraction \<Rightarrow>
                  (if c = CHR ''.'' \<and> fraction \<noteq> [] \<and> list_all js_digit fraction then Some (whole, fraction) else None))"

text \<open>
  \<open>Number(value)\<close> on such a string. Amounts from \<open>2\<^sup>1\<^sup>0\<^sup>2\<^sup>4 - 2\<^sup>9\<^sup>7\<^sup>0\<close> on round to infinity in
  IEEE double arithmetic.
\<close>

definition decimal_value :: "string \<times> string \<Rightarrow> jsnum" where
  "decimal_value d =
     (let r = rat_of_nat (js_number_of_digits (fst d))
              + rat_of_nat (js_number_of_digits (snd d)) / 10 ^ length (snd d)
      in if r \<ge> 2 ^ 1024 - 2 ^ 970 then PosInfinity else Fin r)"

definition parseCostCapUsd :: "jsval \<Rightarrow> rat option" where
  "parseCostCapUsd value =
     (case value of
        JUndefined \<Rightarrow> None
      | JNull \<Rightarrow> None
      | _ \<Rightarrow>
          (case value of
             JStr s \<Rightarrow> (if js_trim s = [] then None
                       else case decimal_amount s of
                              None \<Rightarrow> None
                            | Some d \<Rightarrow>
                                (case decimal_value d of
                                   Fin amount \<Rightarrow> (if amount < 0 \<or> amount = 0 then None
                                                 else Some (min amount MAX_RUN_COST_CAP_USD))
                                 | _ \<Rightarrow> None))
           | JNum (Fin amount) \<Rightarrow> (if amount < 0 \<or> amount = 0 then None
                                  else Some (min amount MAX_RUN_COST_CAP_USD))
           | _ \<Rightarrow> None))"

fun first_cap :: "(RunCostCapSource \<times> jsval) list \<Rightarrow> RunCostCap option" where
  "first_cap [] = None"
| "first_cap ((source, value) # levels) =
     (case parseCostCapUsd value of
        Some c \<Rightarrow> Some \<lparr>capUsd = c, cap_source = source\<rparr>
      | None \<Rightarrow> first_cap levels)"

definition resolveRunCostCap :: "RunCostCapInputs \<Rightarrow> RunCostCap option" where
  "resolveRunCostCap inputs =
     first_cap [(Override, in_override inputs), (Workflow, in_workflow inputs),
                (Instance_default, in_instanceDefault inputs)]"

definition remainingRunBudget :: "rat \<Rightarrow> rat \<Rightarrow> rat" where
  "remainingRunBudget cap spentUsd =
     (let spent = (if spentUsd > 0 then spentUsd else 0) in max 0 (cap - spent))"

text \<open>\<open>amount.toFixed(2)\<close> for amounts from 0 up to \<open>10\<^sup>2\<^sup>1\<close>: round half up, two decimals.\<close>

definition formatUsd :: "rat \<Rightarrow> string" where
  "formatUsd amount =
     (let cents = nat \<lfloor>amount * 100 + 1 / 2\<rfloor>
      in ''$'' @ show_nat (cents div 100) @ ''.'' @ show_nat (cents mod 100 div 10) @ show_nat (cents mod 10))"

definition runCostCapStopMessage :: "RunCostCap \<Rightarrow> rat \<Rightarrow> string" where
  "runCostCapStopMessage cap spentUsd =
     ''Agent execution stopped: run spend cap of '' @ formatUsd (capUsd cap)
     @ '' exceeded (estimated spend '' @ formatUsd spentUsd @ '', cap from ''
     @ RUN_COST_CAP_SOURCE_LABELS (cap_source cap) @ '')''"

text \<open>\<open>/(?:^|\n)agent execution stopped: run spend cap of \$/i\<close>.\<close>

definition RUN_COST_CAP_STOP_PATTERN :: "string \<Rightarrow> bool" where
  "RUN_COST_CAP_STOP_PATTERN text =
     (let t = js_lower text; p = ''agent execution stopped: run spend cap of $''
      in prefix p t \<or> js_includes t (CHR 10 # p))"

datatype AgentTerminalReason = Timed_out | Cost_cap_exceeded | Stalled_out | Degenerate_out

definition taskTerminalReasonForAgentTermination :: "string option \<Rightarrow> AgentTerminalReason option" where
  "taskTerminalReasonForAgentTermination reason =
     (if reason = Some ''timeout'' then Some Timed_out
      else if reason = Some ''cost_cap'' then Some Cost_cap_exceeded
      else if reason = Some ''stalled'' then Some Stalled_out
      else if reason = Some ''degenerate_output'' then Some Degenerate_out
      else None)"

subsection \<open>Properties\<close>

lemma parseCostCapUsd_bounds:
  "parseCostCapUsd v = Some c \<Longrightarrow> 0 < c \<and> c \<le> MAX_RUN_COST_CAP_USD"
  by (auto simp: parseCostCapUsd_def MAX_RUN_COST_CAP_USD_def split: jsval.splits jsnum.splits if_splits option.splits)

text \<open>
  The cap a run gets is the one of the highest level (task override, then repository
  workflow, then instance default) whose value parses, it is positive and at most 100000
  dollars, and a run has no cap exactly when no level's value parses.
\<close>

theorem resolved_cap_precedence_and_bounds:
  "(resolveRunCostCap inputs = None \<longleftrightarrow>
      parseCostCapUsd (in_override inputs) = None \<and> parseCostCapUsd (in_workflow inputs) = None
      \<and> parseCostCapUsd (in_instanceDefault inputs) = None)
   \<and> (\<forall>cap. resolveRunCostCap inputs = Some cap \<longrightarrow>
        0 < capUsd cap \<and> capUsd cap \<le> 100000
      \<and> (case cap_source cap of
           Override \<Rightarrow> parseCostCapUsd (in_override inputs) = Some (capUsd cap)
         | Workflow \<Rightarrow> parseCostCapUsd (in_override inputs) = None
                      \<and> parseCostCapUsd (in_workflow inputs) = Some (capUsd cap)
         | Instance_default \<Rightarrow> parseCostCapUsd (in_override inputs) = None
                      \<and> parseCostCapUsd (in_workflow inputs) = None
                      \<and> parseCostCapUsd (in_instanceDefault inputs) = Some (capUsd cap)))"
proof -
  have b: "parseCostCapUsd v = Some c \<Longrightarrow> 0 < c \<and> c \<le> 100000" for v c
    using parseCostCapUsd_bounds by (fastforce simp: MAX_RUN_COST_CAP_USD_def)
  show ?thesis
    by (auto simp: resolveRunCostCap_def dest: b split: option.splits)
qed

theorem resolved_cap_precedence_and_bounds_witness:
  "resolveRunCostCap \<lparr>in_override = JStr ''five'', in_workflow = JNum (Fin 250000), in_instanceDefault = JNum (Fin 5)\<rparr>
     = Some \<lparr>capUsd = 100000, cap_source = Workflow\<rparr>
   \<and> parseCostCapUsd (JStr ''five'') = None"
proof -
  let ?i = "\<lparr>in_override = JStr ''five'', in_workflow = JNum (Fin 250000), in_instanceDefault = JNum (Fin 5)\<rparr>"
  have r: "resolveRunCostCap ?i = Some \<lparr>capUsd = 100000, cap_source = Workflow\<rparr>"
    by (simp add: resolveRunCostCap_def parseCostCapUsd_def MAX_RUN_COST_CAP_USD_def decimal_amount_def
        js_trim_def js_trim_end_def js_trim_start_def js_space_def js_digit_def code_of_def Let_def)
  from r resolved_cap_precedence_and_bounds [of ?i] show ?thesis by simp
qed

text \<open>
  The message a capped run is stopped with is always recognised by the pattern that
  termination parsing uses, whatever the cap, its source and the spend, also when it
  follows other lines of output.
\<close>

theorem stop_message_is_recognised:
  "RUN_COST_CAP_STOP_PATTERN (runCostCapStopMessage cap spent)
   \<and> RUN_COST_CAP_STOP_PATTERN (out @ CHR 10 # runCostCapStopMessage cap spent)"
proof -
  let ?p = "''agent execution stopped: run spend cap of $''"
  have "\<exists>r. runCostCapStopMessage cap spent = ''Agent execution stopped: run spend cap of $'' @ r"
    by (simp add: runCostCapStopMessage_def formatUsd_def Let_def)
  then obtain r where "runCostCapStopMessage cap spent = ''Agent execution stopped: run spend cap of $'' @ r" ..
  moreover have "js_lower ''Agent execution stopped: run spend cap of $'' = ?p"
    by code_simp
  ultimately have r: "js_lower (runCostCapStopMessage cap spent) = ?p @ js_lower r"
    by (simp only: js_lower_append)
  then have "js_lower (out @ CHR 10 # runCostCapStopMessage cap spent)
      = js_lower out @ CHR 10 # ?p @ js_lower r"
    using js_lower_append [of out "CHR 10 # runCostCapStopMessage cap spent"]
    by (simp add: js_lower_def js_lower_char_def code_of_def)
  then have "RUN_COST_CAP_STOP_PATTERN (out @ CHR 10 # runCostCapStopMessage cap spent)"
    unfolding RUN_COST_CAP_STOP_PATTERN_def Let_def js_includes_def list_ex_iff
    by (intro disjI2 bexI [of _ "CHR 10 # ?p @ js_lower r"]) (auto simp: suffix_def)
  with r show ?thesis by (simp add: RUN_COST_CAP_STOP_PATTERN_def)
qed

end
