(* ===== verification/Usage_Tally.thy ===== *)
theory Usage_Tally
  imports Prelude
begin

section \<open>What one agent execution has consumed so far\<close>

text \<open>
  The model of \<^verbatim>\<open>packages/core/src/budget/runUsageTally.ts\<close>. The class \<open>RunUsageTally\<close> is a
  record; \<open>observeLine\<close> is a function on it. \<open>JSON.parse\<close> is the argument \<open>parse\<close>.
\<close>

record RunTokenTotals =
  inputTokens :: rat
  outputTokens :: rat
  cacheCreationTokens :: rat
  cacheReadTokens :: rat

definition ZERO :: RunTokenTotals where
  "ZERO = \<lparr>inputTokens = 0, outputTokens = 0, cacheCreationTokens = 0, cacheReadTokens = 0\<rparr>"

fun token_count :: "jsval \<Rightarrow> rat" where
  "token_count (JNum (Fin n)) = (if n > 0 then n else 0)"
| "token_count _ = 0"

definition normalizeUsage :: "(string \<times> jsval) list \<Rightarrow> RunTokenTotals" where
  "normalizeUsage usage =
     (let cachedInput = token_count (js_get usage ''cached_input_tokens'');
          input = token_count (js_coalesce (js_get usage ''input_tokens'') (js_get usage ''prompt_tokens''))
      in \<lparr>inputTokens = (if cachedInput > 0 then max 0 (input - cachedInput) else input),
          outputTokens = token_count (js_coalesce (js_get usage ''output_tokens'') (js_get usage ''completion_tokens'')),
          cacheCreationTokens = token_count (js_get usage ''cache_creation_input_tokens''),
          cacheReadTokens = cachedInput + token_count (js_get usage ''cache_read_input_tokens'')\<rparr>)"

definition add_totals :: "RunTokenTotals \<Rightarrow> RunTokenTotals \<Rightarrow> RunTokenTotals" where
  "add_totals a b =
     \<lparr>inputTokens = inputTokens a + inputTokens b, outputTokens = outputTokens a + outputTokens b,
      cacheCreationTokens = cacheCreationTokens a + cacheCreationTokens b,
      cacheReadTokens = cacheReadTokens a + cacheReadTokens b\<rparr>"

definition max_totals :: "RunTokenTotals \<Rightarrow> RunTokenTotals \<Rightarrow> RunTokenTotals" where
  "max_totals a b =
     \<lparr>inputTokens = max (inputTokens a) (inputTokens b),
      outputTokens = max (outputTokens a) (outputTokens b),
      cacheCreationTokens = max (cacheCreationTokens a) (cacheCreationTokens b),
      cacheReadTokens = max (cacheReadTokens a) (cacheReadTokens b)\<rparr>"

definition RELEVANT_KEYS :: "string list" where
  "RELEVANT_KEYS = [''usage'', ''cost'', ''session_id'', ''thread_id'', ''conversation_id'']"

fun nonempty_string :: "jsval \<Rightarrow> string option" where
  "nonempty_string (JStr s) = (if s = [] then None else Some s)"
| "nonempty_string _ = None"

definition sessionIdOf :: "(string \<times> jsval) list \<Rightarrow> string option" where
  "sessionIdOf event =
     (case nonempty_string (js_get event ''session_id'') of
        Some s \<Rightarrow> Some s
      | None \<Rightarrow>
          (case nonempty_string (js_get event ''thread_id'') of
             Some s \<Rightarrow> Some s
           | None \<Rightarrow>
               (if js_get event ''event'' \<noteq> JStr ''init'' then None
                else let nested = (case js_record (js_get event ''init'') of
                                     None \<Rightarrow> JUndefined | Some i \<Rightarrow> js_get i ''conversation_id'')
                     in nonempty_string (js_coalesce (js_get event ''conversation_id'') nested))))"

record RunUsageTally =
  tally_model :: "string option"
  tally_sessionId :: "string option"
  reportedCostUsd :: rat
  tally_messages :: "(string \<times> RunTokenTotals) list"
  unidentified :: RunTokenTotals

definition new_tally :: "string option \<Rightarrow> RunUsageTally" where
  "new_tally model =
     \<lparr>tally_model = model, tally_sessionId = None, reportedCostUsd = 0, tally_messages = [], unidentified = ZERO\<rparr>"

text \<open>The effects of one parsed event, in the order of the source.\<close>

definition note_session :: "(string \<times> jsval) list \<Rightarrow> RunUsageTally \<Rightarrow> RunUsageTally" where
  "note_session event t =
     (case sessionIdOf event of None \<Rightarrow> t | Some s \<Rightarrow> t\<lparr>tally_sessionId := Some s\<rparr>)"

definition event_message :: "(string \<times> jsval) list \<Rightarrow> (string \<times> jsval) list option" where
  "event_message event = js_record (js_get event ''message'')"

definition note_model :: "(string \<times> jsval) list \<Rightarrow> RunUsageTally \<Rightarrow> RunUsageTally" where
  "note_model event t =
     (let m = js_coalesce (case event_message event of None \<Rightarrow> JUndefined | Some msg \<Rightarrow> js_get msg ''model'')
                          (js_get event ''model'')
      in case nonempty_string m of
           Some s \<Rightarrow> (if tally_model t \<in> {None, Some []} then t\<lparr>tally_model := Some s\<rparr> else t)
         | None \<Rightarrow> t)"

definition note_cost :: "(string \<times> jsval) list \<Rightarrow> RunUsageTally \<Rightarrow> RunUsageTally" where
  "note_cost event t =
     (let total = token_count (js_get event ''total_cost_usd'');
          reported = (if total \<noteq> 0 then total else token_count (js_get event ''cost_usd''))
      in if reported > reportedCostUsd t then t\<lparr>reportedCostUsd := reported\<rparr> else t)"

definition event_usage :: "(string \<times> jsval) list \<Rightarrow> (string \<times> jsval) list option" where
  "event_usage event =
     (case (case event_message event of None \<Rightarrow> None | Some m \<Rightarrow> js_record (js_get m ''usage'')) of
        Some u \<Rightarrow> Some u
      | None \<Rightarrow> js_record (js_get event ''usage''))"

definition event_message_id :: "(string \<times> jsval) list \<Rightarrow> string option" where
  "event_message_id event =
     (case event_message event of None \<Rightarrow> None | Some m \<Rightarrow> nonempty_string (js_get m ''id''))"

definition note_usage :: "(string \<times> jsval) list \<Rightarrow> RunUsageTally \<Rightarrow> RunUsageTally" where
  "note_usage event t =
     (if js_get event ''type'' = JStr ''result'' then t
      else case event_usage event of
             None \<Rightarrow> t
           | Some usage \<Rightarrow>
               (let totals = normalizeUsage usage
                in case event_message_id event of
                     Some mid \<Rightarrow>
                       t\<lparr>tally_messages := AList.update mid
                           (case map_of (tally_messages t) mid of
                              Some previous \<Rightarrow> max_totals previous totals | None \<Rightarrow> totals)
                           (tally_messages t)\<rparr>
                   | None \<Rightarrow> t\<lparr>unidentified := add_totals (unidentified t) totals\<rparr>))"

definition tally_event :: "(string \<times> jsval) list \<Rightarrow> RunUsageTally \<Rightarrow> RunUsageTally" where
  "tally_event event t = note_usage event (note_cost event (note_model event (note_session event t)))"

definition tally_observeLine :: "(string \<Rightarrow> jsval option) \<Rightarrow> string \<Rightarrow> RunUsageTally \<Rightarrow> RunUsageTally" where
  "tally_observeLine parse line t =
     (if \<not> list_ex (\<lambda>key. js_includes line key) RELEVANT_KEYS then t
      else case parse line of
             None \<Rightarrow> t
           | Some v \<Rightarrow> (case js_record v of None \<Rightarrow> t | Some event \<Rightarrow> tally_event event t))"

definition totals :: "RunUsageTally \<Rightarrow> RunTokenTotals" where
  "totals t = fold (\<lambda>(_, m) acc. add_totals acc m) (tally_messages t) (unidentified t)"

subsection \<open>The order on totals\<close>

definition totals_le :: "RunTokenTotals \<Rightarrow> RunTokenTotals \<Rightarrow> bool" where
  "totals_le a b = (inputTokens a \<le> inputTokens b \<and> outputTokens a \<le> outputTokens b
     \<and> cacheCreationTokens a \<le> cacheCreationTokens b \<and> cacheReadTokens a \<le> cacheReadTokens b)"

lemmas totals_defs = totals_le_def add_totals_def max_totals_def ZERO_def

lemma totals_le_refl [simp]: "totals_le a a"
  by (simp add: totals_le_def)

lemma totals_le_trans: "totals_le a b \<Longrightarrow> totals_le b c \<Longrightarrow> totals_le a c"
  by (auto simp: totals_le_def)

lemma totals_le_add: "totals_le a b \<Longrightarrow> totals_le c d \<Longrightarrow> totals_le (add_totals a c) (add_totals b d)"
  by (simp add: totals_defs add_mono)

lemma totals_le_max1: "totals_le a (max_totals a b)"
  by (simp add: totals_defs)

lemma totals_le_max2: "totals_le a b \<Longrightarrow> totals_le a (max_totals c b)"
  by (auto simp: totals_defs)

lemma max_totals_idem [simp]: "max_totals (max_totals a b) b = max_totals a b" "max_totals a a = a"
  by (simp_all add: totals_defs)

lemma add_totals_ZERO [simp]: "add_totals ZERO a = a" "add_totals a ZERO = a"
  by (simp_all add: totals_defs)

lemma add_totals_assoc: "add_totals (add_totals a b) c = add_totals a (add_totals b c)"
  by (simp add: totals_defs)

lemma add_totals_commute: "add_totals a b = add_totals b a"
  by (simp add: totals_defs add.commute)

lemma token_count_nonneg [simp]: "0 \<le> token_count v"
  by (induction v rule: token_count.induct) auto

lemma normalizeUsage_nonneg: "totals_le ZERO (normalizeUsage u)"
  by (simp add: totals_defs normalizeUsage_def Let_def)

definition message_sum :: "(string \<times> RunTokenTotals) list \<Rightarrow> RunTokenTotals" where
  "message_sum ms = fold (\<lambda>(_, m) acc. add_totals acc m) ms ZERO"

lemma fold_add_totals:
  "fold (\<lambda>(_, m) acc. add_totals acc m) ms a = add_totals a (message_sum ms)"
proof (induction ms arbitrary: a)
  case Nil
  then show ?case by (simp add: message_sum_def)
next
  case (Cons p ms)
  let ?f = "\<lambda>(_, m) acc. add_totals acc m"
  obtain k m where p: "p = (k, m)" by fastforce
  have "message_sum (p # ms) = fold ?f ms m"
    by (simp add: message_sum_def p)
  also have "\<dots> = add_totals m (message_sum ms)" by (rule Cons.IH)
  finally have "add_totals a (message_sum (p # ms)) = add_totals (add_totals a m) (message_sum ms)"
    by (simp add: add_totals_assoc)
  then show ?case using Cons.IH [of "add_totals a m"] by (simp add: p)
qed

lemma message_sum_simps [simp]:
  "message_sum [] = ZERO" "message_sum ((k, m) # ms) = add_totals m (message_sum ms)"
  using fold_add_totals [of ms m] by (simp_all add: message_sum_def)

lemma totals_eq: "totals t = add_totals (unidentified t) (message_sum (tally_messages t))"
  by (simp add: totals_def fold_add_totals)

lemma message_sum_update_mono:
  assumes "\<And>old. map_of ms k = Some old \<Longrightarrow> totals_le old v" and "totals_le ZERO v"
  shows "totals_le (message_sum ms) (message_sum (AList.update k v ms))"
  using assms
proof (induction ms)
  case Nil
  then show ?case by simp
next
  case (Cons p ms)
  obtain k' m where p: "p = (k', m)" by fastforce
  show ?case
  proof (cases "k' = k")
    case True
    with Cons.prems(1) [of m] show ?thesis by (simp add: p totals_le_add)
  next
    case False
    with Cons show ?thesis by (simp add: p totals_le_add)
  qed
qed

subsection \<open>Properties\<close>

text \<open>All token counts of a tally are non-negative and its messages are keyed uniquely.\<close>

definition tally_inv :: "RunUsageTally \<Rightarrow> bool" where
  "tally_inv t = (totals_le ZERO (unidentified t) \<and> distinct (map fst (tally_messages t))
     \<and> (\<forall>(k, m) \<in> set (tally_messages t). totals_le ZERO m) \<and> 0 \<le> reportedCostUsd t)"

lemma note_meta_fields [simp]:
  "tally_messages (note_session e t) = tally_messages t" "unidentified (note_session e t) = unidentified t"
  "reportedCostUsd (note_session e t) = reportedCostUsd t"
  "tally_messages (note_model e t) = tally_messages t" "unidentified (note_model e t) = unidentified t"
  "reportedCostUsd (note_model e t) = reportedCostUsd t"
  "tally_messages (note_cost e t) = tally_messages t" "unidentified (note_cost e t) = unidentified t"
  "tally_sessionId (note_model e t) = tally_sessionId t" "tally_sessionId (note_cost e t) = tally_sessionId t"
  by (simp_all add: note_session_def note_model_def note_cost_def Let_def split: option.splits)

lemma note_cost_mono: "reportedCostUsd t \<le> reportedCostUsd (note_cost e t)"
  by (simp add: note_cost_def Let_def)

lemma note_usage_cost [simp]: "reportedCostUsd (note_usage e t) = reportedCostUsd t"
  by (simp add: note_usage_def Let_def split: option.splits)

lemma note_usage_mono: "totals_le (totals t) (totals (note_usage e t))"
proof (cases "js_get e ''type'' = JStr ''result'' \<or> event_usage e = None")
  case True
  then show ?thesis by (auto simp: note_usage_def)
next
  case False
  then obtain u where u: "event_usage e = Some u" and r: "js_get e ''type'' \<noteq> JStr ''result''" by auto
  show ?thesis
  proof (cases "event_message_id e")
    case None
    with u r show ?thesis
      using totals_le_add [OF totals_le_refl normalizeUsage_nonneg, of "unidentified t" u]
      by (simp add: note_usage_def totals_eq totals_le_add)
  next
    case (Some mid)
    with u r show ?thesis
      by (auto simp: note_usage_def totals_eq Let_def intro!: totals_le_add message_sum_update_mono
          intro: totals_le_max1 totals_le_max2 normalizeUsage_nonneg split: option.splits)
  qed
qed

lemma totals_meta [simp]:
  "totals (note_cost e t) = totals t" "totals (note_model e t) = totals t" "totals (note_session e t) = totals t"
  by (simp_all add: totals_eq)

lemma tally_event_mono:
  "totals_le (totals t) (totals (tally_event e t)) \<and> reportedCostUsd t \<le> reportedCostUsd (tally_event e t)"
  using note_usage_mono [of "note_cost e (note_model e (note_session e t))" e]
    note_cost_mono [of "note_model e (note_session e t)" e]
  by (simp add: tally_event_def)

lemma tally_line_mono:
  "totals_le (totals t) (totals (tally_observeLine parse line t))
   \<and> reportedCostUsd t \<le> reportedCostUsd (tally_observeLine parse line t)"
  by (simp add: tally_observeLine_def tally_event_mono split: option.splits)

text \<open>
  The meter only runs forward. Whatever lines an agent streams, no token total and no
  reported cost ever decreases.
\<close>

theorem tally_is_monotone:
  "totals_le (totals t) (totals (fold (tally_observeLine parse) lines t))
   \<and> reportedCostUsd t \<le> reportedCostUsd (fold (tally_observeLine parse) lines t)"
proof (induction lines arbitrary: t)
  case Nil
  then show ?case by simp
next
  case (Cons line lines)
  from Cons.IH [of "tally_observeLine parse line t"] tally_line_mono [of t parse line] show ?case
    by (auto intro: totals_le_trans order_trans)
qed

lemma map_of_note_usage:
  "map_of (tally_messages (note_usage e t)) k =
     (if js_get e ''type'' \<noteq> JStr ''result'' \<and> event_message_id e = Some k then
        (case event_usage e of None \<Rightarrow> map_of (tally_messages t) k
         | Some u \<Rightarrow> Some (case map_of (tally_messages t) k of
             Some p \<Rightarrow> max_totals p (normalizeUsage u) | None \<Rightarrow> normalizeUsage u))
      else map_of (tally_messages t) k)"
  by (auto simp: note_usage_def Let_def AList.update_conv' split: option.splits)

lemma update_same [simp]: "map_of al k = Some v \<Longrightarrow> AList.update k v al = al"
  by (induction al) auto

lemma note_usage_meta [simp]:
  "tally_sessionId (note_usage e t) = tally_sessionId t" "tally_model (note_usage e t) = tally_model t"
  "tally_model (note_cost e t) = tally_model t"
  by (simp_all add: note_usage_def note_cost_def Let_def split: option.splits)

lemma note_session_again: "tally_sessionId s = tally_sessionId (note_session e t) \<Longrightarrow> note_session e s = s"
  by (simp add: note_session_def split: option.splits)

lemma note_model_again: "tally_model s = tally_model (note_model e t) \<Longrightarrow> note_model e s = s"
  by (auto simp: note_model_def Let_def split: option.splits if_splits jsval.splits
      elim!: nonempty_string.elims)

lemma note_cost_again: "reportedCostUsd s = reportedCostUsd (note_cost e t) \<Longrightarrow> note_cost e s = s"
  by (simp add: note_cost_def Let_def)

lemma tally_event_again:
  assumes "event_message_id e \<noteq> None"
  shows "tally_event e (tally_event e t) = tally_event e t"
proof -
  let ?m = "\<lambda>t. note_cost e (note_model e (note_session e t))"
  let ?s = "note_usage e (?m t)"
  have "note_session e ?s = ?s" by (rule note_session_again [of _ e t]) simp
  moreover have "note_model e ?s = ?s" by (rule note_model_again [of _ e "note_session e t"]) simp
  moreover have "note_cost e ?s = ?s"
    by (rule note_cost_again [of _ e "note_model e (note_session e t)"]) simp
  ultimately have meta: "?m ?s = ?s" by simp
  obtain k where k: "event_message_id e = Some k" using assms by auto
  have "note_usage e (note_usage e s) = note_usage e s" for s
  proof (cases "js_get e ''type'' = JStr ''result''")
    case False
    show ?thesis
    proof (cases "event_usage e")
      case (Some u)
      have "map_of (tally_messages (note_usage e s)) k
          = Some (case map_of (tally_messages s) k of
              Some p \<Rightarrow> max_totals p (normalizeUsage u) | None \<Rightarrow> normalizeUsage u)"
        using False Some k by (simp add: map_of_note_usage)
      then show ?thesis
        using False Some k
        by (cases "map_of (tally_messages s) k") (simp_all add: note_usage_def [of e "note_usage e s"] Let_def)
    qed (simp add: note_usage_def)
  qed (simp add: note_usage_def)
  with meta show ?thesis by (simp add: tally_event_def)
qed

text \<open>
  A streamed message that repeats its usage is counted once. Observing a line of an
  identified message again changes nothing.
\<close>

theorem repeated_message_counted_once:
  assumes "parse line = Some (JObj event)" and "event_message_id event \<noteq> None"
  shows "tally_observeLine parse line (tally_observeLine parse line t) = tally_observeLine parse line t"
  using assms by (simp add: tally_observeLine_def tally_event_again)

definition sample_usage_line :: "string \<Rightarrow> jsval option" where
  "sample_usage_line line = Some (JObj [(''message'', JObj [(''id'', JStr ''m1''),
     (''usage'', JObj [(''input_tokens'', JNum (Fin 7)), (''output_tokens'', JNum (Fin 2))])])])"

theorem repeated_message_counted_once_witness:
  "tally_observeLine sample_usage_line ''usage''
     (tally_observeLine sample_usage_line ''usage'' (new_tally None))
   = tally_observeLine sample_usage_line ''usage'' (new_tally None)
   \<and> inputTokens (totals (tally_observeLine sample_usage_line ''usage'' (new_tally None))) = 7"
proof
  show "tally_observeLine sample_usage_line ''usage''
     (tally_observeLine sample_usage_line ''usage'' (new_tally None))
   = tally_observeLine sample_usage_line ''usage'' (new_tally None)"
    by (rule repeated_message_counted_once [OF sample_usage_line_def])
      (simp add: event_message_id_def event_message_def js_get_def)
  show "inputTokens (totals (tally_observeLine sample_usage_line ''usage'' (new_tally None))) = 7"
    by code_simp
qed

end
