(* ===== verification/Cost_Guard.thy ===== *)
theory Cost_Guard
  imports Cost_Cap Usage_Tally
begin

section \<open>The run cost guard\<close>

text \<open>
  The model of \<^verbatim>\<open>packages/core/src/budget/runCostGuard.ts\<close> (class \<open>RunCostGuard\<close>) and of
  \<open>runCostCapTerminalReason\<close> in \<^verbatim>\<open>runCostGuardContext.ts\<close>. The object is a record. Its
  callbacks are the logs \<open>stopCalls\<close>, \<open>exceededCalls\<close> and \<open>capResolvedCalls\<close>; the pricer and
  the default model are the record \<open>guard_options\<close>; what \<open>readRecordedSpend\<close> resolves to is an
  argument of each operation that awaits it, \<open>Inl\<close> of the error when it rejects. Each method is one atomic
  step. The check that \<open>beginExecution\<close> and the interval timer start in the background is
  the separate step \<open>check_spend\<close>, which a run may take at any time.
\<close>

record RecordedSpend =
  totalUsd :: rat
  bySessionUsd :: "(string \<times> rat) list option"

definition NO_RECORDED_SPEND :: RecordedSpend where
  "NO_RECORDED_SPEND = \<lparr>totalUsd = 0, bySessionUsd = None\<rparr>"

definition normalizeRecordedSpend :: "jsval \<Rightarrow> RecordedSpend" where
  "normalizeRecordedSpend value =
     (case value of
        JNum n \<Rightarrow> \<lparr>totalUsd = token_count (JNum n), bySessionUsd = None\<rparr>
      | JObj r \<Rightarrow>
          \<lparr>totalUsd = token_count (js_get r ''totalUsd''),
           bySessionUsd = (case js_get r ''bySessionUsd'' of
              JObj sessions \<Rightarrow> Some (map (\<lambda>(s, amount). (s, token_count amount)) sessions)
            | _ \<Rightarrow> None)\<rparr>
      | _ \<Rightarrow> NO_RECORDED_SPEND)"

record RunCostSnapshot =
  snap_cap :: RunCostCap
  spentUsd :: rat
  snap_priorSpentUsd :: rat
  remainingUsd :: rat
  percent :: rat

type_synonym LiveExecution = "nat \<times> RunUsageTally"

record FinishedExecution =
  fin_id :: nat
  fin_tally :: RunUsageTally
  recordedAtFinish :: RecordedSpend

record guard_options =
  defaultModel :: "string option"
  priceUsage :: "string \<Rightarrow> RunTokenTotals \<Rightarrow> rat option"

record guard =
  g_taskId :: string
  g_inputs :: RunCostCapInputs
  resolvedCap :: "RunCostCap option"
  live :: "LiveExecution list"
  finished :: "FinishedExecution list"
  priorSpentUsd :: rat
  lastRecorded :: RecordedSpend
  triggered :: bool
  timer :: bool
  exceededSnapshot :: "RunCostSnapshot option"
  stopMessage :: "string option"
  publishedCap :: bool
  nextId :: nat
  finishResults :: "(nat \<times> string option) list"
  stopCalls :: "(nat \<times> string) list"
  exceededCalls :: "RunCostSnapshot list"
  capResolvedCalls :: "RunCostCap option list"

definition new_guard :: "string \<Rightarrow> RunCostCapInputs \<Rightarrow> guard" where
  "new_guard tid inputs =
     \<lparr>g_taskId = tid, g_inputs = inputs, resolvedCap = resolveRunCostCap inputs, live = [], finished = [],
      priorSpentUsd = 0, lastRecorded = NO_RECORDED_SPEND, triggered = False, timer = False,
      exceededSnapshot = None, stopMessage = None, publishedCap = False, nextId = 0, finishResults = [],
      stopCalls = [], exceededCalls = [], capResolvedCalls = []\<rparr>"

subsection \<open>Spend of finished executions that is not recorded yet\<close>

definition session_of :: "RunUsageTally \<Rightarrow> string option" where
  "session_of t = (case tally_sessionId t of None \<Rightarrow> None | Some s \<Rightarrow> (if s = [] then None else Some s))"

definition matched_sessions :: "RecordedSpend \<Rightarrow> FinishedExecution list \<Rightarrow> string list" where
  "matched_sessions recorded fin =
     (if bySessionUsd recorded = None then []
      else js_unique (List.map_filter (\<lambda>e. session_of (fin_tally e)) fin))"

definition keyOf :: "string list \<Rightarrow> FinishedExecution \<Rightarrow> string option" where
  "keyOf matched e =
     (case session_of (fin_tally e) of None \<Rightarrow> None | Some s \<Rightarrow> (if s \<in> set matched then Some s else None))"

definition session_amount :: "RecordedSpend \<Rightarrow> string \<Rightarrow> rat" where
  "session_amount spend s =
     (case bySessionUsd spend of
        None \<Rightarrow> 0
      | Some m \<Rightarrow> (case map_of m s of None \<Rightarrow> 0 | Some a \<Rightarrow> a))"

definition amount :: "string list \<Rightarrow> RecordedSpend \<Rightarrow> string option \<Rightarrow> rat" where
  "amount matched spend key =
     (case key of
        Some s \<Rightarrow> session_amount spend s
      | None \<Rightarrow> totalUsd spend - sum_list (map (session_amount spend) matched))"

definition growth :: "string list \<Rightarrow> RecordedSpend \<Rightarrow> FinishedExecution \<Rightarrow> rat" where
  "growth matched recorded e =
     max 0 (amount matched recorded (keyOf matched e) - amount matched (recordedAtFinish e) (keyOf matched e))"

fun available_growth ::
  "string list \<Rightarrow> RecordedSpend \<Rightarrow> FinishedExecution list \<Rightarrow> (string option \<Rightarrow> rat) \<Rightarrow> string option \<Rightarrow> rat" where
  "available_growth matched recorded [] available = available"
| "available_growth matched recorded (e # es) available =
     available_growth matched recorded es
       (available(keyOf matched e := max (available (keyOf matched e)) (growth matched recorded e)))"

text \<open>The second loop: what each finished execution's observed usage is covered by.\<close>

fun covered_loop ::
  "string list \<Rightarrow> RecordedSpend \<Rightarrow> FinishedExecution list \<Rightarrow> rat list \<Rightarrow> (string option \<Rightarrow> rat) \<Rightarrow> rat list" where
  "covered_loop matched recorded (e # es) (obs # observed) available =
     (let key = keyOf matched e;
          covered = min obs (min (growth matched recorded e) (available key))
      in covered # covered_loop matched recorded es observed (available(key := available key - covered)))"
| "covered_loop matched recorded _ _ available = []"

definition covered_amounts :: "RecordedSpend \<Rightarrow> FinishedExecution list \<Rightarrow> rat list \<Rightarrow> rat list" where
  "covered_amounts recorded fin observed =
     (let matched = matched_sessions recorded fin
      in covered_loop matched recorded fin observed (available_growth matched recorded fin (\<lambda>_. 0)))"

definition unrecordedUsd :: "RecordedSpend \<Rightarrow> FinishedExecution list \<Rightarrow> rat list \<Rightarrow> rat" where
  "unrecordedUsd recorded fin observed =
     sum_list (map2 (\<lambda>obs covered. obs - covered) observed (covered_amounts recorded fin observed))"

subsection \<open>Pricing and snapshots\<close>

definition cost :: "guard_options \<Rightarrow> RunUsageTally \<Rightarrow> rat" where
  "cost opts t =
     (let model = (case tally_model t of Some m \<Rightarrow> Some m | None \<Rightarrow> defaultModel opts);
          priced = (case model of
                      None \<Rightarrow> 0
                    | Some m \<Rightarrow> (if m = [] then 0
                                else case priceUsage opts m (totals t) of None \<Rightarrow> 0 | Some p \<Rightarrow> p))
      in max priced (reportedCostUsd t))"

definition estimate :: "guard_options \<Rightarrow> RecordedSpend \<Rightarrow> guard \<Rightarrow> rat" where
  "estimate opts recorded g =
     totalUsd recorded + sum_list (map (cost opts \<circ> snd) (live g))
     + unrecordedUsd recorded (finished g) (map (cost opts \<circ> fin_tally) (finished g))"

definition snapshot :: "guard_options \<Rightarrow> RunCostCap \<Rightarrow> RecordedSpend \<Rightarrow> guard \<Rightarrow> RunCostSnapshot" where
  "snapshot opts cap recorded g =
     (let spent = estimate opts recorded g
      in \<lparr>snap_cap = cap, spentUsd = spent, snap_priorSpentUsd = priorSpentUsd g,
          remainingUsd = remainingRunBudget (capUsd cap) spent,
          percent = (if capUsd cap > 0 then spent / capUsd cap * 100 else 0)\<rparr>)"

definition readRecordedStrict :: "jsval result \<Rightarrow> guard \<Rightarrow> (RecordedSpend \<times> guard) result" where
  "readRecordedStrict read g =
     (case read of
        Inl e \<Rightarrow> Throw e
      | Inr v \<Rightarrow> (let r = normalizeRecordedSpend v in Return (r, g\<lparr>lastRecorded := r\<rparr>)))"

definition readRecorded :: "jsval result \<Rightarrow> RecordedSpend \<Rightarrow> guard \<Rightarrow> RecordedSpend \<times> guard" where
  "readRecorded read fallback g =
     (case readRecordedStrict read g of Inl e \<Rightarrow> (fallback, g) | Inr rg \<Rightarrow> rg)"

text \<open>
  \<open>evaluate\<close> after its read. Taking the snapshot awaits the pricer, so the state may change before the
  verdict is acted on; \<open>evaluate_commit\<close> is what runs after that await, on the state found then: stop every
  live execution once when the spend of the snapshot reaches the cap.
\<close>

definition evaluate_commit :: "RunCostSnapshot \<Rightarrow> guard \<Rightarrow> guard" where
  "evaluate_commit snap g =
     (if triggered g \<or> spentUsd snap < capUsd (snap_cap snap) then g
      else let message = runCostCapStopMessage (snap_cap snap) (spentUsd snap)
           in g\<lparr>triggered := True, exceededSnapshot := Some snap, timer := False,
                stopMessage := Some message,
                stopCalls := stopCalls g @ map (\<lambda>e. (fst e, message)) (live g),
                exceededCalls := exceededCalls g @ [snap]\<rparr>)"

definition evaluate :: "guard_options \<Rightarrow> RecordedSpend \<Rightarrow> guard \<Rightarrow> guard" where
  "evaluate opts recorded g =
     (case resolvedCap g of
        None \<Rightarrow> g
      | Some cap \<Rightarrow>
          (if triggered g then g else evaluate_commit (snapshot opts cap recorded g) g))"

definition check_spend :: "guard_options \<Rightarrow> jsval result \<Rightarrow> guard \<Rightarrow> guard" where
  "check_spend opts read g =
     (if triggered g \<or> resolvedCap g = None then g
      else let (recorded, g') = readRecorded read (lastRecorded g) g in evaluate opts recorded g')"

subsection \<open>The public operations\<close>

definition publishCap :: "bool \<Rightarrow> guard \<Rightarrow> guard" where
  "publishCap reconcile g =
     (if \<not> reconcile \<and> resolvedCap g = None \<and> \<not> publishedCap g then g
      else g\<lparr>publishedCap := (resolvedCap g \<noteq> None), capResolvedCalls := capResolvedCalls g @ [resolvedCap g]\<rparr>)"

definition start_guard ::
  "jsval result \<Rightarrow> guard \<Rightarrow> (RunCostCap option \<times> rat \<times> rat option) result \<times> guard" where
  "start_guard read g =
     (let after = (\<lambda>(recorded, g1).
            let g2 = publishCap True (g1\<lparr>priorSpentUsd := totalUsd recorded\<rparr>);
                remaining = (case resolvedCap g2 of None \<Rightarrow> None
                             | Some cap \<Rightarrow> Some (remainingRunBudget (capUsd cap) (priorSpentUsd g2)))
            in (Return (resolvedCap g2, priorSpentUsd g2, remaining), g2))
      in if resolvedCap g \<noteq> None
         then (case readRecordedStrict read g of
                 Inl e \<Rightarrow> (Throw e, g)
               | Inr rg \<Rightarrow> after rg)
         else after (readRecorded read NO_RECORDED_SPEND g))"

definition setWorkflowCap :: "jsval \<Rightarrow> guard \<Rightarrow> guard" where
  "setWorkflowCap value g =
     (if in_workflow (g_inputs g) = value then g
      else let inputs = (g_inputs g)\<lparr>in_workflow := value\<rparr>;
               g1 = g\<lparr>g_inputs := inputs\<rparr>;
               next = resolveRunCostCap inputs
           in if next = resolvedCap g then g1 else publishCap False (g1\<lparr>resolvedCap := next\<rparr>))"

definition refuseIfExceeded :: "guard \<Rightarrow> unit result" where
  "refuseIfExceeded g =
     (if triggered g
      then Throw (case stopMessage g of Some m \<Rightarrow> m | None \<Rightarrow> ''Run spend cap exceeded'')
      else Return ())"

definition admit :: "guard_options \<Rightarrow> jsval result \<Rightarrow> guard \<Rightarrow> unit result \<times> guard" where
  "admit opts read g =
     (if \<not> triggered g \<and> resolvedCap g \<noteq> None
      then case readRecordedStrict read g of
             Inl e \<Rightarrow> (Throw e, g)
           | Inr (recorded, g1) \<Rightarrow> (let g2 = evaluate opts recorded g1 in (refuseIfExceeded g2, g2))
      else (refuseIfExceeded g, g))"

text \<open>Returns the handle of the registered execution, \<open>None\<close> when nothing is enforced.\<close>

definition beginExecution :: "string option \<Rightarrow> guard \<Rightarrow> nat option result \<times> guard" where
  "beginExecution model g =
     (case refuseIfExceeded g of
        Inl e \<Rightarrow> (Throw e, g)
      | Inr _ \<Rightarrow>
          (if resolvedCap g = None then (Return None, g)
           else (Return (Some (nextId g)),
                 g\<lparr>live := live g @ [(nextId g, new_tally model)], nextId := nextId g + 1, timer := True\<rparr>)))"

text \<open>The \<open>observeLine\<close> of a handle; after the execution moved, its tally is updated there.\<close>

definition observe_execution :: "(string \<Rightarrow> jsval option) \<Rightarrow> nat \<Rightarrow> string \<Rightarrow> guard \<Rightarrow> guard" where
  "observe_execution parse i line g =
     g\<lparr>live := map (\<lambda>(j, t). (j, if j = i then tally_observeLine parse line t else t)) (live g),
       finished := map (\<lambda>e. if fin_id e = i then e\<lparr>fin_tally := tally_observeLine parse line (fin_tally e)\<rparr> else e)
                       (finished g)\<rparr>"

definition finishExecution ::
  "guard_options \<Rightarrow> nat \<Rightarrow> jsval result \<Rightarrow> jsval result \<Rightarrow> guard \<Rightarrow> string option \<times> guard" where
  "finishExecution opts i read read' g =
     (let (recorded, g1) = readRecorded read (lastRecorded g) g;
          g2 = (case map_of (live g1) i of
                  None \<Rightarrow> g1
                | Some t \<Rightarrow> g1\<lparr>live := filter (\<lambda>e. fst e \<noteq> i) (live g1),
                               finished := finished g1 @ [\<lparr>fin_id = i, fin_tally = t, recordedAtFinish = recorded\<rparr>]\<rparr>);
          g3 = (if live g2 = [] then g2\<lparr>timer := False\<rparr> else g2);
          g4 = check_spend opts read' g3
      in (if triggered g4 then stopMessage g4 else None, g4))"

text \<open>The \<open>finish\<close> of a handle runs \<open>finishExecution\<close> once and remembers its result.\<close>

definition finish_handle ::
  "guard_options \<Rightarrow> nat \<Rightarrow> jsval result \<Rightarrow> jsval result \<Rightarrow> guard \<Rightarrow> string option \<times> guard" where
  "finish_handle opts i read read' g =
     (case map_of (finishResults g) i of
        Some r \<Rightarrow> (r, g)
      | None \<Rightarrow> (let (r, g') = finishExecution opts i read read' g
                 in (r, g'\<lparr>finishResults := (i, r) # finishResults g'\<rparr>)))"

definition close_guard :: "guard \<Rightarrow> guard" where
  "close_guard g = g\<lparr>timer := False, live := []\<rparr>"

definition runCostCapTerminalReason ::
  "guard option \<Rightarrow> string \<Rightarrow> string \<Rightarrow> AgentTerminalReason option" where
  "runCostCapTerminalReason active tid newState =
     (if newState \<noteq> ''completed'' \<and> newState \<noteq> ''failed'' then None
      else case active of
             None \<Rightarrow> None
           | Some g \<Rightarrow> (if g_taskId g = tid \<and> triggered g then Some Cost_cap_exceeded else None))"

subsection \<open>Runs of the guard\<close>

datatype guard_op =
    G_start "jsval result"
  | G_workflow jsval
  | G_admit "jsval result"
  | G_begin "string option"
  | G_observe nat string
  | G_finish nat "jsval result" "jsval result"
  | G_check "jsval result"
  | G_commit RunCostSnapshot
  | G_close

fun guard_step :: "guard_options \<Rightarrow> (string \<Rightarrow> jsval option) \<Rightarrow> guard_op \<Rightarrow> guard \<Rightarrow> guard" where
  "guard_step opts parse (G_start read) g = snd (start_guard read g)"
| "guard_step opts parse (G_workflow v) g = setWorkflowCap v g"
| "guard_step opts parse (G_admit read) g = snd (admit opts read g)"
| "guard_step opts parse (G_begin model) g = snd (beginExecution model g)"
| "guard_step opts parse (G_observe i line) g = observe_execution parse i line g"
| "guard_step opts parse (G_finish i read read') g = snd (finish_handle opts i read read' g)"
| "guard_step opts parse (G_check read) g = check_spend opts read g"
| "guard_step opts parse (G_commit snap) g = evaluate_commit snap g"
| "guard_step opts parse G_close g = close_guard g"

definition guard_run :: "guard_options \<Rightarrow> (string \<Rightarrow> jsval option) \<Rightarrow> guard_op list \<Rightarrow> guard \<Rightarrow> guard" where
  "guard_run opts parse ops g = fold (guard_step opts parse) ops g"

subsection \<open>The invariant of the guard\<close>

definition guard_inv :: "guard \<Rightarrow> bool" where
  "guard_inv g \<longleftrightarrow>
     exceededCalls g = (case exceededSnapshot g of None \<Rightarrow> [] | Some s \<Rightarrow> [s])
   \<and> (triggered g \<longleftrightarrow> exceededSnapshot g \<noteq> None) \<and> (triggered g \<longleftrightarrow> stopMessage g \<noteq> None)
   \<and> (\<forall>s. exceededSnapshot g = Some s \<longrightarrow> capUsd (snap_cap s) \<le> spentUsd s)
   \<and> distinct (map fst (live g)) \<and> (\<forall>i \<in> al_keys (live g). i < nextId g)
   \<and> distinct (map fst (stopCalls g)) \<and> (\<not> triggered g \<longrightarrow> stopCalls g = [])"

text \<open>Later states keep the verdict, and a stopped run starts nothing new.\<close>

definition guard_le :: "guard \<Rightarrow> guard \<Rightarrow> bool" where
  "guard_le g g' \<longleftrightarrow>
     (triggered g \<longrightarrow> triggered g' \<and> exceededSnapshot g' = exceededSnapshot g \<and> stopMessage g' = stopMessage g
        \<and> stopCalls g' = stopCalls g \<and> nextId g' = nextId g \<and> al_keys (live g') \<subseteq> al_keys (live g))"

lemma new_guard_inv [simp]: "guard_inv (new_guard tid inputs)"
  by (simp add: guard_inv_def new_guard_def)

lemma guard_le_refl [simp]: "guard_le g g"
  by (simp add: guard_le_def)

lemma guard_le_trans: "guard_le f g \<Longrightarrow> guard_le g h \<Longrightarrow> guard_le f h"
  unfolding guard_le_def by (elim impCE conjE) (simp_all, blast+)

lemma evaluate_commit_inv: "guard_inv g \<Longrightarrow> guard_inv (evaluate_commit snap g)"
  by (auto simp: guard_inv_def evaluate_commit_def Let_def comp_def split: option.splits)

lemma evaluate_commit_le: "guard_le g (evaluate_commit snap g)"
  by (auto simp: guard_le_def evaluate_commit_def Let_def)

lemma evaluate_inv: "guard_inv g \<Longrightarrow> guard_inv (evaluate opts r g)"
  by (auto simp: evaluate_def evaluate_commit_inv split: option.splits)

lemma evaluate_le: "guard_le g (evaluate opts r g)"
  by (auto simp: evaluate_def evaluate_commit_le split: option.splits)

lemma guard_inv_bookkeeping [simp]:
  "guard_inv (g\<lparr>lastRecorded := r\<rparr>) = guard_inv g" "guard_inv (g\<lparr>priorSpentUsd := p\<rparr>) = guard_inv g"
  "guard_inv (g\<lparr>timer := b\<rparr>) = guard_inv g" "guard_inv (g\<lparr>g_inputs := i\<rparr>) = guard_inv g"
  "guard_inv (g\<lparr>resolvedCap := c\<rparr>) = guard_inv g" "guard_inv (g\<lparr>finishResults := fr\<rparr>) = guard_inv g"
  "guard_inv (g\<lparr>publishedCap := b, capResolvedCalls := cs\<rparr>) = guard_inv g"
  by (simp_all add: guard_inv_def)

lemma guard_le_bookkeeping [simp]:
  "guard_le h (g\<lparr>lastRecorded := r\<rparr>) = guard_le h g" "guard_le h (g\<lparr>priorSpentUsd := p\<rparr>) = guard_le h g"
  "guard_le h (g\<lparr>timer := b\<rparr>) = guard_le h g" "guard_le h (g\<lparr>g_inputs := i\<rparr>) = guard_le h g"
  "guard_le h (g\<lparr>resolvedCap := c\<rparr>) = guard_le h g" "guard_le h (g\<lparr>finishResults := fr\<rparr>) = guard_le h g"
  "guard_le h (g\<lparr>publishedCap := b, capResolvedCalls := cs\<rparr>) = guard_le h g"
  by (simp_all add: guard_le_def)

lemma publishCap_inv [simp]: "guard_inv (publishCap b g) = guard_inv g"
  by (simp add: publishCap_def)

lemma publishCap_le [simp]: "guard_le h (publishCap b g) = guard_le h g"
  by (simp add: publishCap_def)

lemma readRecorded_bookkeeping:
  "readRecorded read fb g = (r, g') \<Longrightarrow> g' = g \<or> g' = g\<lparr>lastRecorded := r\<rparr>"
  by (auto simp: readRecorded_def readRecordedStrict_def Let_def split: sum.splits)

lemma readRecorded_inv:
  "readRecorded read fb g = (r, g') \<Longrightarrow> guard_inv g' = guard_inv g"
  "readRecorded read fb g = (r, g') \<Longrightarrow> guard_le h g' = guard_le h g"
  "readRecorded read fb g = (r, g') \<Longrightarrow> live g' = live g"
  using readRecorded_bookkeeping by force+

lemma check_spend_inv: "guard_inv g \<Longrightarrow> guard_inv (check_spend opts read g)"
  by (auto simp: check_spend_def readRecorded_inv evaluate_inv split: prod.splits)

lemma check_spend_le: "guard_le g (check_spend opts read g)"
  by (auto simp: check_spend_def readRecorded_inv split: prod.splits
      intro: guard_le_trans [OF _ evaluate_le])

lemma start_guard_inv: "guard_inv g \<Longrightarrow> guard_inv (snd (start_guard read g))"
  by (auto simp: start_guard_def readRecorded_def readRecordedStrict_def Let_def split: sum.splits)

lemma start_guard_le: "guard_le g (snd (start_guard read g))"
  by (auto simp: start_guard_def readRecorded_def readRecordedStrict_def Let_def split: sum.splits)

lemma setWorkflowCap_inv: "guard_inv g \<Longrightarrow> guard_inv (setWorkflowCap v g)"
  by (simp add: setWorkflowCap_def Let_def)

lemma setWorkflowCap_le: "guard_le g (setWorkflowCap v g)"
  by (simp add: setWorkflowCap_def Let_def)

lemma admit_inv: "guard_inv g \<Longrightarrow> guard_inv (snd (admit opts read g))"
  by (auto simp: admit_def readRecordedStrict_def Let_def evaluate_inv split: sum.splits)

lemma admit_le: "guard_le g (snd (admit opts read g))"
  by (auto simp: admit_def readRecordedStrict_def Let_def intro: guard_le_trans [OF _ evaluate_le]
      split: sum.splits)

lemma beginExecution_inv: "guard_inv g \<Longrightarrow> guard_inv (snd (beginExecution m g))"
  by (auto simp: beginExecution_def refuseIfExceeded_def guard_inv_def less_SucI split: sum.splits option.splits)

lemma beginExecution_le: "guard_le g (snd (beginExecution m g))"
  by (auto simp: beginExecution_def refuseIfExceeded_def guard_le_def)

lemma observe_keys [simp]: "map fst (live (observe_execution parse i line g)) = map fst (live g)"
  by (simp add: observe_execution_def comp_def case_prod_unfold)

lemma observe_key_set: "al_keys (live (observe_execution parse i line g)) = al_keys (live g)"
  using observe_keys [of parse i line g] by (metis set_map)

lemma observe_inv: "guard_inv g \<Longrightarrow> guard_inv (observe_execution parse i line g)"
  unfolding guard_inv_def observe_keys observe_key_set by (auto simp: observe_execution_def)

lemma observe_le: "guard_le g (observe_execution parse i line g)"
  unfolding guard_le_def observe_key_set by (simp add: observe_execution_def)

lemma finishExecution_inv: "guard_inv g \<Longrightarrow> guard_inv (snd (finishExecution opts i read read' g))"
proof -
  assume g: "guard_inv g"
  obtain r g1 where r: "readRecorded read (lastRecorded g) g = (r, g1)" by fastforce
  with g have g1: "guard_inv g1" by (simp add: readRecorded_inv)
  define g2 where "g2 = (case map_of (live g1) i of None \<Rightarrow> g1
    | Some t \<Rightarrow> g1\<lparr>live := filter (\<lambda>e. fst e \<noteq> i) (live g1),
        finished := finished g1 @ [\<lparr>fin_id = i, fin_tally = t, recordedAtFinish = r\<rparr>]\<rparr>)"
  from g1 have g2: "guard_inv g2"
    by (auto simp: g2_def guard_inv_def distinct_map_filter split: option.splits)
  have "snd (finishExecution opts i read read' g)
      = check_spend opts read' (if live g2 = [] then g2\<lparr>timer := False\<rparr> else g2)"
    by (simp add: finishExecution_def r g2_def Let_def)
  with g2 show ?thesis by (simp add: check_spend_inv)
qed

lemma finishExecution_le: "guard_le g (snd (finishExecution opts i read read' g))"
proof -
  obtain r g1 where r: "readRecorded read (lastRecorded g) g = (r, g1)" by fastforce
  then have g1: "guard_le g g1" by (simp add: readRecorded_inv)
  define g2 where "g2 = (case map_of (live g1) i of None \<Rightarrow> g1
    | Some t \<Rightarrow> g1\<lparr>live := filter (\<lambda>e. fst e \<noteq> i) (live g1),
        finished := finished g1 @ [\<lparr>fin_id = i, fin_tally = t, recordedAtFinish = r\<rparr>]\<rparr>)"
  from g1 have "guard_le g g2"
    by (auto simp: g2_def guard_le_def split: option.splits)
  moreover have "snd (finishExecution opts i read read' g)
      = check_spend opts read' (if live g2 = [] then g2\<lparr>timer := False\<rparr> else g2)"
    by (simp add: finishExecution_def r g2_def Let_def)
  ultimately show ?thesis by (auto intro: guard_le_trans [OF _ check_spend_le])
qed

lemma finish_handle_inv: "guard_inv g \<Longrightarrow> guard_inv (snd (finish_handle opts i read read' g))"
  using finishExecution_inv [of g opts i read read']
  by (auto simp: finish_handle_def split: option.splits prod.splits)

lemma finish_handle_le: "guard_le g (snd (finish_handle opts i read read' g))"
  using finishExecution_le [of g opts i read read']
  by (auto simp: finish_handle_def split: option.splits prod.splits)

lemma close_guard_inv: "guard_inv g \<Longrightarrow> guard_inv (close_guard g)"
  by (auto simp: close_guard_def guard_inv_def)

lemma close_guard_le: "guard_le g (close_guard g)"
  by (simp add: close_guard_def guard_le_def)

lemmas guard_ops_inv = start_guard_inv setWorkflowCap_inv admit_inv beginExecution_inv observe_inv
  finish_handle_inv check_spend_inv evaluate_commit_inv close_guard_inv
lemmas guard_ops_le = start_guard_le setWorkflowCap_le admit_le beginExecution_le observe_le
  finish_handle_le check_spend_le evaluate_commit_le close_guard_le

lemma guard_step_inv: "guard_inv g \<Longrightarrow> guard_inv (guard_step opts parse e g)"
  by (cases e) (simp_all add: guard_ops_inv)

lemma guard_step_le: "guard_le g (guard_step opts parse e g)"
  by (cases e) (simp_all add: guard_ops_le)

interpretation guard_runs: monotone_machine "guard_step opts parse" guard_inv guard_le
  by unfold_locales (auto intro: guard_step_inv guard_step_le guard_le_trans)

lemma guard_run_inv: "guard_inv g \<Longrightarrow> guard_inv (guard_run opts parse ops g)"
  unfolding guard_run_def by (rule guard_runs.run_inv)

lemma guard_run_le: "guard_inv g \<Longrightarrow> guard_le g (guard_run opts parse ops g)"
  unfolding guard_run_def by (rule guard_runs.run_le)

subsection \<open>Arithmetic of the unrecorded spend\<close>

lemma growth_nonneg [simp]: "0 \<le> growth m r e"
  by (simp add: growth_def)

lemma available_growth_mono: "a key \<le> available_growth m r es a key"
  by (induction es arbitrary: a) (fastforce intro: order_trans [rotated] split: if_splits)+

lemma available_growth_le:
  assumes "a key \<le> b" "\<forall>e \<in> set es. keyOf m e = key \<longrightarrow> growth m r e \<le> b"
  shows "available_growth m r es a key \<le> b"
  using assms
proof (induction es arbitrary: a)
  case (Cons e es)
  define a' where "a' = a(keyOf m e := max (a (keyOf m e)) (growth m r e))"
  from Cons.prems have "a' key \<le> b" by (auto simp: a'_def)
  with Cons.IH [of a'] Cons.prems show ?case by (simp flip: a'_def)
qed simp

lemma covered_loop_bounds:
  assumes "length obs = length es" "\<forall>x \<in> set obs. 0 \<le> x" "\<forall>key. 0 \<le> a key"
  shows "length (covered_loop m r es obs a) = length es
       \<and> list_all2 (\<lambda>c x. 0 \<le> c \<and> c \<le> x) (covered_loop m r es obs a) obs"
  using assms
proof (induction m r es obs a rule: covered_loop.induct)
  case (1 m r e es x obs a)
  define c a' where "c = min x (min (growth m r e) (a (keyOf m e)))"
    and "a' = a(keyOf m e := a (keyOf m e) - c)"
  have pos: "\<forall>key. 0 \<le> a' key" "0 \<le> c" "c \<le> x"
    using "1.prems" by (auto simp: c_def a'_def)
  have "covered_loop m r (e # es) (x # obs) a = c # covered_loop m r es obs a'"
    by (simp add: Let_def c_def a'_def)
  moreover note "1.IH" [OF refl refl, folded c_def, folded a'_def]
  ultimately show ?case using "1.prems" pos by simp
qed auto

text \<open>What the executions of one key are covered by together never exceeds what is available for the key.\<close>

lemma covered_loop_shared:
  assumes "length obs = length es" "\<forall>key. 0 \<le> a key" "\<forall>x \<in> set obs. 0 \<le> x"
  shows "sum_list (map snd (filter (\<lambda>(e, c). keyOf m e = key) (zip es (covered_loop m r es obs a)))) \<le> a key"
  using assms
proof (induction m r es obs a rule: covered_loop.induct)
  case (1 m r e es x obs a)
  define c a' where "c = min x (min (growth m r e) (a (keyOf m e)))"
    and "a' = a(keyOf m e := a (keyOf m e) - c)"
  have pos: "\<forall>key. 0 \<le> a' key" "0 \<le> c" "c \<le> x"
    using "1.prems" by (auto simp: c_def a'_def)
  have "covered_loop m r (e # es) (x # obs) a = c # covered_loop m r es obs a'"
    by (simp add: Let_def c_def a'_def)
  moreover note "1.IH" [OF refl refl, folded c_def, folded a'_def]
  moreover have "a' key = (if key = keyOf m e then a key - c else a key)" by (simp add: a'_def)
  ultimately show ?case using "1.prems" pos by (simp split: if_splits)
qed auto

lemma sum_uncovered_bounds:
  assumes "list_all2 (\<lambda>c x. 0 \<le> c \<and> c \<le> x) cs (obs :: rat list)"
  shows "0 \<le> sum_list (map2 (\<lambda>x c. x - c) obs cs) \<and> sum_list (map2 (\<lambda>x c. x - c) obs cs) \<le> sum_list obs"
  using assms by (induction rule: list_all2_induct) auto

lemma covered_amounts_bounds:
  assumes "length obs = length fin" "\<forall>x \<in> set obs. 0 \<le> x"
  shows "list_all2 (\<lambda>c x. 0 \<le> c \<and> c \<le> x) (covered_amounts r fin obs) obs"
  unfolding covered_amounts_def Let_def
  using covered_loop_bounds [OF assms] available_growth_mono [where a = "\<lambda>_. 0"] by simp

subsection \<open>Properties\<close>

text \<open>
  Whatever methods run and in whatever order, checks that were already in flight included, a
  guard reports the exceeded cap at most once, with a spend that reached the cap, and tells each
  execution to stop at most once, with the one stop message.
\<close>

theorem cap_enforced_at_most_once:
  "length (exceededCalls (guard_run opts parse ops (new_guard tid inputs))) \<le> 1
 \<and> list_all (\<lambda>s. capUsd (snap_cap s) \<le> spentUsd s) (exceededCalls (guard_run opts parse ops (new_guard tid inputs)))
 \<and> distinct (map fst (stopCalls (guard_run opts parse ops (new_guard tid inputs))))"
  using guard_run_inv [OF new_guard_inv, of opts parse ops tid inputs]
  by (auto simp: guard_inv_def split: option.splits)

lemma refuse_triggered:
  "triggered g \<Longrightarrow> stopMessage g = Some msg \<Longrightarrow>
     beginExecution model g = (Throw msg, g) \<and> admit opts read g = (Throw msg, g)"
  by (simp add: beginExecution_def admit_def refuseIfExceeded_def)

text \<open>
  C38: Once a run was stopped at its cap, no later sequence of operations revokes the verdict, its
  snapshot or its message, no execution is started any more, and both \<open>beginExecution\<close> and
  \<open>admit\<close> throw the stop message.
\<close>

theorem stopped_run_stays_stopped:
  assumes "guard_inv g" "triggered g"
  shows "triggered (guard_run opts parse ops g)
       \<and> exceededSnapshot (guard_run opts parse ops g) = exceededSnapshot g
       \<and> al_keys (live (guard_run opts parse ops g)) \<subseteq> al_keys (live g)
       \<and> (\<exists>msg. stopMessage g = Some msg
            \<and> beginExecution model (guard_run opts parse ops g) = (Throw msg, guard_run opts parse ops g)
            \<and> admit opts read (guard_run opts parse ops g) = (Throw msg, guard_run opts parse ops g))"
proof -
  obtain msg where msg: "stopMessage g = Some msg" using assms by (auto simp: guard_inv_def)
  have le: "guard_le g (guard_run opts parse ops g)" by (rule guard_run_le) (rule assms)
  with assms msg have "triggered (guard_run opts parse ops g)" "stopMessage (guard_run opts parse ops g) = Some msg"
    by (simp_all add: guard_le_def)
  from refuse_triggered [OF this] le assms msg show ?thesis by (simp add: guard_le_def)
qed

text \<open>
  A capped execution is admitted only when the recorded spend was read afresh and the estimate
  made from it is below the cap. A read that fails rejects admission and leaves the guard as it was.
\<close>

theorem admission_needs_fresh_budget:
  assumes "resolvedCap g = Some cap" "\<not> triggered g"
  shows "(fst (admit opts read g) = Return () \<longleftrightarrow>
           (\<exists>v. read = Inr v \<and> estimate opts (normalizeRecordedSpend v) g < capUsd cap)) \<and>
         admit opts (Inl e) g = (Throw e, g)"
proof -
  have [simp]: "estimate opts r (g\<lparr>lastRecorded := x\<rparr>) = estimate opts r g" for r x
    by (simp add: estimate_def)
  show ?thesis
    using assms by (cases read) (auto simp: admit_def readRecordedStrict_def Let_def evaluate_def
        evaluate_commit_def snapshot_def refuseIfExceeded_def split: if_splits)
qed


lemma estimate_lastRecorded [simp]: "estimate opts r (g\<lparr>lastRecorded := x\<rparr>) = estimate opts r g"
  by (simp add: estimate_def)

text \<open>
  C15: A check that finds the estimate at or above the cap stops the run: every live execution is told
  to stop with the cap's message, the snapshot is recorded, and finishing an execution then returns
  that message.
\<close>

theorem check_stops_every_live_execution:
  assumes "guard_inv g" "\<not> triggered g" "resolvedCap g = Some cap"
    and "capUsd cap \<le> estimate opts (normalizeRecordedSpend v) g"
  shows "triggered (check_spend opts (Inr v) g)
       \<and> stopCalls (check_spend opts (Inr v) g)
         = map (\<lambda>e. (fst e, runCostCapStopMessage cap (estimate opts (normalizeRecordedSpend v) g))) (live g)
       \<and> length (exceededCalls (check_spend opts (Inr v) g)) = 1
       \<and> (map_of (finishResults g) i = None \<longrightarrow>
            fst (finish_handle opts i read read' (check_spend opts (Inr v) g))
            = Some (runCostCapStopMessage cap (estimate opts (normalizeRecordedSpend v) g)))"
proof -
  define h msg where "h = check_spend opts (Inr v) g"
    and "msg = runCostCapStopMessage cap (estimate opts (normalizeRecordedSpend v) g)"
  have h: "triggered h" "stopMessage h = Some msg" "finishResults h = finishResults g"
    "stopCalls h = map (\<lambda>e. (fst e, msg)) (live g)" "length (exceededCalls h) = 1"
    using assms by (simp_all add: h_def msg_def check_spend_def readRecorded_def readRecordedStrict_def
        evaluate_def evaluate_commit_def snapshot_def Let_def guard_inv_def)
  have "guard_le h (snd (finishExecution opts i read read' h))" by (rule finishExecution_le)
  with h have "triggered (snd (finishExecution opts i read read' h))"
    "stopMessage (snd (finishExecution opts i read read' h)) = Some msg" by (simp_all add: guard_le_def)
  moreover have "fst (finishExecution opts i read read' k)
      = (if triggered (snd (finishExecution opts i read read' k))
         then stopMessage (snd (finishExecution opts i read read' k)) else None)" for k
    by (simp add: finishExecution_def Let_def split: prod.splits)
  ultimately have "fst (finishExecution opts i read read' h) = Some msg" by simp
  then show ?thesis using h
    by (auto simp: finish_handle_def simp flip: h_def msg_def split: prod.splits)
qed

text \<open>
  C19: The spend of finished executions that still counts lies between zero and what was observed, and
  each recorded dollar covers at most one execution: together, the executions of one session (or all
  that share the spend outside the matched sessions) are covered by no more than the largest growth of
  the recorded spend since one of them ended.
\<close>

theorem recorded_dollar_covers_once:
  assumes "length obs = length fin" "\<forall>x \<in> set obs. 0 \<le> x"
    and "0 \<le> b" "\<forall>e \<in> set fin. keyOf (matched_sessions r fin) e = key \<longrightarrow> growth (matched_sessions r fin) r e \<le> b"
  shows "0 \<le> unrecordedUsd r fin obs \<and> unrecordedUsd r fin obs \<le> sum_list obs
       \<and> sum_list (map snd (filter (\<lambda>(e, c). keyOf (matched_sessions r fin) e = key)
            (zip fin (covered_amounts r fin obs)))) \<le> b"
proof -
  let ?m = "matched_sessions r fin" and ?a = "available_growth (matched_sessions r fin) r fin (\<lambda>_. 0)"
  have "sum_list (map snd (filter (\<lambda>(e, c). keyOf ?m e = key) (zip fin (covered_amounts r fin obs)))) \<le> ?a key"
    unfolding covered_amounts_def Let_def
    using assms(1,2) available_growth_mono [where a = "\<lambda>_. 0"] by (intro covered_loop_shared) auto
  also have "?a key \<le> b" using assms(3,4) by (intro available_growth_le) auto
  finally show ?thesis
    using sum_uncovered_bounds [OF covered_amounts_bounds [OF assms(1,2)]] by (simp add: unrecordedUsd_def)
qed

subsection \<open>A concrete guard\<close>

text \<open>A task capped at five dollars by its override, with two executions running; prices are one cent a token.\<close>

definition sample_options :: guard_options where
  "sample_options = \<lparr>defaultModel = Some ''model'', priceUsage = (\<lambda>_ t. Some (inputTokens t / 100))\<rparr>"

definition sample_guard :: guard where
  "sample_guard = guard_run sample_options (\<lambda>_. None) [G_begin None, G_begin None]
     (new_guard ''t1'' \<lparr>in_override = JNum (Fin 5), in_workflow = JUndefined, in_instanceDefault = JUndefined\<rparr>)"

definition sample_cap :: RunCostCap where
  "sample_cap = \<lparr>capUsd = 5, cap_source = Override\<rparr>"

definition sample_stopped :: guard where
  "sample_stopped = check_spend sample_options (Inr (JNum (Fin 6))) sample_guard"

lemma sample_guard_facts:
  "resolvedCap sample_guard = Some sample_cap" "\<not> triggered sample_guard" "triggered sample_stopped"
  "map fst (live sample_guard) = [0, 1]" "finishResults sample_guard = []"
  "capUsd sample_cap \<le> estimate sample_options (normalizeRecordedSpend (JNum (Fin 6))) sample_guard"
  "estimate sample_options (normalizeRecordedSpend (JNum (Fin 4))) sample_guard < capUsd sample_cap"
  by code_simp+

lemma sample_guard_inv: "guard_inv sample_guard" "guard_inv sample_stopped"
  by (simp_all add: sample_guard_def sample_stopped_def guard_run_inv check_spend_inv)

theorem stopped_run_stays_stopped_witness:
  "triggered sample_stopped \<and> triggered (guard_run sample_options (\<lambda>_. None) [G_workflow (JNum (Fin 50)), G_close] sample_stopped)"
  using stopped_run_stays_stopped [OF sample_guard_inv(2) sample_guard_facts(3)] sample_guard_facts(3) by blast

theorem admission_needs_fresh_budget_witness:
  "fst (admit sample_options (Inr (JNum (Fin 4))) sample_guard) = Return ()
 \<and> admit sample_options (Inl ''no database'') sample_guard = (Throw ''no database'', sample_guard)"
  using admission_needs_fresh_budget [OF sample_guard_facts(1,2), of sample_options "Inr (JNum (Fin 4))"]
    admission_needs_fresh_budget [OF sample_guard_facts(1,2), of sample_options _ "''no database''"]
    sample_guard_facts(7) by blast

theorem check_stops_every_live_execution_witness:
  "map fst (stopCalls sample_stopped) = [0, 1]
 \<and> fst (finish_handle sample_options 1 (Inl []) (Inl []) sample_stopped) \<noteq> None"
  using check_stops_every_live_execution [OF sample_guard_inv(1) sample_guard_facts(2,1,6), of 1 "Inl []" "Inl []"]
    sample_guard_facts(4,5) by (simp add: sample_stopped_def comp_def)

text \<open>
  Two executions ended at a recorded total of one dollar after spending two and three; the total then
  grew by four, so one of the five observed dollars is still unrecorded.
\<close>

definition sample_finished :: "FinishedExecution list" where
  "sample_finished =
     [\<lparr>fin_id = 0, fin_tally = new_tally None, recordedAtFinish = \<lparr>totalUsd = 1, bySessionUsd = None\<rparr>\<rparr>,
      \<lparr>fin_id = 1, fin_tally = new_tally None, recordedAtFinish = \<lparr>totalUsd = 1, bySessionUsd = None\<rparr>\<rparr>]"

theorem recorded_dollar_covers_once_witness:
  "unrecordedUsd \<lparr>totalUsd = 5, bySessionUsd = None\<rparr> sample_finished [2, 3] = 1
 \<and> sum_list (map snd (filter (\<lambda>(e, c). keyOf (matched_sessions \<lparr>totalUsd = 5, bySessionUsd = None\<rparr> sample_finished) e = None)
      (zip sample_finished (covered_amounts \<lparr>totalUsd = 5, bySessionUsd = None\<rparr> sample_finished [2, 3])))) \<le> 4"
proof
  show "unrecordedUsd \<lparr>totalUsd = 5, bySessionUsd = None\<rparr> sample_finished [2, 3] = 1" by code_simp
  have "length [2, 3 :: rat] = length sample_finished" "\<forall>x \<in> set [2, 3]. (0 :: rat) \<le> x" "(0 :: rat) \<le> 4"
    "\<forall>e \<in> set sample_finished. keyOf (matched_sessions \<lparr>totalUsd = 5, bySessionUsd = None\<rparr> sample_finished) e = None
       \<longrightarrow> growth (matched_sessions \<lparr>totalUsd = 5, bySessionUsd = None\<rparr> sample_finished) \<lparr>totalUsd = 5, bySessionUsd = None\<rparr> e \<le> 4"
    by code_simp+
  from recorded_dollar_covers_once [OF this]
  show "sum_list (map snd (filter (\<lambda>(e, c). keyOf (matched_sessions \<lparr>totalUsd = 5, bySessionUsd = None\<rparr> sample_finished) e = None)
      (zip sample_finished (covered_amounts \<lparr>totalUsd = 5, bySessionUsd = None\<rparr> sample_finished [2, 3])))) \<le> 4"
    by blast
qed

end
