(* ===== verification/Auto_Merge.thy ===== *)
theory Auto_Merge
  imports Prelude "HOL-Library.Char_ord" "HOL-Library.List_Lexorder"
begin

section \<open>The auto-merge policy\<close>

text \<open>
  The model of \<^verbatim>\<open>packages/core/src/workflow/autoMergePolicy.ts\<close>: the protected-path globs,
  compiled to a nondeterministic automaton with silent edges and simulated over a file name, the
  validation of the \<open>auto_merge\<close> block, and the decision whether GitHub auto-merge may be armed.
  \<open>compileProtectedPathGlob\<close> throws where \<open>new RegExp\<close> would (a reversed character range).
  The one-character regular expressions are the data type \<open>CharTest\<close>.

  The reference semantics of a glob is \<open>glob_lang\<close>; \<open>test_correct\<close> shows that the simulation of
  the automaton computes it.
\<close>

subsection \<open>Patterns\<close>

fun strip_dot_slash :: "string \<Rightarrow> string" where
  "strip_dot_slash (a # b # rest) =
     (if a = CHR ''.'' \<and> b = CHR ''/'' then strip_dot_slash rest else a # b # rest)"
| "strip_dot_slash s = s"

fun collapse_slashes :: "string \<Rightarrow> string" where
  "collapse_slashes (a # b # rest) =
     (if a = CHR ''/'' \<and> b = CHR ''/'' then collapse_slashes (b # rest)
      else a # collapse_slashes (b # rest))"
| "collapse_slashes s = s"

definition normalizePath :: "string \<Rightarrow> string" where
  "normalizePath path =
     collapse_slashes (dropWhile (\<lambda>c. c = CHR ''/'')
       (strip_dot_slash (map (\<lambda>c. if c = CHR 0x5C then CHR ''/'' else c) (js_trim path))))"

definition trimTrailingSlashes :: "string \<Rightarrow> string" where
  "trimTrailingSlashes path = rev (dropWhile (\<lambda>c. c = CHR ''/'') (rev path))"

subsection \<open>One-character tests\<close>

text \<open>
  Canonicalisation of a character under the regular-expression flag \<open>i\<close>: its upper case, for the
  characters below U+0100 whose upper case is one of them.
\<close>

definition canon :: "char \<Rightarrow> char" where
  "canon c = (let n = code_of c
              in if (97 \<le> n \<and> n \<le> 122) \<or> (224 \<le> n \<and> n \<le> 254 \<and> n \<noteq> 247) then char_of (n - 32) else c)"

datatype CharTest =
    AnyChar
  | NotSlash
  | IsSlash
  | Literal char
  | CharClass bool "(char \<times> char) list"

definition in_range :: "char \<Rightarrow> char \<times> char \<Rightarrow> bool" where
  "in_range c r = list_ex (\<lambda>n. canon (char_of n) = canon c) [code_of (fst r)..<Suc (code_of (snd r))]"

lemma code_of_eq_iff: "code_of c = code_of d \<longleftrightarrow> c = d"
  by (simp add: code_of_def)

lemma code_of_bound: "code_of c < 256"
  by (simp add: code_of_def)

lemma code_of_canon:
  "code_of (canon c) = (let n = code_of c
     in if (97 \<le> n \<and> n \<le> 122) \<or> (224 \<le> n \<and> n \<le> 254 \<and> n \<noteq> 247) then n - 32 else n)"
  using code_of_bound [of c] by (auto simp: canon_def code_of_def Let_def)

lemma code_of_lower:
  "code_of (js_lower_char c) = (let n = code_of c
     in if (65 \<le> n \<and> n \<le> 90) \<or> (192 \<le> n \<and> n \<le> 222 \<and> n \<noteq> 215) then n + 32 else n)"
  using code_of_bound [of c] by (auto simp: js_lower_char_def code_of_def Let_def)

lemma canon_eq_variants: "canon d = canon c \<Longrightarrow> d = c \<or> d = canon c \<or> d = js_lower_char c"
  unfolding code_of_eq_iff [symmetric] code_of_canon code_of_lower by (auto simp: Let_def split: if_splits)

text \<open>Only the case variants of a character need to be looked for in a range.\<close>

lemma in_range_code [code]:
  "in_range c r = list_ex (\<lambda>d. canon d = canon c \<and> code_of (fst r) \<le> code_of d \<and> code_of d \<le> code_of (snd r))
     [c, canon c, js_lower_char c]"
proof -
  have char_code: "char_of (code_of d) = d" for d by (simp add: code_of_def)
  have "in_range c r \<longleftrightarrow> (\<exists>d. canon d = canon c \<and> code_of (fst r) \<le> code_of d \<and> code_of d \<le> code_of (snd r))"
  proof
    assume "in_range c r"
    then obtain n where n: "code_of (fst r) \<le> n" "n \<le> code_of (snd r)" "canon (char_of n) = canon c"
      by (auto simp: in_range_def list_ex_iff)
    then have "n < 256" using code_of_bound [of "snd r"] by linarith
    then have "code_of (char_of n) = n" by (simp add: code_of_def)
    with n show "\<exists>d. canon d = canon c \<and> code_of (fst r) \<le> code_of d \<and> code_of d \<le> code_of (snd r)" by auto
  qed (auto simp: in_range_def list_ex_iff char_code intro!: bexI [of _ "code_of _"])
  also have "\<dots> \<longleftrightarrow> list_ex (\<lambda>d. canon d = canon c \<and> code_of (fst r) \<le> code_of d \<and> code_of d \<le> code_of (snd r))
     [c, canon c, js_lower_char c]"
    using canon_eq_variants [of _ c] by auto
  finally show ?thesis .
qed

fun accepts :: "CharTest \<Rightarrow> char \<Rightarrow> bool" where
  "accepts AnyChar c = True"
| "accepts NotSlash c = (c \<noteq> CHR ''/'')"
| "accepts IsSlash c = (c = CHR ''/'')"
| "accepts (Literal d) c = (canon d = canon c)"
| "accepts (CharClass negated ranges) c = (list_ex (in_range c) ranges \<noteq> negated)"

text \<open>The members of a regular-expression class; \<open>a-b\<close> is a range and must not be reversed.\<close>

fun class_ranges :: "string \<Rightarrow> (char \<times> char) list result" where
  "class_ranges [] = Return []"
| "class_ranges (a # d # b # rest) =
     (if d = CHR ''-''
      then if code_of a > code_of b then Throw ''Range out of order in character class''
           else map_sum id (Cons (a, b)) (class_ranges rest)
      else map_sum id (Cons (a, a)) (class_ranges (d # b # rest)))"
| "class_ranges (a # rest) = map_sum id (Cons (a, a)) (class_ranges rest)"

subsection \<open>Compilation\<close>

record GlobState =
  epsilon :: "nat list"
  edges :: "(CharTest \<times> nat) list"

record glob_builder =
  states :: "GlobState list"
  current :: nat

definition empty_state :: GlobState where
  "empty_state = \<lparr>epsilon = [], edges = []\<rparr>"

definition add_epsilon :: "nat \<Rightarrow> nat list \<Rightarrow> GlobState list \<Rightarrow> GlobState list" where
  "add_epsilon s ns N = N[s := (N ! s)\<lparr>epsilon := epsilon (N ! s) @ ns\<rparr>]"

definition add_edges :: "nat \<Rightarrow> (CharTest \<times> nat) list \<Rightarrow> GlobState list \<Rightarrow> GlobState list" where
  "add_edges s es N = N[s := (N ! s)\<lparr>edges := edges (N ! s) @ es\<rparr>]"

definition consume :: "CharTest \<Rightarrow> glob_builder \<Rightarrow> glob_builder" where
  "consume t b =
     (let n = length (states b)
      in \<lparr>states = add_edges (current b) [(t, n)] (states b @ [empty_state]), current = n\<rparr>)"

definition repeat :: "CharTest \<Rightarrow> glob_builder \<Rightarrow> glob_builder" where
  "repeat t b =
     (let n = length (states b)
      in \<lparr>states = add_edges n [(t, n)] (add_epsilon (current b) [n] (states b @ [empty_state])), current = n\<rparr>)"

definition any_directories :: "glob_builder \<Rightarrow> glob_builder" where
  "any_directories b =
     (let directories = length (states b); next = directories + 1
      in \<lparr>states = add_edges directories [(AnyChar, directories), (IsSlash, next)]
                    (add_epsilon (current b) [next, directories] (states b @ [empty_state, empty_state])),
          current = next\<rparr>)"

text \<open>What one round of the loop over the glob does to the automaton, and by how much it moves \<open>index\<close> on.\<close>

datatype glob_action = Consume CharTest | Repeat CharTest | Directories

fun run_action :: "glob_action \<Rightarrow> glob_builder \<Rightarrow> glob_builder" where
  "run_action (Consume t) b = consume t b"
| "run_action (Repeat t) b = repeat t b"
| "run_action Directories b = any_directories b"

definition char_at :: "string \<Rightarrow> nat \<Rightarrow> char option" where
  "char_at s i = (if i < length s then Some (s ! i) else None)"

definition star_action :: "char option \<Rightarrow> string \<Rightarrow> glob_action \<times> nat" where
  "star_action prev rest =
     (let doubleStar = (char_at rest 0 = Some CHR ''*'');
          atSegmentStart = (prev = None \<or> prev = Some CHR ''/'');
          followedBySlash = (char_at rest 1 = Some CHR ''/'');
          wholeSegment = (doubleStar \<and> atSegmentStart \<and> (followedBySlash \<or> length rest = 1))
      in (if wholeSegment \<and> followedBySlash then Directories
          else Repeat (if wholeSegment then AnyChar else NotSlash),
          if wholeSegment \<and> followedBySlash then 2 else if doubleStar then 1 else 0))"

text \<open>\<open>indexOf(']', index + 2)\<close>, counted from the character after the opening bracket.\<close>

definition class_close :: "string \<Rightarrow> nat option" where
  "class_close rest =
     (let tail = drop 1 rest
      in if CHR '']'' \<in> set tail then Some (1 + length (takeWhile (\<lambda>c. c \<noteq> CHR '']'') tail)) else None)"

definition class_action :: "string \<Rightarrow> (glob_action \<times> nat) result" where
  "class_action rest =
     (case class_close rest of
        None \<Rightarrow> Return (Consume (Literal CHR ''[''), 0)
      | Some close \<Rightarrow>
          (let body = take close rest;
               negated = (char_at body 0 = Some CHR ''!'' \<or> char_at body 0 = Some CHR ''^'');
               source = (if negated then CHR ''/'' # drop 1 body else body)
           in map_sum id (\<lambda>ranges. (Consume (CharClass negated ranges), Suc close)) (class_ranges source)))"

definition glob_round :: "char option \<Rightarrow> char \<Rightarrow> string \<Rightarrow> (glob_action \<times> nat) result" where
  "glob_round prev c rest =
     (if c = CHR ''*'' then Return (star_action prev rest)
      else if c = CHR ''?'' then Return (Consume NotSlash, 0)
      else if c = CHR ''['' then class_action rest
      else Return (Consume (Literal c), 0))"

fun compile_loop :: "char option \<Rightarrow> string \<Rightarrow> glob_builder \<Rightarrow> glob_builder result" where
  "compile_loop prev [] b = Return b"
| "compile_loop prev (c # rest) b =
     (case glob_round prev c rest of
        Inl e \<Rightarrow> Throw e
      | Inr (act, n) \<Rightarrow> compile_loop (Some (last (c # take n rest))) (drop n rest) (run_action act b))"

record ProtectedPathMatcher =
  nfa :: "GlobState list"
  accepting :: "nat list"

definition finish_glob :: "glob_builder \<Rightarrow> ProtectedPathMatcher" where
  "finish_glob b =
     (let descendants = length (states b)
      in \<lparr>nfa = add_edges descendants [(AnyChar, descendants)]
                 (add_edges (current b) [(IsSlash, descendants)] (states b @ [empty_state])),
          accepting = [current b, descendants]\<rparr>)"

definition compileProtectedPathGlob :: "string \<Rightarrow> ProtectedPathMatcher result" where
  "compileProtectedPathGlob pattern =
     map_sum id finish_glob
       (compile_loop None (trimTrailingSlashes (normalizePath pattern)) \<lparr>states = [empty_state], current = 0\<rparr>)"

subsection \<open>Simulation\<close>

definition row :: "GlobState list \<Rightarrow> nat \<Rightarrow> GlobState" where
  "row N s = (if s < length N then N ! s else empty_state)"

fun visit_epsilon :: "nat list \<Rightarrow> nat list \<Rightarrow> nat list \<Rightarrow> nat list \<times> nat list" where
  "visit_epsilon [] active stack = (active, stack)"
| "visit_epsilon (n # ns) active stack =
     (if n \<in> set active then visit_epsilon ns active stack
      else visit_epsilon ns (active @ [n]) (n # stack))"

definition eps_targets :: "GlobState list \<Rightarrow> nat set" where
  "eps_targets N = (\<Union>r \<in> set N. set (epsilon r))"

lemma row_epsilon_subset: "set (epsilon (row N s)) \<subseteq> eps_targets N"
  using nth_mem [of s N] by (fastforce simp: row_def eps_targets_def empty_state_def)

lemma finite_eps_targets [simp]: "finite (eps_targets N)"
  by (simp add: eps_targets_def)

lemma set_visit_epsilon:
  "visit_epsilon ns active stack = (a, st) \<Longrightarrow>
     set a = set active \<union> set ns \<and> set st = set stack \<union> (set ns - set active)"
  by (induction ns active stack rule: visit_epsilon.induct) (auto split: if_splits)

lemma visit_epsilon_nothing_new:
  "visit_epsilon ns active stack = (a, st) \<Longrightarrow> set ns \<subseteq> set active \<Longrightarrow> st = stack"
  by (induction ns active stack rule: visit_epsilon.induct) (auto split: if_splits)

function closure_loop :: "GlobState list \<Rightarrow> nat list \<Rightarrow> nat list \<Rightarrow> nat list" where
  "closure_loop N active [] = active"
| "closure_loop N active (s # stack) =
     (let r = visit_epsilon (epsilon (row N s)) active stack in closure_loop N (fst r) (snd r))"
  by pat_completeness auto
termination
proof (relation "(\<lambda>(N, active, stack). card (eps_targets N - set active)) <*mlex*>
    measure (\<lambda>(N, active, stack). length stack)")
  fix N active s stack r
  assume r: "r = visit_epsilon (epsilon (row N s)) active stack"
  then have *: "visit_epsilon (epsilon (row N s)) active stack = (fst r, snd r)" by simp
  show "((N, fst r, snd r), N, active, s # stack)
    \<in> (\<lambda>(N, active, stack). card (eps_targets N - set active)) <*mlex*> measure (\<lambda>(N, active, stack). length stack)"
  proof (cases "set (epsilon (row N s)) \<subseteq> set active")
    case True
    with visit_epsilon_nothing_new [OF * True] set_visit_epsilon [OF *] show ?thesis
      by (intro mlex_leq) (auto simp: Un_absorb2)
  next
    case False
    have "eps_targets N - set (fst r) \<subset> eps_targets N - set active"
      using False set_visit_epsilon [OF *] row_epsilon_subset [of N s] by auto
    then show ?thesis by (intro mlex_less) (simp add: psubset_card_mono case_prod_unfold)
  qed
qed (auto simp: wf_mlex)

definition closure :: "GlobState list \<Rightarrow> nat list \<Rightarrow> nat list" where
  "closure N active = closure_loop N active (rev active)"

definition step_char :: "GlobState list \<Rightarrow> char \<Rightarrow> nat list \<Rightarrow> nat list" where
  "step_char N c active =
     js_unique (concat (map (\<lambda>s. map snd (filter (\<lambda>(t, _). accepts t c) (edges (row N s)))) active))"

fun simulate :: "GlobState list \<Rightarrow> nat list \<Rightarrow> string \<Rightarrow> nat list" where
  "simulate N active [] = active"
| "simulate N active (c # cs) =
     (if active = [] then active else simulate N (closure N (step_char N c active)) cs)"

definition test :: "ProtectedPathMatcher \<Rightarrow> string \<Rightarrow> bool" where
  "test m path = list_ex (\<lambda>s. s \<in> set (accepting m)) (simulate (nfa m) (closure (nfa m) [0]) path)"

definition ALWAYS_PROTECTED_PATHS :: "string list" where
  "ALWAYS_PROTECTED_PATHS = [''.propr'']"

fun all_ok :: "('a \<Rightarrow> 'b result) \<Rightarrow> 'a list \<Rightarrow> 'b list result" where
  "all_ok f [] = Return []"
| "all_ok f (x # xs) =
     (case f x of Inl e \<Rightarrow> Throw e | Inr y \<Rightarrow> map_sum id (Cons y) (all_ok f xs))"

definition findProtectedPaths :: "string list \<Rightarrow> string list \<Rightarrow> string list result" where
  "findProtectedPaths changedFiles protectedPaths =
     map_sum id (\<lambda>matchers. sort (js_unique (filter (\<lambda>file. list_ex (\<lambda>m. test m file) matchers) changedFiles)))
       (all_ok compileProtectedPathGlob (ALWAYS_PROTECTED_PATHS @ protectedPaths))"

subsection \<open>Validation and decision\<close>

datatype AutoMergeReason =
    Armed
  | Skipped_protected_path
  | Skipped_disabled
  | Skipped_empty_diff
  | Skipped_policy_invalid
  | Skipped_diff_unavailable

datatype AutoMergeOpportunity = Initial_pr | Ultrafix_goal | Epic_queue_advance | New_head | Check_merge

datatype AutoMergePolicyInput = Policy_valid jsval | Policy_invalid string

record AutoMergeDecision =
  arm :: bool
  reason :: AutoMergeReason
  opportunity :: AutoMergeOpportunity
  matchedPaths :: "string list option"
  merge_method :: "string option"
  detail :: "string option"

definition AUTO_MERGE_METHODS :: "string list" where
  "AUTO_MERGE_METHODS = [''merge'', ''squash'', ''rebase'']"

definition AUTO_MERGE_MAX_PROTECTED_PATHS :: nat where
  "AUTO_MERGE_MAX_PROTECTED_PATHS = 200"

definition pattern_error :: "nat \<Rightarrow> jsval \<Rightarrow> string option" where
  "pattern_error index v =
     (let where_at = ''auto_merge.protected_paths['' @ show_nat index @ '']''
      in case v of
           JStr pattern \<Rightarrow>
             (if js_trim pattern = [] \<or> CHR 0x00 \<in> set pattern
              then Some (where_at @ '' must be a nonempty string without NUL bytes'')
              else if ''..'' \<in> set (js_split CHR ''/'' (normalizePath pattern))
              then Some (where_at @ '' must not contain '' @ [CHR 0x27] @ ''..'' @ [CHR 0x27] @ '' segments'')
              else case compileProtectedPathGlob pattern of
                     Inl _ \<Rightarrow> Some (where_at @ '' is not a valid glob'')
                   | Inr _ \<Rightarrow> None)
         | _ \<Rightarrow> Some (where_at @ '' must be a nonempty string without NUL bytes''))"

fun patterns_error :: "nat \<Rightarrow> jsval list \<Rightarrow> string option" where
  "patterns_error index [] = None"
| "patterns_error index (v # vs) =
     (case pattern_error index v of Some e \<Rightarrow> Some e | None \<Rightarrow> patterns_error (Suc index) vs)"

definition protected_paths_error :: "jsval \<Rightarrow> string option" where
  "protected_paths_error v =
     (let bad = Some (''auto_merge.protected_paths must be an array of at most ''
                      @ show_nat AUTO_MERGE_MAX_PROTECTED_PATHS @ '' globs'')
      in case v of
           JUndefined \<Rightarrow> None
         | JArr paths \<Rightarrow> (if length paths > AUTO_MERGE_MAX_PROTECTED_PATHS then bad else patterns_error 0 paths)
         | _ \<Rightarrow> bad)"

definition validateAutoMergeConfig :: "jsval \<Rightarrow> string option" where
  "validateAutoMergeConfig value =
     (case value of
        JObj r \<Rightarrow>
          (case find (\<lambda>key. key \<notin> set [''enabled'', ''method'', ''protected_paths'']) (map fst r) of
             Some key \<Rightarrow> Some (''unknown field auto_merge.'' @ key)
           | None \<Rightarrow>
               (if \<not> (case js_get r ''enabled'' of JUndefined \<Rightarrow> True | JBool _ \<Rightarrow> True | _ \<Rightarrow> False)
                then Some ''auto_merge.enabled must be a boolean''
                else if \<not> (case js_get r ''method'' of JUndefined \<Rightarrow> True
                           | JStr m \<Rightarrow> m \<in> set AUTO_MERGE_METHODS | _ \<Rightarrow> False)
                then Some ''auto_merge.method must be one of merge, squash or rebase''
                else protected_paths_error (js_get r ''protected_paths'')))
      | _ \<Rightarrow> Some ''auto_merge must be a mapping'')"

definition skip ::
  "AutoMergeOpportunity \<Rightarrow> AutoMergeReason \<Rightarrow> string list option \<Rightarrow> string option \<Rightarrow> AutoMergeDecision" where
  "skip opp why paths det =
     \<lparr>arm = False, reason = why, opportunity = opp, matchedPaths = paths, merge_method = None, detail = det\<rparr>"

fun js_strings :: "jsval \<Rightarrow> string list" where
  "js_strings (JArr vs) = List.map_filter js_string_of vs"
| "js_strings _ = []"

definition decideAutoMerge ::
  "AutoMergePolicyInput \<Rightarrow> jsval \<Rightarrow> AutoMergeOpportunity \<Rightarrow> AutoMergeDecision result" where
  "decideAutoMerge policy changedFiles opp =
     (case policy of
        Policy_invalid e \<Rightarrow> Return (skip opp Skipped_policy_invalid None (Some e))
      | Policy_valid given \<Rightarrow>
          (let config = js_coalesce given (JObj [])
           in case validateAutoMergeConfig config of
                Some invalid \<Rightarrow> Return (skip opp Skipped_policy_invalid None (Some invalid))
              | None \<Rightarrow>
                  (let r = (case js_record config of None \<Rightarrow> [] | Some r \<Rightarrow> r)
                   in if js_get r ''enabled'' = JBool False then Return (skip opp Skipped_disabled None None)
                      else case changedFiles of
                        JArr fs \<Rightarrow>
                          (let files = filter (\<lambda>f. f \<noteq> []) (js_strings (JArr fs))
                           in if files = [] then Return (skip opp Skipped_empty_diff None None)
                              else map_sum id
                                (\<lambda>matched. if matched \<noteq> [] then skip opp Skipped_protected_path (Some matched) None
                                   else \<lparr>arm = True, reason = Armed, opportunity = opp, matchedPaths = None,
                                         merge_method = js_string_of (js_get r ''method''), detail = None\<rparr>)
                                (findProtectedPaths files (js_strings (js_get r ''protected_paths''))))
                      | _ \<Rightarrow> Return (skip opp Skipped_diff_unavailable None None))))"

subsection \<open>The language of an automaton state\<close>

inductive lang_of :: "GlobState list \<Rightarrow> nat set \<Rightarrow> nat \<Rightarrow> string \<Rightarrow> bool" for N F where
  accept: "s \<in> F \<Longrightarrow> lang_of N F s []"
| silent: "n \<in> set (epsilon (row N s)) \<Longrightarrow> lang_of N F n p \<Longrightarrow> lang_of N F s p"
| letter: "(t, n) \<in> set (edges (row N s)) \<Longrightarrow> accepts t c \<Longrightarrow> lang_of N F n p \<Longrightarrow> lang_of N F s (c # p)"

inductive_simps lang_of_unfold: "lang_of N F s p"

definition eps_closed :: "GlobState list \<Rightarrow> nat set \<Rightarrow> bool" where
  "eps_closed N A \<longleftrightarrow> (\<forall>s \<in> A. set (epsilon (row N s)) \<subseteq> A)"

text \<open>The stack loop ends with a closed set that contains the given one and adds only silently reachable states.\<close>

lemma closure_loop_superset: "set active \<subseteq> set (closure_loop N active stack)"
proof (induction N active stack rule: closure_loop.induct)
  case (2 N active s stack)
  let ?r = "visit_epsilon (epsilon (row N s)) active stack"
  have "set active \<subseteq> set (fst ?r)" using set_visit_epsilon [of _ active stack "fst ?r" "snd ?r"] by auto
  with "2.IH" [OF refl] show ?case by (simp add: Let_def)
qed simp

lemma closure_loop_closed:
  assumes "\<forall>s \<in> set active. s \<in> set stack \<or> set (epsilon (row N s)) \<subseteq> set active" "set stack \<subseteq> set active"
  shows "eps_closed N (set (closure_loop N active stack))"
  using assms
proof (induction N active stack rule: closure_loop.induct)
  case (2 N active s stack)
  let ?r = "visit_epsilon (epsilon (row N s)) active stack"
  have r: "set (fst ?r) = set active \<union> set (epsilon (row N s))"
    "set (snd ?r) = set stack \<union> (set (epsilon (row N s)) - set active)"
    using set_visit_epsilon [of "epsilon (row N s)" active stack "fst ?r" "snd ?r"] by simp_all
  have "eps_closed N (set (closure_loop N (fst ?r) (snd ?r)))"
  proof (rule "2.IH" [OF refl])
    show "\<forall>s' \<in> set (fst ?r). s' \<in> set (snd ?r) \<or> set (epsilon (row N s')) \<subseteq> set (fst ?r)"
      unfolding r using "2.prems"(1) by auto
    show "set (snd ?r) \<subseteq> set (fst ?r)"
      unfolding r using "2.prems"(2) by auto
  qed
  then show ?case by (simp add: Let_def)
qed (auto simp: eps_closed_def)

lemma closure_loop_sound:
  "s \<in> set (closure_loop N active stack) \<Longrightarrow> set stack \<subseteq> set active \<Longrightarrow> lang_of N F s p \<Longrightarrow>
     \<exists>s' \<in> set active. lang_of N F s' p"
proof (induction N active stack rule: closure_loop.induct)
  case (2 N active s0 stack)
  let ?r = "visit_epsilon (epsilon (row N s0)) active stack"
  have r: "set (fst ?r) = set active \<union> set (epsilon (row N s0))"
    "set (snd ?r) = set stack \<union> (set (epsilon (row N s0)) - set active)"
    using set_visit_epsilon [of "epsilon (row N s0)" active stack "fst ?r" "snd ?r"] by simp_all
  have "\<exists>s' \<in> set (fst ?r). lang_of N F s' p"
    using "2.IH" [OF refl] "2.prems" r by (auto simp: Let_def)
  with "2.prems"(2) show ?case unfolding r by (auto intro: silent)
qed auto

lemma closure_lang: "(\<exists>s \<in> set (closure N A). lang_of N F s p) \<longleftrightarrow> (\<exists>s \<in> set A. lang_of N F s p)"
  using closure_loop_superset [of A N "rev A"] closure_loop_sound [of _ N A "rev A"]
  by (auto simp: closure_def)

lemma closure_closed: "eps_closed N (set (closure N A))"
  unfolding closure_def by (rule closure_loop_closed) auto

lemma set_step_char:
  "set (step_char N c A) = {n. \<exists>s \<in> set A. \<exists>t. (t, n) \<in> set (edges (row N s)) \<and> accepts t c}"
  by (force simp: step_char_def)

lemma closed_lang_Nil:
  "lang_of N F s p \<Longrightarrow> p = [] \<Longrightarrow> eps_closed N A \<Longrightarrow> s \<in> A \<Longrightarrow> \<exists>s' \<in> A. s' \<in> F"
  by (induction rule: lang_of.induct) (auto simp: eps_closed_def)

lemma closed_lang_Cons:
  "lang_of N F s p \<Longrightarrow> p = c # q \<Longrightarrow> eps_closed N (set A) \<Longrightarrow> s \<in> set A \<Longrightarrow>
     \<exists>n \<in> set (step_char N c A). lang_of N F n q"
proof (induction rule: lang_of.induct)
  case (silent n s p)
  then have "n \<in> set A" by (auto simp: eps_closed_def)
  with silent show ?case by blast
qed (auto simp: set_step_char)

lemma simulate_lang:
  "eps_closed N (set A) \<Longrightarrow>
     (\<exists>s \<in> set (simulate N A p). s \<in> F) \<longleftrightarrow> (\<exists>s \<in> set A. lang_of N F s p)"
proof (induction N A p rule: simulate.induct)
  case (1 N A)
  then show ?case by (auto intro: accept dest: closed_lang_Nil [OF _ refl])
next
  case (2 N A c p)
  show ?case
  proof (cases "A = []")
    case False
    then have "(\<exists>s \<in> set (simulate N A (c # p)). s \<in> F) \<longleftrightarrow> (\<exists>n \<in> set (step_char N c A). lang_of N F n p)"
      using "2.IH" [OF False closure_closed] by (simp add: closure_lang)
    also have "\<dots> \<longleftrightarrow> (\<exists>s \<in> set A. lang_of N F s (c # p))"
      using closed_lang_Cons [OF _ refl "2.prems"] by (auto simp: set_step_char intro: letter)
    finally show ?thesis .
  qed simp
qed

lemma test_lang: "test m p \<longleftrightarrow> lang_of (nfa m) (set (accepting m)) 0 p"
  using simulate_lang [OF closure_closed, of "nfa m" "[0]" p "set (accepting m)"]
  by (simp add: test_def list_ex_iff closure_lang)

subsection \<open>Reference semantics of globs and correctness of the compilation\<close>

text \<open>
  The rounds of the loop as a list of actions, and what a list of actions matches: a character test
  matches one character, a repetition any number of accepted characters, \<open>Directories\<close> nothing or
  any text that ends in a slash; after the last action the path ends or goes on below a slash.
\<close>

fun glob_actions :: "char option \<Rightarrow> string \<Rightarrow> glob_action list result" where
  "glob_actions prev [] = Return []"
| "glob_actions prev (c # rest) =
     (case glob_round prev c rest of
        Inl e \<Rightarrow> Throw e
      | Inr (act, n) \<Rightarrow> map_sum id (Cons act) (glob_actions (Some (last (c # take n rest))) (drop n rest)))"

fun rep_lang :: "CharTest \<Rightarrow> (string \<Rightarrow> bool) \<Rightarrow> string \<Rightarrow> bool" where
  "rep_lang t K [] = K []"
| "rep_lang t K (c # p) = (K (c # p) \<or> (accepts t c \<and> rep_lang t K p))"

fun after_slash :: "(string \<Rightarrow> bool) \<Rightarrow> string \<Rightarrow> bool" where
  "after_slash K [] = False"
| "after_slash K (c # p) = (after_slash K p \<or> (c = CHR ''/'' \<and> K p))"

fun glob_lang :: "glob_action list \<Rightarrow> string \<Rightarrow> bool" where
  "glob_lang [] p = (p = [] \<or> hd p = CHR ''/'')"
| "glob_lang (Consume t # acts) p = (p \<noteq> [] \<and> accepts t (hd p) \<and> glob_lang acts (tl p))"
| "glob_lang (Repeat t # acts) p = rep_lang t (glob_lang acts) p"
| "glob_lang (Directories # acts) p = (glob_lang acts p \<or> after_slash (glob_lang acts) p)"

definition glob_matches :: "string \<Rightarrow> string \<Rightarrow> bool result" where
  "glob_matches pattern path =
     map_sum id (\<lambda>acts. glob_lang acts path) (glob_actions None (trimTrailingSlashes (normalizePath pattern)))"

lemma compile_loop_actions:
  "compile_loop prev g b = map_sum id (\<lambda>acts. fold run_action acts b) (glob_actions prev g)"
proof (induction prev g b rule: compile_loop.induct)
  case (2 prev c rest b)
  show ?case
  proof (cases "glob_round prev c rest")
    case (Inr r)
    obtain act n where r: "r = (act, n)" by fastforce
    show ?thesis
      using "2.IH" [OF Inr [unfolded r] refl] Inr r
      by (cases "glob_actions (Some (last (c # take n rest))) (drop n rest)") simp_all
  qed simp
qed simp

lemma after_slash_iff: "after_slash K p \<longleftrightarrow> (\<exists>d q. p = d @ CHR ''/'' # q \<and> K q)"
proof (induction p)
  case (Cons c p)
  then show ?case by (auto simp: Cons_eq_append_conv)
qed simp

text \<open>The rows an action leaves alone, and the row it extends.\<close>

definition grows :: "GlobState list \<Rightarrow> nat \<Rightarrow> GlobState list \<Rightarrow> bool" where
  "grows N cur N' \<longleftrightarrow> length N \<le> length N' \<and> (\<forall>s < length N. s \<noteq> cur \<longrightarrow> N' ! s = N ! s)"

text \<open>
  The automaton finished from a builder: below the builder's states only the current row is extended, and
  the language of the current state is the reference semantics of the remaining actions, after any
  number of characters of the loop \<open>l\<close> the current state may carry.
\<close>

definition loop_row :: "CharTest option \<Rightarrow> nat \<Rightarrow> GlobState" where
  "loop_row l s = \<lparr>epsilon = [], edges = (case l of None \<Rightarrow> [] | Some t \<Rightarrow> [(t, s)])\<rparr>"

definition loop_lang :: "CharTest option \<Rightarrow> (string \<Rightarrow> bool) \<Rightarrow> string \<Rightarrow> bool" where
  "loop_lang l K p = (case l of None \<Rightarrow> K p | Some t \<Rightarrow> rep_lang t K p)"

definition wf_builder :: "CharTest option \<Rightarrow> glob_builder \<Rightarrow> bool" where
  "wf_builder l b \<longleftrightarrow> current b < length (states b) \<and> states b ! current b = loop_row l (current b)"

lemma rep_lang_fixpoint:
  assumes "\<And>p. L p \<longleftrightarrow> K p \<or> (\<exists>c q. p = c # q \<and> accepts t c \<and> L q)"
  shows "L p \<longleftrightarrow> rep_lang t K p"
proof (induction p)
  case Nil
  show ?case by (subst assms) simp
next
  case (Cons c p)
  then show ?case by (subst assms) simp
qed

lemma lang_of_row:
  "lang_of N F s p \<longleftrightarrow>
     (p = [] \<and> s \<in> F) \<or> (\<exists>n \<in> set (epsilon (row N s)). lang_of N F n p)
   \<or> (\<exists>c q. p = c # q \<and> (\<exists>(t, n) \<in> set (edges (row N s)). accepts t c \<and> lang_of N F n q))"
  by (subst lang_of_unfold) auto

text \<open>The language of a state whose row is its loop followed by the edges and silent edges added later.\<close>

lemma loop_row_lang:
  assumes "row N s = \<lparr>epsilon = eps, edges = edges (loop_row l s) @ es\<rparr>"
    and "\<And>p. K p \<longleftrightarrow> (p = [] \<and> s \<in> F) \<or> (\<exists>n \<in> set eps. lang_of N F n p)
          \<or> (\<exists>c q. p = c # q \<and> (\<exists>(t, n) \<in> set es. accepts t c \<and> lang_of N F n q))"
  shows "lang_of N F s p \<longleftrightarrow> loop_lang l K p"
proof (cases l)
  case None
  then show ?thesis
    by (subst lang_of_row) (auto simp: assms loop_row_def loop_lang_def)
next
  case (Some t)
  have "lang_of N F s p \<longleftrightarrow> rep_lang t K p"
  proof (rule rep_lang_fixpoint)
    fix p
    show "lang_of N F s p \<longleftrightarrow> K p \<or> (\<exists>c q. p = c # q \<and> accepts t c \<and> lang_of N F s q)"
      by (subst lang_of_row) (auto simp: assms loop_row_def Some)
  qed
  with Some show ?thesis by (simp add: loop_lang_def)
qed

definition finished_ok :: "CharTest option \<Rightarrow> glob_builder \<Rightarrow> glob_action list \<Rightarrow> ProtectedPathMatcher \<Rightarrow> bool" where
  "finished_ok l b acts m \<longleftrightarrow>
     grows (states b) (current b) (nfa m)
   \<and> (\<forall>s \<in> set (accepting m). s = current b \<or> length (states b) \<le> s)
   \<and> (\<forall>p. lang_of (nfa m) (set (accepting m)) (current b) p \<longleftrightarrow> loop_lang l (glob_lang acts) p)"

lemmas builder_defs = add_edges_def add_epsilon_def empty_state_def Let_def nth_append nth_list_update

lemma everything_lang:
  assumes "row N d = \<lparr>epsilon = [], edges = [(AnyChar, d)]\<rparr>" "d \<in> F"
  shows "lang_of N F d p"
proof (induction p)
  case (Cons c p)
  then show ?case using assms by (intro letter [of AnyChar d]) simp_all
qed (simp add: assms accept)

lemma finish_glob_ok: "wf_builder l b \<Longrightarrow> finished_ok l b [] (finish_glob b)"
proof -
  assume wf: "wf_builder l b"
  let ?m = "finish_glob b" and ?d = "length (states b)"
  have d: "lang_of (nfa ?m) (set (accepting ?m)) ?d p" for p
    using wf by (intro everything_lang) (simp_all add: finish_glob_def row_def wf_builder_def builder_defs)
  have row: "row (nfa ?m) (current b)
      = \<lparr>epsilon = [], edges = edges (loop_row l (current b)) @ [(IsSlash, ?d)]\<rparr>"
    using wf by (simp add: finish_glob_def row_def wf_builder_def builder_defs loop_row_def)
  have acc: "current b \<in> set (accepting ?m)" by (simp add: finish_glob_def Let_def)
  have "lang_of (nfa ?m) (set (accepting ?m)) (current b) p \<longleftrightarrow> loop_lang l (glob_lang []) p" for p
  proof (rule loop_row_lang [OF row])
    fix q
    show "glob_lang [] q \<longleftrightarrow> (q = [] \<and> current b \<in> set (accepting ?m))
        \<or> (\<exists>n \<in> set []. lang_of (nfa ?m) (set (accepting ?m)) n q)
        \<or> (\<exists>c q'. q = c # q' \<and> (\<exists>(t, n) \<in> set [(IsSlash, ?d)]. accepts t c
              \<and> lang_of (nfa ?m) (set (accepting ?m)) n q'))"
      by (cases q) (simp_all add: d acc)
  qed
  moreover have "grows (states b) (current b) (nfa ?m)"
    by (auto simp: grows_def finish_glob_def builder_defs)
  ultimately show ?thesis by (simp add: finished_ok_def finish_glob_def Let_def)
qed

text \<open>What an earlier builder keeps when a later one, current elsewhere, is finished.\<close>

lemma finished_earlier:
  assumes "finished_ok l' b' acts m" "wf_builder l b" "length (states b) \<le> current b'"
    and "length (states b) \<le> length (states b')"
    and "\<And>s. s < length (states b) \<Longrightarrow> s \<noteq> current b \<Longrightarrow> states b' ! s = states b ! s"
  shows "grows (states b) (current b) (nfa m)"
    and "\<forall>s \<in> set (accepting m). length (states b) \<le> s"
    and "row (nfa m) (current b) = states b' ! current b"
  using assms by (fastforce simp: finished_ok_def grows_def row_def wf_builder_def)+

lemma consume_wf: "wf_builder l b \<Longrightarrow> wf_builder None (consume t b)"
  by (simp add: wf_builder_def consume_def builder_defs loop_row_def)

lemma repeat_wf: "wf_builder l b \<Longrightarrow> wf_builder (Some t) (repeat t b)"
  by (simp add: wf_builder_def repeat_def builder_defs loop_row_def)

lemma any_directories_wf: "wf_builder l b \<Longrightarrow> wf_builder None (any_directories b)"
  by (simp add: wf_builder_def any_directories_def builder_defs loop_row_def)

lemma consume_ok:
  assumes wf: "wf_builder l b" and ok: "finished_ok None (consume t b) acts m"
  shows "finished_ok l b (Consume t # acts) m"
proof -
  let ?n = "length (states b)"
  have e: "grows (states b) (current b) (nfa m)" "\<forall>s \<in> set (accepting m). ?n \<le> s"
    "row (nfa m) (current b) = states (consume t b) ! current b"
    by (rule finished_earlier [OF ok wf]; auto simp: consume_def builder_defs)+
  have row: "row (nfa m) (current b) = \<lparr>epsilon = [], edges = edges (loop_row l (current b)) @ [(t, ?n)]\<rparr>"
    unfolding e(3) using wf by (simp add: consume_def wf_builder_def builder_defs loop_row_def)
  have n: "lang_of (nfa m) (set (accepting m)) ?n p \<longleftrightarrow> glob_lang acts p" for p
    using ok by (simp add: finished_ok_def loop_lang_def consume_def Let_def)
  have "lang_of (nfa m) (set (accepting m)) (current b) p \<longleftrightarrow> loop_lang l (glob_lang (Consume t # acts)) p" for p
    by (rule loop_row_lang [OF row]) (use wf e(2) in \<open>auto simp: n neq_Nil_conv wf_builder_def\<close>)
  with e(1,2) show ?thesis by (simp add: finished_ok_def)
qed

lemma repeat_ok:
  assumes wf: "wf_builder l b" and ok: "finished_ok (Some t) (repeat t b) acts m"
  shows "finished_ok l b (Repeat t # acts) m"
proof -
  let ?n = "length (states b)"
  have e: "grows (states b) (current b) (nfa m)" "\<forall>s \<in> set (accepting m). ?n \<le> s"
    "row (nfa m) (current b) = states (repeat t b) ! current b"
    by (rule finished_earlier [OF ok wf]; auto simp: repeat_def builder_defs)+
  have row: "row (nfa m) (current b) = \<lparr>epsilon = [?n], edges = edges (loop_row l (current b)) @ []\<rparr>"
    unfolding e(3) using wf by (simp add: repeat_def wf_builder_def builder_defs loop_row_def)
  have n: "lang_of (nfa m) (set (accepting m)) ?n p \<longleftrightarrow> rep_lang t (glob_lang acts) p" for p
    using ok by (simp add: finished_ok_def loop_lang_def repeat_def Let_def)
  have "lang_of (nfa m) (set (accepting m)) (current b) p \<longleftrightarrow> loop_lang l (glob_lang (Repeat t # acts)) p" for p
    by (rule loop_row_lang [OF row]) (use wf e(2) in \<open>auto simp: n wf_builder_def\<close>)
  with e(1,2) show ?thesis by (simp add: finished_ok_def)
qed

lemma directories_ok:
  assumes wf: "wf_builder l b" and ok: "finished_ok None (any_directories b) acts m"
  shows "finished_ok l b (Directories # acts) m"
proof -
  let ?d = "length (states b)"
  have e: "grows (states b) (current b) (nfa m)" "\<forall>s \<in> set (accepting m). ?d \<le> s"
    "row (nfa m) (current b) = states (any_directories b) ! current b"
    by (rule finished_earlier [OF ok wf]; auto simp: any_directories_def builder_defs)+
  have row: "row (nfa m) (current b) = \<lparr>epsilon = [Suc ?d, ?d], edges = edges (loop_row l (current b)) @ []\<rparr>"
    unfolding e(3) using wf by (simp add: any_directories_def wf_builder_def builder_defs loop_row_def)
  have d: "row (nfa m) ?d = \<lparr>epsilon = [], edges = [(AnyChar, ?d), (IsSlash, Suc ?d)]\<rparr>" "?d \<notin> set (accepting m)"
    using ok wf by (auto simp: finished_ok_def grows_def row_def any_directories_def wf_builder_def builder_defs)
  have n: "lang_of (nfa m) (set (accepting m)) (Suc ?d) p \<longleftrightarrow> glob_lang acts p" for p
    using ok by (simp add: finished_ok_def loop_lang_def any_directories_def Let_def)
  have dirs: "lang_of (nfa m) (set (accepting m)) ?d p \<longleftrightarrow> after_slash (glob_lang acts) p" for p
  proof (induction p)
    case Nil
    show ?case by (subst lang_of_row) (simp add: d)
  next
    case (Cons c p)
    then show ?case by (subst lang_of_row) (simp add: d n)
  qed
  have "lang_of (nfa m) (set (accepting m)) (current b) p \<longleftrightarrow> loop_lang l (glob_lang (Directories # acts)) p" for p
    by (rule loop_row_lang [OF row]) (use wf e(2) in \<open>auto simp: n dirs wf_builder_def\<close>)
  with e(1,2) show ?thesis by (simp add: finished_ok_def)
qed

lemma compiled_ok: "wf_builder l b \<Longrightarrow> finished_ok l b acts (finish_glob (fold run_action acts b))"
proof (induction acts arbitrary: l b)
  case (Cons act acts)
  show ?case
  proof (cases act)
    case (Consume t)
    with consume_ok [OF Cons.prems Cons.IH [OF consume_wf [OF Cons.prems]]] show ?thesis by simp
  next
    case (Repeat t)
    with repeat_ok [OF Cons.prems Cons.IH [OF repeat_wf [OF Cons.prems]]] show ?thesis by simp
  next
    case Directories
    with directories_ok [OF Cons.prems Cons.IH [OF any_directories_wf [OF Cons.prems]]] show ?thesis by simp
  qed
qed (simp add: finish_glob_ok)

lemma compiled_test:
  "compileProtectedPathGlob pattern = Return m \<Longrightarrow>
     (\<exists>acts. glob_actions None (trimTrailingSlashes (normalizePath pattern)) = Return acts
        \<and> (\<forall>p. test m p \<longleftrightarrow> glob_lang acts p))"
proof -
  let ?g = "trimTrailingSlashes (normalizePath pattern)" and ?b = "\<lparr>states = [empty_state], current = 0\<rparr>"
  assume "compileProtectedPathGlob pattern = Return m"
  then obtain acts where acts: "glob_actions None ?g = Return acts" "m = finish_glob (fold run_action acts ?b)"
    by (cases "glob_actions None ?g") (auto simp: compileProtectedPathGlob_def compile_loop_actions)
  have "wf_builder None ?b" by (simp add: wf_builder_def loop_row_def empty_state_def)
  from compiled_ok [OF this, of acts] acts show ?thesis
    by (auto simp: finished_ok_def test_lang loop_lang_def)
qed

subsection \<open>Descendants and letter case\<close>

lemma rep_lang_mono:
  assumes "\<And>p. K p \<Longrightarrow> K (p @ e)" shows "rep_lang t K p \<Longrightarrow> rep_lang t K (p @ e)"
proof (induction p)
  case Nil
  then show ?case using assms [of "[]"] by (cases e) auto
next
  case (Cons c p)
  then show ?case using assms [of "c # p"] by auto
qed

lemma after_slash_mono: "(\<And>p. K p \<Longrightarrow> K (p @ e)) \<Longrightarrow> after_slash K p \<Longrightarrow> after_slash K (p @ e)"
  by (induction p) auto

lemma glob_lang_descendants: "glob_lang acts p \<Longrightarrow> glob_lang acts (p @ CHR ''/'' # e)"
proof (induction acts p rule: glob_lang.induct)
  case (1 p)
  then show ?case by (cases p) auto
next
  case (3 t acts p)
  then show ?case using rep_lang_mono [of "glob_lang acts"] by simp
next
  case (4 acts p)
  then show ?case using after_slash_mono [of "glob_lang acts"] by auto
qed auto

lemma code_of_slash: "code_of CHR ''/'' = 47"
  by (simp add: code_of_def)

lemma canon_slash [simp]: "canon c = CHR ''/'' \<longleftrightarrow> c = CHR ''/''"
  unfolding code_of_eq_iff [symmetric] code_of_canon code_of_slash by (auto simp: Let_def)

lemma accepts_canon: "canon c = canon d \<Longrightarrow> accepts t c = accepts t d"
proof -
  assume cd: "canon c = canon d"
  then have "c = CHR ''/'' \<longleftrightarrow> d = CHR ''/''" using canon_slash [of c] canon_slash [of d] by simp
  moreover have "in_range c = in_range d" using cd by (simp add: fun_eq_iff in_range_def)
  ultimately show ?thesis using cd by (cases t) simp_all
qed

lemma map_canon_Cons: "map canon (c # p) = map canon q \<Longrightarrow>
    \<exists>d q'. q = d # q' \<and> canon c = canon d \<and> map canon p = map canon q'"
  by (cases q) auto

lemma rep_lang_canon:
  assumes K: "\<And>p q. map canon p = map canon q \<Longrightarrow> K p = K q"
  shows "map canon p = map canon q \<Longrightarrow> rep_lang t K p = rep_lang t K q"
proof (induction p arbitrary: q)
  case (Cons c p)
  from map_canon_Cons [OF Cons.prems] obtain d q'
    where q: "q = d # q'" "canon c = canon d" "map canon p = map canon q'" by blast
  have "K (c # p) = K (d # q')" by (rule K) (simp add: q)
  then show ?case using accepts_canon [OF q(2), of t] Cons.IH [OF q(3)] q(1) by simp
qed simp

lemma after_slash_canon:
  assumes K: "\<And>p q. map canon p = map canon q \<Longrightarrow> K p = K q"
  shows "map canon p = map canon q \<Longrightarrow> after_slash K p = after_slash K q"
proof (induction p arbitrary: q)
  case (Cons c p)
  from map_canon_Cons [OF Cons.prems] obtain d q'
    where q: "q = d # q'" "canon c = canon d" "map canon p = map canon q'" by blast
  have "K p = K q'" by (rule K) (rule q(3))
  then show ?case using accepts_canon [OF q(2), of IsSlash] Cons.IH [OF q(3)] q(1) by simp
qed simp

lemma glob_lang_canon: "map canon p = map canon q \<Longrightarrow> glob_lang acts p = glob_lang acts q"
proof (induction acts arbitrary: p q)
  case Nil
  show ?case
  proof (cases p)
    case (Cons c p')
    from map_canon_Cons [of c p' q] Nil Cons obtain d q' where "q = d # q'" "canon c = canon d" by auto
    with accepts_canon [of c d IsSlash] Cons show ?thesis by simp
  qed (use Nil in simp)
next
  case (Cons act acts)
  show ?case
  proof (cases act)
    case (Consume t)
    show ?thesis
    proof (cases p)
      case (Cons c p')
      from map_canon_Cons [of c p' q] Cons.prems Cons
      obtain d q' where q: "q = d # q'" "canon c = canon d" "map canon p' = map canon q'" by auto
      with accepts_canon [OF q(2), of t] Cons.IH [OF q(3)] Cons Consume show ?thesis by simp
    qed (use Cons.prems Consume in simp)
  next
    case (Repeat t)
    then show ?thesis using rep_lang_canon [of "glob_lang acts", OF Cons.IH Cons.prems] by simp
  next
    case Directories
    then show ?thesis
      using after_slash_canon [of "glob_lang acts", OF Cons.IH Cons.prems] Cons.IH [OF Cons.prems] by simp
  qed
qed

subsection \<open>Validated configurations\<close>

lemma all_ok_Return: "all_ok f xs = Return ys \<Longrightarrow> list_all2 (\<lambda>x y. f x = Return y) xs ys"
proof (induction xs arbitrary: ys)
  case (Cons x xs)
  from Cons.prems obtain y zs where "f x = Return y" "all_ok f xs = Return zs" "ys = y # zs"
    by (cases "f x"; cases "all_ok f xs") auto
  with Cons.IH show ?case by simp
qed simp

lemma all_ok_total: "(\<forall>x \<in> set xs. \<exists>y. f x = Return y) \<Longrightarrow> \<exists>ys. all_ok f xs = Return ys"
  by (induction xs) force+

lemma findProtectedPaths_mem:
  assumes "findProtectedPaths files pats = Return matched"
  shows "f \<in> set matched \<longleftrightarrow>
           f \<in> set files \<and> (\<exists>pat \<in> set (ALWAYS_PROTECTED_PATHS @ pats). glob_matches pat f = Return True)"
proof -
  obtain ms where ms: "all_ok compileProtectedPathGlob (ALWAYS_PROTECTED_PATHS @ pats) = Return ms"
    and matched: "set matched = {f \<in> set files. \<exists>m \<in> set ms. test m f}"
    using assms by (cases "all_ok compileProtectedPathGlob (ALWAYS_PROTECTED_PATHS @ pats)")
      (auto simp: findProtectedPaths_def list_ex_iff)
  have "(\<exists>m \<in> set ms. test m f) \<longleftrightarrow>
      (\<exists>pat \<in> set (ALWAYS_PROTECTED_PATHS @ pats). glob_matches pat f = Return True)"
    using all_ok_Return [OF ms]
  proof (induction rule: list_all2_induct)
    case (Cons pat pats m ms)
    from compiled_test [OF this(1)] have "glob_matches pat f = Return (test m f)"
      by (auto simp: glob_matches_def)
    with Cons show ?case by auto
  qed simp
  with matched show ?thesis by auto
qed

lemma patterns_error_None:
  "patterns_error i vs = None \<Longrightarrow>
     \<exists>ps. vs = map JStr ps \<and> (\<forall>p \<in> set ps. \<exists>m. compileProtectedPathGlob p = Return m)"
proof (induction vs arbitrary: i)
  case (Cons v vs)
  then have v: "pattern_error i v = None" and "patterns_error (Suc i) vs = None" by (auto split: option.splits)
  from Cons.IH [OF this(2)] obtain ps where ps: "vs = map JStr ps"
    "\<forall>p \<in> set ps. \<exists>m. compileProtectedPathGlob p = Return m" by auto
  from v obtain p m where "v = JStr p" "compileProtectedPathGlob p = Return m"
    by (auto simp: pattern_error_def Let_def split: jsval.splits if_splits sum.splits)
  with ps show ?case by (intro exI [of _ "p # ps"]) auto
qed simp

lemma map_filter_JStr [simp]: "List.map_filter js_string_of (map JStr ps) = ps"
  by (induction ps) (simp_all add: List.map_filter_simps)

lemma valid_config_patterns:
  assumes "validateAutoMergeConfig (JObj r) = None"
  shows "\<forall>p \<in> set (js_strings (js_get r ''protected_paths'')). \<exists>m. compileProtectedPathGlob p = Return m"
proof -
  have "protected_paths_error (js_get r ''protected_paths'') = None"
    using assms by (auto simp: validateAutoMergeConfig_def split: option.splits if_splits)
  then show ?thesis
    by (cases "js_get r ''protected_paths''")
      (auto simp: protected_paths_error_def Let_def split: if_splits dest: patterns_error_None)
qed

lemma propr_actions:
  "glob_actions None (trimTrailingSlashes (normalizePath ''.propr''))
     = Return (map (\<lambda>c. Consume (Literal c)) ''.propr'')"
  by code_simp

lemma literal_lang:
  "glob_lang (map (\<lambda>c. Consume (Literal c)) w) p \<longleftrightarrow>
     map canon (take (length w) p) = map canon w \<and> (length p = length w \<or> (length w < length p \<and> p ! length w = CHR ''/''))"
proof (induction w arbitrary: p)
  case Nil
  then show ?case by (cases p) auto
next
  case (Cons c w)
  then show ?case by (cases p) auto
qed

lemma findProtectedPaths_total:
  assumes "\<forall>p \<in> set pats. \<exists>m. compileProtectedPathGlob p = Return m"
  shows "\<exists>matched. findProtectedPaths files pats = Return matched"
proof -
  have "\<exists>m. compileProtectedPathGlob ''.propr'' = Return m"
    by (simp add: compileProtectedPathGlob_def compile_loop_actions propr_actions)
  with assms have "\<forall>p \<in> set (ALWAYS_PROTECTED_PATHS @ pats). \<exists>m. compileProtectedPathGlob p = Return m"
    by (auto simp: ALWAYS_PROTECTED_PATHS_def)
  from all_ok_total [OF this] show ?thesis by (auto simp: findProtectedPaths_def)
qed

subsection \<open>Properties\<close>

text \<open>
  C13: Compiling a protected-path glob and simulating the automaton over a path answers exactly what
  the reference semantics of the glob says, for every pattern and every path, and a pattern fails to
  compile exactly when the reference reading of it fails.
\<close>

theorem glob_automaton_correct:
  "map_sum id (\<lambda>m. test m path) (compileProtectedPathGlob pattern) = glob_matches pattern path"
proof (cases "compileProtectedPathGlob pattern")
  case (Inl e)
  then show ?thesis
    by (cases "glob_actions None (trimTrailingSlashes (normalizePath pattern))")
      (auto simp: glob_matches_def compileProtectedPathGlob_def compile_loop_actions)
next
  case (Inr m)
  from compiled_test [OF this] Inr show ?thesis by (auto simp: glob_matches_def)
qed

text \<open>
  A pattern that matches a path protects everything below it, and matching ignores letter
  case: a differently cased path cannot slip through.
\<close>

theorem protection_covers_descendants_and_case:
  assumes "compileProtectedPathGlob pattern = Return m" "test m dir" "map canon path = map canon dir"
  shows "test m path \<and> test m (path @ CHR ''/'' # below)"
proof -
  obtain acts where acts: "test m p \<longleftrightarrow> glob_lang acts p" for p using compiled_test [OF assms(1)] by auto
  with assms glob_lang_canon [of path dir acts] glob_lang_descendants [of acts path below]
  show ?thesis by simp
qed


definition sample_matcher :: ProtectedPathMatcher where
  "sample_matcher = (case compileProtectedPathGlob ''Docs/'' of Inr m \<Rightarrow> m | Inl _ \<Rightarrow> \<lparr>nfa = [], accepting = []\<rparr>)"

theorem protection_covers_descendants_and_case_witness:
  "test sample_matcher (''DOCS'' @ CHR ''/'' # ''guide/a.md'')"
proof -
  have "compileProtectedPathGlob ''Docs/'' = Return sample_matcher" "test sample_matcher ''docs''"
    "map canon ''DOCS'' = map canon ''docs''"
    by code_simp+
  from protection_covers_descendants_and_case [OF this] show ?thesis by blast
qed

text \<open>
  Whatever patterns a repository configures, a changed path that is \<open>.propr\<close> or lies below
  it, in any letter case, is among the protected paths.
\<close>

theorem repository_policy_always_protected:
  assumes "findProtectedPaths files patterns = Return matched" "f \<in> set files"
    and "map canon (take 6 f) = map canon ''.propr''" "length f = 6 \<or> (6 < length f \<and> f ! 6 = CHR ''/'')"
  shows "f \<in> set matched"
proof -
  have len: "length ''.propr'' = 6" by simp
  have "glob_lang (map (\<lambda>c. Consume (Literal c)) ''.propr'') f"
    unfolding literal_lang len using assms(3,4) by blast
  then have "glob_matches ''.propr'' f = Return True"
    unfolding glob_matches_def propr_actions map_sum.simps by blast
  then show ?thesis
    using findProtectedPaths_mem [OF assms(1), of f] assms(2) by (simp add: ALWAYS_PROTECTED_PATHS_def)
qed

theorem repository_policy_always_protected_witness:
  "\<exists>matched. findProtectedPaths [''README.md'', ''.Propr/workflow.yml''] [] = Return matched
     \<and> ''.Propr/workflow.yml'' \<in> set matched"
proof -
  let ?files = "[''README.md'', ''.Propr/workflow.yml'']"
  obtain matched where m: "findProtectedPaths ?files [] = Return matched"
    using findProtectedPaths_total [of "[]" ?files] by auto
  have "''.Propr/workflow.yml'' \<in> set matched"
    by (rule repository_policy_always_protected [OF m]) (simp, code_simp+)
  with m show ?thesis by blast
qed

text \<open>
  When auto-merge may be armed: the policy was read and is valid, it is not switched off, the diff is known
  and names a file, and no file matches a protected pattern.
\<close>

definition protected_patterns :: "(string \<times> jsval) list \<Rightarrow> string list" where
  "protected_patterns r = ALWAYS_PROTECTED_PATHS @ js_strings (js_get r ''protected_paths'')"

definition may_arm :: "AutoMergePolicyInput \<Rightarrow> jsval \<Rightarrow> bool" where
  "may_arm policy changedFiles =
     (case policy of
        Policy_invalid _ \<Rightarrow> False
      | Policy_valid given \<Rightarrow>
          (case js_coalesce given (JObj []) of
             JObj r \<Rightarrow>
               validateAutoMergeConfig (JObj r) = None \<and> js_get r ''enabled'' \<noteq> JBool False
               \<and> list_ex (\<lambda>f. f \<noteq> []) (js_strings changedFiles)
               \<and> list_all (\<lambda>f. f = [] \<or> list_all (\<lambda>pat. glob_matches pat f \<noteq> Return True) (protected_patterns r))
                   (js_strings changedFiles)
           | _ \<Rightarrow> False))"

lemma valid_is_record: "validateAutoMergeConfig c = None \<Longrightarrow> \<exists>r. c = JObj r"
  by (cases c) (simp_all add: validateAutoMergeConfig_def)

lemma armed_by_files:
  assumes "validateAutoMergeConfig (JObj r) = None"
  shows "\<exists>matched. findProtectedPaths (filter (\<lambda>f. f \<noteq> []) (js_strings c)) (js_strings (js_get r ''protected_paths''))
           = Return matched
         \<and> (matched = [] \<longleftrightarrow> list_all (\<lambda>f. f = [] \<or> list_all (\<lambda>pat. glob_matches pat f \<noteq> Return True)
               (protected_patterns r)) (js_strings c))"
proof -
  obtain matched where m: "findProtectedPaths (filter (\<lambda>f. f \<noteq> []) (js_strings c))
      (js_strings (js_get r ''protected_paths'')) = Return matched"
    using findProtectedPaths_total [OF valid_config_patterns [OF assms]] by blast
  have "matched = [] \<longleftrightarrow> (\<forall>f. f \<notin> set matched)" by (cases matched) auto
  with m show ?thesis
    unfolding findProtectedPaths_mem [OF m] by (auto simp: list_all_iff protected_patterns_def)
qed

text \<open>
  C17: The decision always returns, and it arms auto-merge exactly when the policy was read and is
  valid, is not disabled, the diff is available and nonempty, and no changed file matches a protected
  pattern by the reference semantics. Every uncertainty fails closed.
\<close>

theorem decision_fails_closed:
  "\<exists>d. decideAutoMerge policy changedFiles opp = Return d
     \<and> (arm d \<longleftrightarrow> may_arm policy changedFiles) \<and> (arm d \<longleftrightarrow> reason d = Armed) \<and> opportunity d = opp"
proof (cases policy)
  case (Policy_valid given)
  let ?config = "js_coalesce given (JObj [])"
  show ?thesis
  proof (cases "validateAutoMergeConfig ?config")
    case None
    from valid_is_record [OF None] obtain r where r: "?config = JObj r" by blast
    from armed_by_files [of r changedFiles] None r obtain matched where
      "findProtectedPaths (filter (\<lambda>f. f \<noteq> []) (js_strings changedFiles)) (js_strings (js_get r ''protected_paths''))
         = Return matched"
      and "matched = [] \<longleftrightarrow> list_all (\<lambda>f. f = [] \<or> list_all (\<lambda>pat. glob_matches pat f \<noteq> Return True)
               (protected_patterns r)) (js_strings changedFiles)" by auto
    moreover have "filter (\<lambda>f. f \<noteq> []) fs = [] \<longleftrightarrow> \<not> list_ex (\<lambda>f. f \<noteq> []) fs" for fs :: "string list"
      by (induction fs) auto
    ultimately show ?thesis
      using None r by (cases changedFiles) (auto simp: decideAutoMerge_def may_arm_def Policy_valid skip_def Let_def)
  next
    case (Some e)
    then show ?thesis
      by (auto simp: decideAutoMerge_def may_arm_def Policy_valid skip_def Let_def split: jsval.splits)
  qed
qed (simp add: decideAutoMerge_def may_arm_def skip_def)


text \<open>A directory pattern also protects the directory's own name, which the pattern with \<open>/**\<close> does not.\<close>

lemma directory_pattern_wider_than_double_star:
  "glob_matches ''docs'' ''docs'' = Return True \<and> glob_matches ''docs/'' ''docs'' = Return True
 \<and> glob_matches ''docs/**'' ''docs'' = Return False"
  by code_simp

end
