(* ===== verification/Network.thy ===== *)
theory Network
  imports Prelude
begin

section \<open>Agent networking\<close>

text \<open>
  The model of \<^verbatim>\<open>packages/core/src/network/egressAllowlist.ts\<close> (parsing, validating and
  compiling host allowlists) and \<^verbatim>\<open>networkPolicy.ts\<close> beside it (the instance policy and how a
  repository may change it). Node's \<open>isIP\<close> and \<open>SocketAddress\<close> are the record \<open>node_net\<close>,
  an argument of every function that calls them; \<open>socketAddress\<close> is \<open>None\<close> where the constructor throws.
\<close>

record node_net =
  isIP :: "string \<Rightarrow> nat"
  socketAddress :: "string \<Rightarrow> nat \<Rightarrow> string option"

subsection \<open>Allowlist entries\<close>

definition DEFAULT_EGRESS_PORTS :: "nat list" where
  "DEFAULT_EGRESS_PORTS = [80, 443]"

datatype AgentType = Claude | Codex | Antigravity | Opencode | Vibe

definition COMMON_HOSTS :: "string list" where
  "COMMON_HOSTS =
     [''github.com'', ''api.github.com'', ''codeload.github.com'', ''uploads.github.com'',
      ''objects.githubusercontent.com'', ''raw.githubusercontent.com'', ''media.githubusercontent.com'',
      ''github-cloud.githubusercontent.com'', ''registry.npmjs.org'', ''registry.yarnpkg.com'', ''pypi.org'',
      ''files.pythonhosted.org'']"

fun AGENT_EGRESS_BASE_HOSTS :: "AgentType \<Rightarrow> string list" where
  "AGENT_EGRESS_BASE_HOSTS Claude = [''api.anthropic.com'', ''console.anthropic.com'', ''platform.claude.com'']"
| "AGENT_EGRESS_BASE_HOSTS Codex = [''api.openai.com'', ''auth.openai.com'', ''chatgpt.com'']"
| "AGENT_EGRESS_BASE_HOSTS Antigravity =
     [''generativelanguage.googleapis.com'', ''cloudcode-pa.googleapis.com'', ''oauth2.googleapis.com'']"
| "AGENT_EGRESS_BASE_HOSTS Opencode =
     [''opencode.ai'', ''models.dev'', ''api.anthropic.com'', ''api.openai.com'', ''openrouter.ai'',
      ''generativelanguage.googleapis.com'']"
| "AGENT_EGRESS_BASE_HOSTS Vibe = [''api.mistral.ai'']"

definition baseEgressAllowlist :: "AgentType \<Rightarrow> string list" where
  "baseEgressAllowlist agentType = js_unique (COMMON_HOSTS @ AGENT_EGRESS_BASE_HOSTS agentType)"

record ParsedEntry =
  entry_host :: string
  wildcard :: bool
  entry_port :: "nat option"

definition canonicalizeIpLiteral :: "node_net \<Rightarrow> string \<Rightarrow> string" where
  "canonicalizeIpLiteral net host =
     (let family = isIP net host
      in if family = 0 then host
         else let zone = dropWhile (\<lambda>c. c \<noteq> CHR ''%'') host;
                  address = takeWhile (\<lambda>c. c \<noteq> CHR ''%'') host
              in case socketAddress net address (if family = 6 then 6 else 4) of
                   None \<Rightarrow> host
                 | Some canonical \<Rightarrow> canonical @ zone)"

definition strip_brackets :: "string \<Rightarrow> string" where
  "strip_brackets v = (if v \<noteq> [] \<and> hd v = CHR ''['' \<and> last v = CHR '']'' then butlast (tl v) else v)"

definition strip_dot :: "string \<Rightarrow> string" where
  "strip_dot v = (if v \<noteq> [] \<and> last v = CHR ''.'' then butlast v else v)"

definition normalizeEgressHost :: "node_net \<Rightarrow> string \<Rightarrow> string" where
  "normalizeEgressHost net host = canonicalizeIpLiteral net (strip_dot (strip_brackets (js_lower (js_trim host))))"

definition label_char :: "char \<Rightarrow> bool" where
  "label_char c = (let n = code_of c in (97 \<le> n \<and> n \<le> 122) \<or> (48 \<le> n \<and> n \<le> 57) \<or> n = 45)"

definition LABEL :: "string \<Rightarrow> bool" where
  "LABEL s = (s \<noteq> [] \<and> length s \<le> 63 \<and> list_all label_char s \<and> hd s \<noteq> CHR ''-'' \<and> last s \<noteq> CHR ''-'')"

definition isHostname :: "string \<Rightarrow> bool" where
  "isHostname host =
     (let labels = js_split CHR ''.'' host
      in length host \<le> 253 \<and> length labels \<ge> 2 \<and> list_all LABEL labels)"

text \<open>The regular expression \<open>/^\[([^\]]+)\](?::(\d+))?$/\<close>: the bracketed text and the digits of the port.\<close>

definition bracketed :: "string \<Rightarrow> (string \<times> string option) option" where
  "bracketed v =
     (if v \<noteq> [] \<and> hd v = CHR ''[''
      then let body = takeWhile (\<lambda>c. c \<noteq> CHR '']'') (tl v);
               rest = dropWhile (\<lambda>c. c \<noteq> CHR '']'') (tl v)
           in if body = [] \<or> rest = [] then None
              else if tl rest = [] then Some (body, None)
              else if hd (tl rest) = CHR '':'' \<and> tl (tl rest) \<noteq> [] \<and> list_all js_digit (tl (tl rest))
              then Some (body, Some (tl (tl rest)))
              else None
      else None)"

text \<open>The regular expression \<open>/^(.*):(\d+)$/\<close>; a dot matches no line terminator.\<close>

definition port_match :: "string \<Rightarrow> (string \<times> string) option" where
  "port_match v =
     (let digits = rev (takeWhile (\<lambda>c. c \<noteq> CHR '':'') (rev v));
          front = rev (drop 1 (dropWhile (\<lambda>c. c \<noteq> CHR '':'') (rev v)))
      in if CHR '':'' \<in> set v \<and> digits \<noteq> [] \<and> list_all js_digit digits
            \<and> list_all (\<lambda>c. code_of c \<noteq> 10 \<and> code_of c \<noteq> 13) front
         then Some (front, digits) else None)"

definition split_port :: "node_net \<Rightarrow> string \<Rightarrow> string \<times> nat option" where
  "split_port net v =
     (case bracketed v of
        Some (b, p) \<Rightarrow> (b, map_option js_number_of_digits p)
      | None \<Rightarrow>
          (if isIP net v \<noteq> 6
           then case port_match v of Some (h, p) \<Rightarrow> (h, Some (js_number_of_digits p)) | None \<Rightarrow> (v, None)
           else (v, None)))"

definition check_hostname :: "bool \<Rightarrow> string \<Rightarrow> nat option \<Rightarrow> ParsedEntry result" where
  "check_hostname wild host port =
     (if CHR ''*'' \<in> set host then Throw (''may only use a leading '' @ quoted ''*.'' @ '' wildcard'')
      else if \<not> isHostname host
      then Throw (''must be a hostname with at least two labels, such as ''
                  @ quoted ''registry.npmjs.org'' @ '' or '' @ quoted ''*.example.com'')
      else Return \<lparr>entry_host = host, wildcard = wild, entry_port = port\<rparr>)"

definition check_host :: "node_net \<Rightarrow> string \<Rightarrow> nat option \<Rightarrow> ParsedEntry result" where
  "check_host net value port =
     (if isIP net value \<noteq> 0 then Return \<lparr>entry_host = value, wildcard = False, entry_port = port\<rparr>
      else if prefix ''*.'' value then check_hostname True (drop 2 value) port
      else check_hostname False value port)"

definition parseEgressAllowEntry :: "node_net \<Rightarrow> string \<Rightarrow> ParsedEntry result" where
  "parseEgressAllowEntry net entry =
     (if js_trim entry = [] then Throw ''must be a nonempty hostname''
      else case split_port net (js_lower (js_trim entry)) of
        (v, port) \<Rightarrow>
          (if (case port of None \<Rightarrow> False | Some p \<Rightarrow> p < 1 \<or> p > 65535) then Throw ''has an invalid port''
           else check_host net (normalizeEgressHost net v) port))"

fun allowlist_error :: "node_net \<Rightarrow> string \<Rightarrow> nat \<Rightarrow> jsval list \<Rightarrow> string option" where
  "allowlist_error net field index [] = None"
| "allowlist_error net field index (v # vs) =
     (case (case v of JStr s \<Rightarrow> parseEgressAllowEntry net s | _ \<Rightarrow> Throw ''must be a nonempty hostname'') of
        Inl e \<Rightarrow> Some (field @ ''['' @ show_nat index @ ''] '' @ e)
      | Inr _ \<Rightarrow> allowlist_error net field (Suc index) vs)"

definition validateEgressAllowlist :: "node_net \<Rightarrow> jsval \<Rightarrow> string \<Rightarrow> string option" where
  "validateEgressAllowlist net entries field =
     (case entries of
        JArr es \<Rightarrow> (if length es > 500 then Some (field @ '' must be an array of at most 500 hostnames'')
                   else allowlist_error net field 0 es)
      | _ \<Rightarrow> Some (field @ '' must be an array of at most 500 hostnames''))"

record EgressAllowlist =
  entries :: "string list"
  parsed_entries :: "ParsedEntry list"

definition compileEgressAllowlist :: "node_net \<Rightarrow> string list \<Rightarrow> EgressAllowlist" where
  "compileEgressAllowlist net es =
     \<lparr>entries = js_unique (map (\<lambda>e. js_lower (js_trim e)) es),
      parsed_entries = List.map_filter (\<lambda>e. case parseEgressAllowEntry net e of Inl _ \<Rightarrow> None | Inr p \<Rightarrow> Some p) es\<rparr>"

definition entry_allows :: "node_net \<Rightarrow> string \<Rightarrow> nat \<Rightarrow> ParsedEntry \<Rightarrow> bool" where
  "entry_allows net host port e =
     ((case entry_port e of Some p \<Rightarrow> p = port | None \<Rightarrow> port \<in> set DEFAULT_EGRESS_PORTS)
      \<and> (if wildcard e then isIP net host = 0 \<and> suffix (''.'' @ entry_host e) host else host = entry_host e))"

definition host_allowed :: "node_net \<Rightarrow> EgressAllowlist \<Rightarrow> string \<Rightarrow> nat \<Rightarrow> bool" where
  "host_allowed net al host port = (host \<noteq> [] \<and> list_ex (entry_allows net host port) (parsed_entries al))"

definition allows :: "node_net \<Rightarrow> EgressAllowlist \<Rightarrow> string \<Rightarrow> nat \<Rightarrow> bool" where
  "allows net al rawHost port = host_allowed net al (normalizeEgressHost net rawHost) port"

subsection \<open>Instance and repository policy\<close>

datatype AgentNetworkMode = Open_network | Restricted

record InstanceNetworkPolicy =
  instance_mode :: AgentNetworkMode
  enforced :: bool
  instance_allow :: "string list"
  ignoreRepositoryAllow :: bool

record RepositoryNetworkConfig =
  repo_mode :: "AgentNetworkMode option"
  repo_allow :: "string list option"

datatype network_source = From_instance | From_workflow | Instance_enforced

record ResolvedNetworkPolicy =
  net_mode :: AgentNetworkMode
  net_source :: network_source
  net_allow :: "string list"
  instanceAllow :: "string list"
  net_note :: "string option"

definition parseAgentNetworkMode :: "jsval \<Rightarrow> AgentNetworkMode option" where
  "parseAgentNetworkMode v =
     (case v of
        JStr s \<Rightarrow> (let m = js_lower (js_trim s)
                   in if m = ''open'' then Some Open_network else if m = ''restricted'' then Some Restricted else None)
      | _ \<Rightarrow> None)"

definition parseBoolean :: "jsval \<Rightarrow> bool option" where
  "parseBoolean v =
     (case v of
        JBool b \<Rightarrow> Some b
      | JStr s \<Rightarrow> (let n = js_lower (js_trim s)
                   in if n \<in> set [''1'', ''true'', ''yes'', ''on''] then Some True
                      else if n \<in> set [''0'', ''false'', ''no'', ''off'', ''''] then Some False else None)
      | _ \<Rightarrow> None)"

definition parseAllowList :: "node_net \<Rightarrow> jsval \<Rightarrow> string list option" where
  "parseAllowList net v =
     (let l = (case v of JStr s \<Rightarrow> JArr (map JStr (js_words (\<lambda>c. js_space c \<or> c = CHR '','') s)) | _ \<Rightarrow> v)
      in case validateEgressAllowlist net l ''agent_network_allow'' of
           Some _ \<Rightarrow> None
         | None \<Rightarrow> (case l of
                     JArr vs \<Rightarrow> Some (js_unique (map (\<lambda>e. js_lower (js_trim e)) (List.map_filter js_string_of vs)))
                   | _ \<Rightarrow> None))"

definition given :: "string option \<Rightarrow> bool" where
  "given v = (case v of None \<Rightarrow> False | Some s \<Rightarrow> js_trim s \<noteq> [])"

definition apply_parsed :: "('v \<Rightarrow> 'p \<Rightarrow> 'p) \<Rightarrow> 'v option \<Rightarrow> 'p \<Rightarrow> 'p" where
  "apply_parsed f v p = (case v of None \<Rightarrow> p | Some x \<Rightarrow> f x p)"

definition env_value :: "(string \<times> string) list \<Rightarrow> string \<Rightarrow> jsval" where
  "env_value env k = (case map_of env k of None \<Rightarrow> JUndefined | Some s \<Rightarrow> JStr s)"

definition set_mode :: "AgentNetworkMode \<Rightarrow> InstanceNetworkPolicy \<Rightarrow> InstanceNetworkPolicy" where
  "set_mode m p = p\<lparr>instance_mode := m\<rparr>"

definition set_enforced :: "bool \<Rightarrow> InstanceNetworkPolicy \<Rightarrow> InstanceNetworkPolicy" where
  "set_enforced b p = p\<lparr>enforced := b\<rparr>"

definition set_allow :: "string list \<Rightarrow> InstanceNetworkPolicy \<Rightarrow> InstanceNetworkPolicy" where
  "set_allow a p = p\<lparr>instance_allow := a\<rparr>"

definition set_ignore :: "bool \<Rightarrow> InstanceNetworkPolicy \<Rightarrow> InstanceNetworkPolicy" where
  "set_ignore b p = p\<lparr>ignoreRepositoryAllow := b\<rparr>"

definition resolveInstanceNetworkPolicyEnvDefault ::
  "node_net \<Rightarrow> (string \<times> string) list \<Rightarrow> InstanceNetworkPolicy" where
  "resolveInstanceNetworkPolicyEnvDefault net env =
     (let p0 = \<lparr>instance_mode = Open_network, enforced = False, instance_allow = [], ignoreRepositoryAllow = False\<rparr>;
          p1 = (if given (map_of env ''AGENT_NETWORK_MODE'')
                then apply_parsed set_mode (parseAgentNetworkMode (env_value env ''AGENT_NETWORK_MODE'')) p0 else p0);
          p2 = apply_parsed set_enforced (parseBoolean (env_value env ''AGENT_NETWORK_MODE_ENFORCED'')) p1;
          p3 = (if given (map_of env ''AGENT_NETWORK_ALLOW'')
                then apply_parsed set_allow (parseAllowList net (env_value env ''AGENT_NETWORK_ALLOW'')) p2 else p2)
      in apply_parsed set_ignore (parseBoolean (env_value env ''AGENT_NETWORK_IGNORE_REPOSITORY_ALLOW'')) p3)"

definition read_setting :: "jsval \<Rightarrow> (jsval \<Rightarrow> 'v option) \<Rightarrow> ('v \<Rightarrow> 'p \<Rightarrow> 'p) \<Rightarrow> 'p \<Rightarrow> 'p" where
  "read_setting v parse apply p = (if js_nullish v then p else apply_parsed apply (parse v) p)"

definition resolveInstanceNetworkPolicy ::
  "node_net \<Rightarrow> (string \<times> jsval) list \<Rightarrow> (string \<times> string) list \<Rightarrow> InstanceNetworkPolicy" where
  "resolveInstanceNetworkPolicy net stored env =
     (let p0 = resolveInstanceNetworkPolicyEnvDefault net env;
          p1 = read_setting (js_get stored ''agent_network_mode'') parseAgentNetworkMode set_mode p0;
          p2 = read_setting (js_get stored ''agent_network_mode_enforced'') parseBoolean set_enforced p1;
          p3 = read_setting (js_get stored ''agent_network_allow'') (parseAllowList net) set_allow p2
      in read_setting (js_get stored ''agent_network_ignore_repository_allow'') parseBoolean set_ignore p3)"

definition validateAgentNetworkSetting :: "node_net \<Rightarrow> string \<Rightarrow> jsval \<Rightarrow> string option" where
  "validateAgentNetworkSetting net key v =
     (if v = JNull then None
      else if key = ''agent_network_mode''
      then (case parseAgentNetworkMode v of Some _ \<Rightarrow> None | None \<Rightarrow> Some (''agent_network_mode must be '' @ quoted ''open'' @ '' or '' @ quoted ''restricted''))
      else if key = ''agent_network_mode_enforced'' \<or> key = ''agent_network_ignore_repository_allow''
      then (case v of JBool _ \<Rightarrow> None | _ \<Rightarrow> Some (key @ '' must be a boolean''))
      else validateEgressAllowlist net v ''agent_network_allow'')"

definition NOTE_MODE :: string where
  "NOTE_MODE = ''.propr/workflow.yml requested network.mode: open, but this instance enforces restricted networking''"

definition NOTE_ALLOW :: string where
  "NOTE_ALLOW = ''.propr/workflow.yml network.allow was ignored: this instance enforces restricted networking with its own allowlist only''"

definition resolveNetworkPolicy ::
  "InstanceNetworkPolicy \<Rightarrow> RepositoryNetworkConfig option \<Rightarrow> ResolvedNetworkPolicy" where
  "resolveNetworkPolicy inst repository =
     (let enf = (instance_mode inst = Restricted \<and> enforced inst);
          repositoryAllow = map (\<lambda>e. js_lower (js_trim e))
            (case repository of None \<Rightarrow> [] | Some r \<Rightarrow> (case repo_allow r of None \<Rightarrow> [] | Some a \<Rightarrow> a));
          ignoredAllow = (enf \<and> ignoreRepositoryAllow inst
                          \<and> list_ex (\<lambda>e. e \<notin> set (instance_allow inst)) repositoryAllow);
          allow = js_unique (instance_allow inst @ (if enf \<and> ignoreRepositoryAllow inst then [] else repositoryAllow));
          requested = (case repository of None \<Rightarrow> None | Some r \<Rightarrow> repo_mode r);
          base = \<lparr>net_mode = Restricted, net_source = Instance_enforced, net_allow = allow,
                  instanceAllow = instance_allow inst, net_note = None\<rparr>
      in if enf
         then base\<lparr>net_note :=
                (if requested = Some Open_network \<and> ignoredAllow then Some (NOTE_MODE @ ''; '' @ NOTE_ALLOW)
                 else if requested = Some Open_network then Some NOTE_MODE
                 else if ignoredAllow then Some NOTE_ALLOW else None)\<rparr>
         else case requested of
                Some m \<Rightarrow> base\<lparr>net_mode := m, net_source := From_workflow\<rparr>
              | None \<Rightarrow> base\<lparr>net_mode := instance_mode inst, net_source := From_instance\<rparr>)"

subsection \<open>Parsed entries\<close>

definition entry_ok :: "node_net \<Rightarrow> ParsedEntry \<Rightarrow> bool" where
  "entry_ok net e \<longleftrightarrow>
     (case entry_port e of None \<Rightarrow> True | Some p \<Rightarrow> 1 \<le> p \<and> p \<le> 65535)
   \<and> (isIP net (entry_host e) \<noteq> 0 \<and> \<not> wildcard e
      \<or> isHostname (entry_host e) \<and> CHR ''*'' \<notin> set (entry_host e))"

lemma parseEgressAllowEntry_ok:
  "parseEgressAllowEntry net entry = Return e \<Longrightarrow> entry_ok net e"
  by (auto simp: parseEgressAllowEntry_def check_host_def check_hostname_def entry_ok_def split: if_splits prod.splits option.splits)

lemma in_parsed_entries:
  "e \<in> set (parsed_entries (compileEgressAllowlist net es)) \<longleftrightarrow>
     (\<exists>entry \<in> set es. parseEgressAllowEntry net entry = Return e)"
  by (force simp: compileEgressAllowlist_def List.map_filter_def split: sum.splits)

lemma isHostname_labels: "isHostname host \<Longrightarrow> 2 \<le> length (js_split CHR ''.'' host)"
  by (simp add: isHostname_def Let_def)

lemma js_space_lower [simp]: "js_space (js_lower_char c) = js_space c"
  by (auto simp: js_space_def js_lower_char_def code_of_def Let_def)

lemma js_trim_lower: "js_trim (js_lower s) = js_lower (js_trim s)"
  by (simp add: js_trim_def js_trim_start_def js_trim_end_def js_lower_def rev_map dropWhile_map comp_def)

lemma js_trim_end_idem [simp]: "js_trim_end (js_trim_end s) = js_trim_end s"
  by (simp add: js_trim_end_def)

lemma js_trim_idem [simp]: "js_trim (js_trim s) = js_trim s"
proof -
  let ?t = "js_trim_start s"
  have "js_trim_start (js_trim_end ?t) = js_trim_end ?t"
  proof (cases "js_trim_end ?t")
    case (Cons c cs)
    have "?t = js_trim_end ?t @ rev (takeWhile js_space (rev ?t))"
      unfolding js_trim_end_def by (metis rev_append rev_rev_ident takeWhile_dropWhile_id)
    with Cons have "hd ?t = c" "?t \<noteq> []" by (metis append_Cons list.sel(1), auto)
    then have "\<not> js_space c" unfolding js_trim_start_def using hd_dropWhile by blast
    with Cons show ?thesis by (simp add: js_trim_start_def)
  qed (simp add: js_trim_start_def)
  then show ?thesis by (simp add: js_trim_def)
qed

lemma parse_normalized: "parseEgressAllowEntry net (js_lower (js_trim e)) = parseEgressAllowEntry net e"
  by (simp add: parseEgressAllowEntry_def js_trim_lower)

lemma allowlist_error_None:
  "allowlist_error net field i vs = None \<longleftrightarrow>
     (\<forall>v \<in> set vs. \<exists>s e. v = JStr s \<and> parseEgressAllowEntry net s = Return e)"
  by (induction vs arbitrary: i) (auto split: jsval.splits sum.splits)

lemma length_js_unique: "length (js_unique xs) \<le> length xs"
  by (induction xs rule: js_unique.induct) (auto intro: order_trans [OF _ length_filter_le])

lemma map_filter_strings:
  "\<forall>v \<in> set vs. \<exists>s. v = JStr s \<Longrightarrow> map JStr (List.map_filter js_string_of vs) = vs"
  by (induction vs) (auto simp: List.map_filter_simps)

subsection \<open>Properties\<close>

text \<open>
  C18: What a compiled allowlist lets through is named by one of its valid entries: the port is the
  entry's own, or 80 or 443; an exact entry names the normalized host itself; a wildcard has at least two
  labels, never matches an IP literal, and never the bare domain it names.
\<close>

theorem egress_only_to_listed_hosts:
  assumes "allows net (compileEgressAllowlist net es) rawHost port"
  shows "\<exists>entry \<in> set es. \<exists>e. parseEgressAllowEntry net entry = Return e
     \<and> (case entry_port e of Some p \<Rightarrow> port = p \<and> 1 \<le> p \<and> p \<le> 65535 | None \<Rightarrow> port = 80 \<or> port = 443)
     \<and> (if wildcard e
        then isIP net (normalizeEgressHost net rawHost) = 0 \<and> 2 \<le> length (js_split CHR ''.'' (entry_host e))
           \<and> normalizeEgressHost net rawHost \<noteq> entry_host e
           \<and> suffix (''.'' @ entry_host e) (normalizeEgressHost net rawHost)
        else normalizeEgressHost net rawHost = entry_host e)"
proof -
  let ?host = "normalizeEgressHost net rawHost"
  obtain e entry where e: "entry \<in> set es" "parseEgressAllowEntry net entry = Return e" "entry_allows net ?host port e"
    using assms by (auto simp: allows_def host_allowed_def list_ex_iff in_parsed_entries)
  have ok: "entry_ok net e" by (rule parseEgressAllowEntry_ok [OF e(2)])
  have port: "case entry_port e of Some p \<Rightarrow> port = p \<and> 1 \<le> p \<and> p \<le> 65535 | None \<Rightarrow> port = 80 \<or> port = 443"
    using e(3) ok by (auto simp: entry_allows_def entry_ok_def DEFAULT_EGRESS_PORTS_def split: option.splits)
  have "?host \<noteq> entry_host e" if "suffix (''.'' @ entry_host e) ?host"
    using suffix_length_le [OF that] by auto
  with e(3) ok isHostname_labels [of "entry_host e"] show ?thesis
    by (intro bexI [OF _ e(1)] exI [of _ e] conjI e(2) port)
      (auto simp: entry_allows_def entry_ok_def)
qed

text \<open>A network library without IP literals, for concrete inputs.\<close>

definition sample_net :: node_net where
  "sample_net = \<lparr>isIP = (\<lambda>h. if h = ''10.0.0.1'' then 4 else 0), socketAddress = (\<lambda>a _. Some a)\<rparr>"

theorem egress_only_to_listed_hosts_witness:
  "allows sample_net (compileEgressAllowlist sample_net [''*.b.io'', ''x.org:8080'']) ''A.b.Io'' 443
 \<and> (\<exists>entry \<in> set [''*.b.io'', ''x.org:8080'']. \<exists>e. parseEgressAllowEntry sample_net entry = Return e)
 \<and> \<not> allows sample_net (compileEgressAllowlist sample_net [''*.b.io'', ''x.org:8080'']) ''b.io'' 443"
proof -
  have a: "allows sample_net (compileEgressAllowlist sample_net [''*.b.io'', ''x.org:8080'']) ''A.b.Io'' 443"
    "\<not> allows sample_net (compileEgressAllowlist sample_net [''*.b.io'', ''x.org:8080'']) ''b.io'' 443"
    by code_simp+
  from egress_only_to_listed_hosts [OF a(1)] a show ?thesis by blast
qed

text \<open>
  A stored allowlist that parses is normalized to a list that validates again as it stands, and
  that compiles to the same decisions as the list that was given.
\<close>

theorem parsed_allowlist_is_stable:
  assumes "parseAllowList net (JArr (map JStr raw)) = Some al"
  shows "validateEgressAllowlist net (JArr (map JStr al)) field = None
       \<and> allows net (compileEgressAllowlist net al) host port = allows net (compileEgressAllowlist net raw) host port"
proof -
  have len: "length raw \<le> 500" and raw: "\<forall>s \<in> set raw. \<exists>e. parseEgressAllowEntry net s = Return e"
    and al: "al = js_unique (map (\<lambda>e. js_lower (js_trim e)) (List.map_filter js_string_of (map JStr raw)))"
    using assms by (auto simp: parseAllowList_def validateEgressAllowlist_def allowlist_error_None Let_def
        split: option.splits if_splits)
  have al: "al = js_unique (map (\<lambda>e. js_lower (js_trim e)) raw)"
    unfolding al by (simp add: List.map_filter_def comp_def)
  have "length al \<le> 500" using len length_js_unique [of "map (\<lambda>e. js_lower (js_trim e)) raw"] by (simp add: al)
  moreover have "\<forall>s \<in> set al. \<exists>e. parseEgressAllowEntry net s = Return e"
    using raw by (auto simp: al parse_normalized)
  ultimately have "validateEgressAllowlist net (JArr (map JStr al)) field = None"
    by (auto simp: validateEgressAllowlist_def allowlist_error_None)
  moreover have "set (parsed_entries (compileEgressAllowlist net al)) = set (parsed_entries (compileEgressAllowlist net raw))"
    by (auto simp: set_eq_iff in_parsed_entries al parse_normalized)
  ultimately show ?thesis by (simp add: allows_def host_allowed_def list_ex_iff)
qed

theorem parsed_allowlist_is_stable_witness:
  "validateEgressAllowlist sample_net (JArr (map JStr [''pypi.org''])) ''f'' = None"
proof -
  have "parseAllowList sample_net (JArr (map JStr ['' PyPI.org '', ''pypi.org''])) = Some [''pypi.org'']" by code_simp
  from parsed_allowlist_is_stable [OF this] show ?thesis by blast
qed

text \<open>
  A run has open networking exactly when the instance does not enforce restriction and either the
  repository asked for it or, the repository asking for nothing, the instance default is open. An
  enforcing instance that ignores repository hosts lets through its own hosts only; otherwise the
  repository's are added, and the instance's own entries are always the ones recorded as such.
\<close>

theorem enforced_restriction_cannot_be_relaxed:
  "(net_mode (resolveNetworkPolicy inst repository) = Open_network \<longleftrightarrow>
      \<not> (instance_mode inst = Restricted \<and> enforced inst)
      \<and> (case repository of None \<Rightarrow> None | Some r \<Rightarrow> repo_mode r) \<in>
          {Some Open_network} \<union> (if instance_mode inst = Open_network then {None} else {}))
 \<and> set (net_allow (resolveNetworkPolicy inst repository)) =
     set (instance_allow inst)
     \<union> (if instance_mode inst = Restricted \<and> enforced inst \<and> ignoreRepositoryAllow inst then {}
        else (\<lambda>e. js_lower (js_trim e)) ` set (case repository of None \<Rightarrow> []
               | Some r \<Rightarrow> (case repo_allow r of None \<Rightarrow> [] | Some a \<Rightarrow> a)))
 \<and> instanceAllow (resolveNetworkPolicy inst repository) = instance_allow inst"
  by (cases "instance_mode inst") (auto simp: resolveNetworkPolicy_def Let_def split: option.splits)

end
