(* ===== verification/Cron.thy ===== *)
theory Cron
  imports Prelude
begin

section \<open>Cron schedules\<close>

text \<open>
  The model of \<^verbatim>\<open>packages/shared/src/cronSchedule.ts\<close>: the parser of five-field cron expressions,
  the search for the next occurrence, and the validation of automation schedules. A \<open>Date\<close> is its time
  value, an \<^typ>\<open>int\<close> of milliseconds since the epoch; the calendar functions follow the
  definitions of the ECMAScript specification (\<open>DayFromYear\<close>, \<open>YearFromTime\<close>, \<open>MonthFromTime\<close>,
  \<open>MakeDay\<close>), \<open>Date.UTC\<close> included, which reads the years 0 to 99 as 1900 to 1999. The bound on
  time values (\<open>8.64e15\<close>) is not modelled. A set of field values is a list in insertion order.
\<close>

subsection \<open>The calendar\<close>

definition MINUTE_MS :: int where "MINUTE_MS = 60000"
definition DAY_MS :: int where "DAY_MS = 24 * 60 * MINUTE_MS"

definition Day :: "int \<Rightarrow> int" where "Day t = t div DAY_MS"

definition DayFromYear :: "int \<Rightarrow> int" where
  "DayFromYear y = 365 * (y - 1970) + (y - 1969) div 4 - (y - 1901) div 100 + (y - 1601) div 400"

definition leap :: "int \<Rightarrow> bool" where
  "leap y = (y mod 4 = 0 \<and> (y mod 100 \<noteq> 0 \<or> y mod 400 = 0))"

lemma int_div_succ:
  assumes "0 < (c::int)"
  shows "(x + 1) div c = x div c + (if (x + 1) mod c = 0 then 1 else 0)"
proof -
  have x: "x = c * (x div c) + x mod c" "0 \<le> x mod c" "x mod c < c" using assms by simp_all
  show ?thesis
  proof (cases "x mod c + 1 = c")
    case True
    with x(1) have e: "x + 1 = c * (x div c + 1)" unfolding distrib_left by linarith
    then have "(x + 1) mod c = 0" "(x + 1) div c = x div c + 1"
      using assms by (simp_all only: e mod_mult_self1_is_0 nonzero_mult_div_cancel_left)
    then show ?thesis by simp
  next
    case False
    with x have r: "0 \<le> x mod c + 1" "x mod c + 1 < c" by auto
    have "x + 1 = c * (x div c) + (x mod c + 1)" using x(1) by linarith
    then have "(x + 1) div c = x div c" "(x + 1) mod c = x mod c + 1"
      using int_div_pos_eq [of "x + 1" c "x div c" "x mod c + 1"] int_mod_pos_eq [of "x + 1" c "x div c" "x mod c + 1"] r
      by simp_all
    with r x show ?thesis by simp
  qed
qed

lemma leap_days:
  assumes "y mod 400 = 0 \<Longrightarrow> y mod 100 = 0" "y mod 100 = 0 \<Longrightarrow> y mod 4 = (0::int)"
  shows "(if y mod 4 = 0 then 1 else 0) - (if y mod 100 = 0 then 1 else 0) + (if y mod 400 = 0 then 1 else 0)
       = (if leap y then 1 else (0::int))"
  using assms unfolding leap_def by (cases "y mod 4 = 0"; cases "y mod 100 = 0"; cases "y mod 400 = 0") simp_all

lemma year_mods:
  "(y - 1968) mod 4 = y mod 4" "(y - 1900) mod 100 = y mod 100" "(y - 1600) mod 400 = y mod (400::int)"
  using mod_mult_self1 [of y "-492" 4] mod_mult_self1 [of y "-19" 100] mod_mult_self1 [of y "-4" 400] by simp_all
lemma year_divs:
  "(y - 1968) div 4 = (y - 1969) div (4::int) + (if y mod 4 = 0 then 1 else 0)"
  "(y - 1900) div 100 = (y - 1901) div (100::int) + (if y mod 100 = 0 then 1 else 0)"
  "(y - 1600) div 400 = (y - 1601) div (400::int) + (if y mod 400 = 0 then 1 else 0)"
proof -
  have e: "y - 1969 + 1 = y - 1968" "y - 1901 + 1 = y - 1900" "y - 1601 + 1 = y - 1600" by simp_all
  have p: "0 < (4::int)" "0 < (100::int)" "0 < (400::int)" by simp_all
  show "(y - 1968) div 4 = (y - 1969) div (4::int) + (if y mod 4 = 0 then 1 else 0)"
    using int_div_succ [OF p(1), of "y - 1969"] unfolding e year_mods .
  show "(y - 1900) div 100 = (y - 1901) div (100::int) + (if y mod 100 = 0 then 1 else 0)"
    using int_div_succ [OF p(2), of "y - 1901"] unfolding e year_mods .
  show "(y - 1600) div 400 = (y - 1601) div (400::int) + (if y mod 400 = 0 then 1 else 0)"
    using int_div_succ [OF p(3), of "y - 1601"] unfolding e year_mods .
qed
lemma year_dvds: "y mod 400 = 0 \<Longrightarrow> y mod 100 = (0::int)" "y mod 100 = 0 \<Longrightarrow> y mod 4 = (0::int)"
  unfolding mod_eq_0_iff_dvd by (rule dvd_trans [of 100 400 y]; simp) (rule dvd_trans [of 4 100 y]; simp)

lemma DayFromYear_step: "DayFromYear (y + 1) = DayFromYear y + (if leap y then 366 else 365)"
proof -
  define n n4 n100 n400 :: int where "n = (if leap y then 1 else 0)" and "n4 = (if y mod 4 = 0 then 1 else 0)"
    and "n100 = (if y mod 100 = 0 then 1 else 0)" and "n400 = (if y mod 400 = 0 then 1 else 0)"
  have n: "n4 - n100 + n400 = n"
    unfolding n_def n4_def n100_def n400_def by (rule leap_days [OF year_dvds])
  have s: "y + 1 - 1969 = y - 1968" "y + 1 - 1901 = y - 1900" "y + 1 - 1601 = y - 1600" by simp_all
  have sum: "365 * (y + 1 - 1970) + (a + n4) - (b + n100) + (c + n400) = 365 * (y - 1970) + a - b + c + 365 + n" for a b c
    using n by simp
  have "DayFromYear (y + 1) = DayFromYear y + 365 + n"
    unfolding DayFromYear_def s year_divs n4_def [symmetric] n100_def [symmetric] n400_def [symmetric] by (rule sum)
  then show ?thesis unfolding n_def by (cases "leap y") simp_all
qed

text \<open>The largest year that starts on or before the day, searched upwards from an estimate from below.\<close>

function year_search :: "int \<Rightarrow> int \<Rightarrow> int" where
  "year_search d y = (if DayFromYear (y + 1) \<le> d then year_search d (y + 1) else y)"
  by pat_completeness auto
termination
  by (relation "measure (\<lambda>(d, y). nat (d - DayFromYear y))") (auto simp: DayFromYear_step split: if_splits)

declare year_search.simps [simp del]

definition YearFromDay :: "int \<Rightarrow> int" where
  "YearFromDay d = year_search d (1970 + (if 0 \<le> d then d div 366 else d div 365))"

definition month_starts :: "bool \<Rightarrow> int list" where
  "month_starts lp =
     (if lp then [0, 31, 60, 91, 121, 152, 182, 213, 244, 274, 305, 335]
      else [0, 31, 59, 90, 120, 151, 181, 212, 243, 273, 304, 334])"

definition MonthFromDay :: "int \<Rightarrow> nat" where
  "MonthFromDay d =
     (let y = YearFromDay d
      in length (takeWhile (\<lambda>s. s \<le> d - DayFromYear y) (month_starts (leap y))) - 1)"

definition MakeDay :: "int \<Rightarrow> nat \<Rightarrow> int \<Rightarrow> int" where
  "MakeDay y m dt = DayFromYear y + month_starts (leap y) ! m + dt - 1"

definition DateFromDay :: "int \<Rightarrow> int" where
  "DateFromDay d =
     (let y = YearFromDay d in d - DayFromYear y - month_starts (leap y) ! MonthFromDay d + 1)"

definition getUTCFullYear :: "int \<Rightarrow> int" where "getUTCFullYear t = YearFromDay (Day t)"
definition getUTCMonth :: "int \<Rightarrow> nat" where "getUTCMonth t = MonthFromDay (Day t)"
definition getUTCDate :: "int \<Rightarrow> int" where "getUTCDate t = DateFromDay (Day t)"
definition getUTCDay :: "int \<Rightarrow> int" where "getUTCDay t = (Day t + 4) mod 7"
definition getUTCHours :: "int \<Rightarrow> int" where "getUTCHours t = (t div (60 * MINUTE_MS)) mod 24"
definition getUTCMinutes :: "int \<Rightarrow> int" where "getUTCMinutes t = (t div MINUTE_MS) mod 60"

definition Date_UTC :: "int \<Rightarrow> nat \<Rightarrow> int \<Rightarrow> int \<Rightarrow> int" where
  "Date_UTC y m dt h =
     MakeDay (if 0 \<le> y \<and> y \<le> 99 then 1900 + y else y) m dt * DAY_MS + h * (60 * MINUTE_MS)"

lemma DayFromYear_mono: "y \<le> z \<Longrightarrow> DayFromYear y + 365 * (z - y) \<le> DayFromYear z"
proof (induction z rule: int_ge_induct)
  case (step z)
  then show ?case using DayFromYear_step [of z] by (auto split: if_splits)
qed simp

text \<open>The estimate from which the year is searched is not too late.\<close>

lemma mult_div_le: "0 < (c::int) \<Longrightarrow> c * (d div c) \<le> d"
  by (metis pos_mod_sign add_increasing2 le_add_same_cancel1 mult_div_mod_eq)

lemma leap_days_bound: "(k + 1) div 4 - (k + 69) div 100 + (k + 369) div (400::int) \<le> max 0 k"
proof -
  define a b c where "a = (k + 1) div 4" and "b = (k + 69) div 100" and "c = (k + 369) div (400::int)"
  have bounds: "4 * a \<le> k + 1" "k + 69 < 100 * b + 100" "400 * c \<le> k + 369"
    using mult_div_le [of 4 "k + 1"] mult_div_le [of 400 "k + 369"] mult_div_mod_eq [of 100 "k + 69"]
      pos_mod_bound [of 100 "k + 69"] by (simp_all add: a_def b_def c_def)
  consider "k \<le> -2" | "k = -1" | "k = 0" | "k = 1" | "2 \<le> k" by linarith
  then have "a - b + c \<le> max 0 k"
  proof cases
    case 1
    have "400 * a - 400 * b + 400 * c < 400" using bounds 1 by linarith
    with 1 show ?thesis by simp
  next
    case 5
    have "400 * a - 400 * b + 400 * c < 400 * k + 400" using bounds 5 by linarith
    with 5 show ?thesis by simp
  qed (simp_all add: a_def b_def c_def)
  then show ?thesis by (simp add: a_def b_def c_def)
qed

lemma year_estimate: "DayFromYear (1970 + (if 0 \<le> d then d div 366 else d div 365)) \<le> d"
proof -
  define k where "k = (if 0 \<le> d then d div 366 else d div 365)"
  have "DayFromYear (1970 + k) = 365 * k + ((k + 1) div 4 - (k + 69) div 100 + (k + 369) div 400)"
    by (simp add: DayFromYear_def algebra_simps)
  then have "DayFromYear (1970 + k) \<le> 365 * k + max 0 k" using leap_days_bound [of k] by simp
  also have "\<dots> \<le> d"
  proof (cases "0 \<le> d")
    case True
    with mult_div_le [of 366 d] pos_imp_zdiv_nonneg_iff [of 366 d] show ?thesis by (simp add: k_def max_def)
  next
    case False
    then have "d div 365 < 0" by (simp add: neg_imp_zdiv_neg_iff)
    with False mult_div_le [of 365 d] show ?thesis by (simp add: k_def max_def)
  qed
  finally show ?thesis by (simp add: k_def)
qed

lemma year_search_bounds:
  "DayFromYear y \<le> d \<Longrightarrow> DayFromYear (year_search d y) \<le> d \<and> d < DayFromYear (year_search d y + 1) \<and> y \<le> year_search d y"
proof (induction d y rule: year_search.induct)
  case (1 d y)
  show ?case
  proof (cases "DayFromYear (y + 1) \<le> d")
    case True
    with "1.IH" [OF True True] show ?thesis by (subst (1 2 3) year_search.simps) simp
  next
    case False
    with "1.prems" show ?thesis by (subst (1 2 3) year_search.simps) simp
  qed
qed

lemma YearFromDay_bounds: "DayFromYear (YearFromDay d) \<le> d" "d < DayFromYear (YearFromDay d + 1)"
  using year_search_bounds [OF year_estimate [of d]] by (simp_all add: YearFromDay_def)

lemma DayFromYear_less_iff: "DayFromYear y < DayFromYear z \<longleftrightarrow> y < z"
  using DayFromYear_mono [of y z] DayFromYear_mono [of z y] by (cases "y < z") auto

lemma YearFromDay_unique:
  assumes "DayFromYear y \<le> d" "d < DayFromYear (y + 1)" shows "YearFromDay d = y"
proof -
  have "DayFromYear (YearFromDay d) < DayFromYear (y + 1)" "DayFromYear y < DayFromYear (YearFromDay d + 1)"
    using YearFromDay_bounds [of d] assms by auto
  then show ?thesis unfolding DayFromYear_less_iff by simp
qed

lemma YearFromDay_1970: "0 \<le> d \<Longrightarrow> 1970 \<le> YearFromDay d"
proof -
  assume "0 \<le> d"
  moreover have "DayFromYear 1970 = 0" by (simp add: DayFromYear_def)
  ultimately have "DayFromYear 1970 < DayFromYear (YearFromDay d + 1)" using YearFromDay_bounds(2) [of d] by linarith
  then show ?thesis unfolding DayFromYear_less_iff by simp
qed

text \<open>The Gregorian calendar repeats every 400 years, which are a whole number of weeks.\<close>

lemma DayFromYear_cycle: "DayFromYear (y + 400) = DayFromYear y + 146097"
proof -
  have "(y + 400 - 1969) div 4 = (y - 1969) div 4 + 100" "(y + 400 - 1901) div 100 = (y - 1901) div 100 + 4"
    "(y + 400 - 1601) div 400 = (y - 1601) div 400 + (1::int)"
    using div_mult_self1 [of 4 "y - 1969" 100] div_mult_self1 [of 100 "y - 1901" 4] div_mult_self1 [of 400 "y - 1601" 1]
    by (simp_all add: algebra_simps)
  then show ?thesis by (simp add: DayFromYear_def)
qed

lemma leap_cycle: "leap (y + 400) = leap y"
proof -
  have "(y + 400) mod 4 = y mod 4" "(y + 400) mod 100 = y mod 100" "(y + 400) mod 400 = y mod (400::int)"
    using mod_mult_self1 [of y 100 4] mod_mult_self1 [of y 4 100] mod_mult_self1 [of y 1 400] by simp_all
  then show ?thesis by (simp add: leap_def)
qed

lemma YearFromDay_cycle: "YearFromDay (d + 146097) = YearFromDay d + 400"
  by (rule YearFromDay_unique)
    (use YearFromDay_bounds [of d] DayFromYear_cycle [of "YearFromDay d"] DayFromYear_cycle [of "YearFromDay d + 1"]
      in \<open>simp_all add: add.assoc add.commute\<close>)

lemma MonthFromDay_cycle: "MonthFromDay (d + 146097) = MonthFromDay d"
  by (simp add: MonthFromDay_def YearFromDay_cycle DayFromYear_cycle leap_cycle Let_def)

lemma DateFromDay_cycle: "DateFromDay (d + 146097) = DateFromDay d"
  by (simp add: DateFromDay_def YearFromDay_cycle MonthFromDay_cycle DayFromYear_cycle leap_cycle Let_def)

lemma MonthFromDay_less: "MonthFromDay d < 12"
  using length_takeWhile_le [of "\<lambda>s. s \<le> d - DayFromYear (YearFromDay d)" "month_starts (leap (YearFromDay d))"]
  by (simp add: MonthFromDay_def month_starts_def Let_def)

lemma month_starts_close: "m < 12 \<Longrightarrow> month_starts a ! m \<le> month_starts b ! m + 1"
  by (cases a; cases b) (auto simp: month_starts_def nth_Cons')

lemma MakeDay_of_parts: "MakeDay (YearFromDay d) (MonthFromDay d) (DateFromDay d + k) = d + k"
  by (simp add: MakeDay_def DateFromDay_def Let_def)

lemma MakeDay_century: "m < 12 \<Longrightarrow> MakeDay y m dt \<le> MakeDay (1900 + y) m dt"
  using DayFromYear_mono [of y "1900 + y"] month_starts_close [of m "leap y" "leap (1900 + y)"]
  by (simp add: MakeDay_def)

text \<open>What the two jumps of the search compute.\<close>

lemma Date_UTC_of_parts:
  "(Day t + k) * DAY_MS + h * (60 * MINUTE_MS) \<le> Date_UTC (getUTCFullYear t) (getUTCMonth t) (getUTCDate t + k) h"
  "0 \<le> t \<Longrightarrow> Date_UTC (getUTCFullYear t) (getUTCMonth t) (getUTCDate t + k) h = (Day t + k) * DAY_MS + h * (60 * MINUTE_MS)"
proof -
  have eq: "MakeDay (getUTCFullYear t) (getUTCMonth t) (getUTCDate t + k) = Day t + k"
    by (simp add: getUTCFullYear_def getUTCMonth_def getUTCDate_def MakeDay_of_parts)
  then show "(Day t + k) * DAY_MS + h * (60 * MINUTE_MS) \<le> Date_UTC (getUTCFullYear t) (getUTCMonth t) (getUTCDate t + k) h"
    using MakeDay_century [of "getUTCMonth t" "getUTCFullYear t" "getUTCDate t + k"] MonthFromDay_less [of "Day t"]
    by (simp add: Date_UTC_def getUTCMonth_def DAY_MS_def MINUTE_MS_def)
  assume "0 \<le> t"
  then have "1970 \<le> getUTCFullYear t"
    unfolding getUTCFullYear_def by (intro YearFromDay_1970) (simp add: Day_def DAY_MS_def MINUTE_MS_def)
  with eq show "Date_UTC (getUTCFullYear t) (getUTCMonth t) (getUTCDate t + k) h = (Day t + k) * DAY_MS + h * (60 * MINUTE_MS)"
    by (simp add: Date_UTC_def)
qed

lemma time_parts:
  "t = Day t * DAY_MS + getUTCHours t * 3600000 + getUTCMinutes t * 60000 + t mod 60000"
  "0 \<le> getUTCHours t" "getUTCHours t < 24" "0 \<le> getUTCMinutes t" "getUTCMinutes t < 60"
proof -
  define m where "m = t div 60000"
  have "t div 3600000 = m div 60" "t div 86400000 = m div 60 div 24"
    using zdiv_zmult2_eq [of 60 t 60000] zdiv_zmult2_eq [of 24 t 3600000] by (simp_all add: m_def)
  then have parts: "Day t = m div 60 div 24" "getUTCHours t = m div 60 mod 24" "getUTCMinutes t = m mod 60"
    by (simp_all add: Day_def getUTCHours_def getUTCMinutes_def DAY_MS_def MINUTE_MS_def m_def)
  show "t = Day t * DAY_MS + getUTCHours t * 3600000 + getUTCMinutes t * 60000 + t mod 60000"
    using mult_div_mod_eq [of 60000 t] mult_div_mod_eq [of 60 m] mult_div_mod_eq [of 24 "m div 60"]
    unfolding parts DAY_MS_def MINUTE_MS_def m_def [symmetric] by linarith
qed (simp_all add: getUTCHours_def getUTCMinutes_def)

lemma time_split:
  "\<exists>r. t = Day t * DAY_MS + getUTCHours t * 3600000 + getUTCMinutes t * 60000 + r \<and> 0 \<le> r \<and> r < 60000"
  using time_parts(1) [of t] by (intro exI [of _ "t mod 60000"]) simp

subsection \<open>Parsing\<close>

record ParsedCronExpression =
  minutes :: "nat list"
  hours :: "nat list"
  daysOfMonth :: "nat list"
  months :: "nat list"
  daysOfWeek :: "nat list"
  daysOfMonthRestricted :: bool
  daysOfWeekRestricted :: bool

record CronFieldSpec =
  field_name :: string
  field_min :: nat
  field_max :: nat

definition CRON_MACROS :: "(string \<times> string) list" where
  "CRON_MACROS = [(''@hourly'', ''0 * * * *''), (''@daily'', ''0 0 * * *''),
                  (''@weekly'', ''0 0 * * 0''), (''@monthly'', ''0 0 1 * *'')]"

definition CRON_FIELDS :: "CronFieldSpec list" where
  "CRON_FIELDS =
     [\<lparr>field_name = ''minute'', field_min = 0, field_max = 59\<rparr>, \<lparr>field_name = ''hour'', field_min = 0, field_max = 23\<rparr>,
      \<lparr>field_name = ''day-of-month'', field_min = 1, field_max = 31\<rparr>, \<lparr>field_name = ''month'', field_min = 1, field_max = 12\<rparr>,
      \<lparr>field_name = ''day-of-week'', field_min = 0, field_max = 7\<rparr>]"

definition all_digits :: "string \<Rightarrow> bool" where
  "all_digits s = (s \<noteq> [] \<and> list_all js_digit s)"

definition parseCronNumber :: "string \<Rightarrow> CronFieldSpec \<Rightarrow> nat result" where
  "parseCronNumber v f =
     (if \<not> all_digits v then Throw (''Invalid '' @ field_name f @ '' value '' @ quoted v)
      else let n = js_number_of_digits v
           in if n < field_min f \<or> n > field_max f
              then Throw (field_name f @ '' value '' @ show_nat n @ '' is out of range '' @ show_nat (field_min f)
                          @ ''-'' @ show_nat (field_max f))
              else Return n)"

definition parse_step :: "string list \<Rightarrow> CronFieldSpec \<Rightarrow> nat result" where
  "parse_step stepParts f =
     (case stepParts of
        [] \<Rightarrow> Return 1
      | st # _ \<Rightarrow> (if \<not> all_digits st \<or> js_number_of_digits st < 1
                   then Throw (''Invalid '' @ field_name f @ '' step '' @ quoted st)
                   else Return (js_number_of_digits st)))"

definition parse_range :: "string \<Rightarrow> bool \<Rightarrow> CronFieldSpec \<Rightarrow> (nat \<times> nat) result" where
  "parse_range rangePart hasStep f =
     (if rangePart = ''*'' then Return (field_min f, field_max f)
      else if CHR ''-'' \<in> set rangePart
      then (case js_split CHR ''-'' rangePart of
              [a, b] \<Rightarrow>
                and_then (parseCronNumber a f) (\<lambda>start.
                and_then (parseCronNumber b f) (\<lambda>stop_at.
                  if start > stop_at then Throw (''Invalid '' @ field_name f @ '' range '' @ quoted rangePart)
                  else Return (start, stop_at)))
            | _ \<Rightarrow> Throw (''Invalid '' @ field_name f @ '' range '' @ quoted rangePart))
      else and_then (parseCronNumber rangePart f) (\<lambda>start. Return (start, if hasStep then field_max f else start)))"

text \<open>The values of the loop \<open>for (value = start; value <= end; value += step)\<close>.\<close>

definition stepped :: "nat \<Rightarrow> nat \<Rightarrow> nat \<Rightarrow> nat list" where
  "stepped start stop_at step = filter (\<lambda>v. (v - start) mod step = 0) [start..<Suc stop_at]"

definition parse_part :: "string \<Rightarrow> CronFieldSpec \<Rightarrow> string \<Rightarrow> nat list result" where
  "parse_part source f part =
     (case js_split CHR ''/'' part of
        rangePart # stepParts \<Rightarrow>
          (if length stepParts > 1 \<or> rangePart = []
           then Throw (''Invalid '' @ field_name f @ '' field '' @ quoted source)
           else and_then (parse_step stepParts f) (\<lambda>step.
                and_then (parse_range rangePart (stepParts \<noteq> []) f) (\<lambda>(start, stop_at).
                  Return (stepped start stop_at step))))
      | [] \<Rightarrow> Throw [])"

fun parse_parts :: "string \<Rightarrow> CronFieldSpec \<Rightarrow> string list \<Rightarrow> nat list result" where
  "parse_parts source f [] = Return []"
| "parse_parts source f (p # ps) =
     and_then (parse_part source f p) (\<lambda>vs. and_then (parse_parts source f ps) (\<lambda>ws. Return (vs @ ws)))"

definition parseCronField :: "string \<Rightarrow> CronFieldSpec \<Rightarrow> nat list result" where
  "parseCronField source f = and_then (parse_parts source f (js_split CHR '','' source)) (\<lambda>vs. Return (js_unique vs))"

definition starts_with :: "char \<Rightarrow> string \<Rightarrow> bool" where
  "starts_with c s = (s \<noteq> [] \<and> hd s = c)"

definition expand_macro :: "string \<Rightarrow> string" where
  "expand_macro trimmed = (case map_of CRON_MACROS (js_lower trimmed) of Some e \<Rightarrow> e | None \<Rightarrow> trimmed)"

definition parseCronExpression :: "string \<Rightarrow> ParsedCronExpression result" where
  "parseCronExpression expr =
     (if starts_with CHR ''@'' (expand_macro (js_trim expr))
      then Throw (''Unsupported cron macro '' @ quoted (js_trim expr))
      else case js_words js_space (expand_macro (js_trim expr)) of
        [p0, p1, p2, p3, p4] \<Rightarrow>
          and_then (parseCronField p0 (CRON_FIELDS ! 0)) (\<lambda>mi.
          and_then (parseCronField p1 (CRON_FIELDS ! 1)) (\<lambda>ho.
          and_then (parseCronField p2 (CRON_FIELDS ! 2)) (\<lambda>dom.
          and_then (parseCronField p3 (CRON_FIELDS ! 3)) (\<lambda>mo.
          and_then (parseCronField p4 (CRON_FIELDS ! 4)) (\<lambda>dow.
            Return \<lparr>minutes = mi, hours = ho, daysOfMonth = dom, months = mo,
                    daysOfWeek = js_unique (map (\<lambda>d. if d = 7 then 0 else d) dow),
                    daysOfMonthRestricted = \<not> starts_with CHR ''*'' p2,
                    daysOfWeekRestricted = \<not> starts_with CHR ''*'' p4\<rparr>)))))
      | _ \<Rightarrow> Throw ''Cron expression must have 5 fields: minute hour day-of-month month day-of-week'')"

subsection \<open>Occurrences\<close>

definition cronDayMatches :: "ParsedCronExpression \<Rightarrow> int \<Rightarrow> bool" where
  "cronDayMatches cron date =
     (if getUTCMonth date + 1 \<notin> set (months cron) then False
      else let domMatches = nat (getUTCDate date) \<in> set (daysOfMonth cron);
               dowMatches = nat (getUTCDay date) \<in> set (daysOfWeek cron)
           in if daysOfMonthRestricted cron \<and> daysOfWeekRestricted cron then domMatches \<or> dowMatches
              else domMatches \<and> dowMatches)"

definition CRON_SEARCH_LIMIT_DAYS :: int where "CRON_SEARCH_LIMIT_DAYS = 366"

lemma next_day_later: "t < Date_UTC (getUTCFullYear t) (getUTCMonth t) (getUTCDate t + 1) 0"
  using Date_UTC_of_parts(1) [of t 1 0] time_parts [of t] pos_mod_bound [of 60000 t]
  unfolding DAY_MS_def MINUTE_MS_def by (simp add: algebra_simps)

lemma next_hour_later: "t < Date_UTC (getUTCFullYear t) (getUTCMonth t) (getUTCDate t) (getUTCHours t + 1)"
  using Date_UTC_of_parts(1) [of t 0 "getUTCHours t + 1"] time_parts [of t] pos_mod_bound [of 60000 t]
  unfolding DAY_MS_def MINUTE_MS_def by (simp add: algebra_simps)

function next_loop :: "ParsedCronExpression \<Rightarrow> int \<Rightarrow> int \<Rightarrow> int result" where
  "next_loop cron limit time =
     (if time \<le> limit
      then if \<not> cronDayMatches cron time
           then next_loop cron limit (Date_UTC (getUTCFullYear time) (getUTCMonth time) (getUTCDate time + 1) 0)
           else if nat (getUTCHours time) \<notin> set (hours cron)
           then next_loop cron limit
                  (Date_UTC (getUTCFullYear time) (getUTCMonth time) (getUTCDate time) (getUTCHours time + 1))
           else if nat (getUTCMinutes time) \<in> set (minutes cron) then Return time
           else next_loop cron limit (time + MINUTE_MS)
      else Throw (''Cron expression has no occurrence within '' @ show_int CRON_SEARCH_LIMIT_DAYS @ '' days''))"
  by pat_completeness auto
termination
  by (relation "measure (\<lambda>(cron, limit, time). nat (limit + 1 - time))")
    (use next_day_later next_hour_later in \<open>auto simp: MINUTE_MS_def\<close>)

declare next_loop.simps [simp del]

definition first_minute :: "int \<Rightarrow> int" where
  "first_minute after = after div MINUTE_MS * MINUTE_MS + MINUTE_MS"

definition nextCronOccurrence :: "ParsedCronExpression \<Rightarrow> int \<Rightarrow> int result" where
  "nextCronOccurrence cron after =
     next_loop cron (first_minute after + CRON_SEARCH_LIMIT_DAYS * DAY_MS) (first_minute after)"

subsection \<open>Validation of schedules\<close>

definition MIN_AUTOMATION_SCHEDULE_INTERVAL_MINUTES :: int where
  "MIN_AUTOMATION_SCHEDULE_INTERVAL_MINUTES = 15"

definition AUTOMATION_SCHEDULE_MAX_LENGTH :: nat where
  "AUTOMATION_SCHEDULE_MAX_LENGTH = 128"

definition DAY_SCAN_DAYS :: int where "DAY_SCAN_DAYS = 146097"
definition DAY_SCAN_START :: int where "DAY_SCAN_START = Date_UTC 2000 0 1 0"

definition matchingDayIndexes :: "ParsedCronExpression \<Rightarrow> int list" where
  "matchingDayIndexes cron =
     filter (\<lambda>day. cronDayMatches cron (DAY_SCAN_START + day * DAY_MS)) [0..DAY_SCAN_DAYS - 1]"

text \<open>The gaps between neighbours of a list: \<open>xs[i] - xs[i - 1]\<close> for every index from one.\<close>

fun gaps :: "int list \<Rightarrow> int list" where
  "gaps (a # b # xs) = (b - a) # gaps (b # xs)"
| "gaps _ = []"

definition firesOnConsecutiveDays :: "int list \<Rightarrow> bool" where
  "firesOnConsecutiveDays matchingDays =
     (if matchingDays = [] then False
      else let wraps = (hd matchingDays = 0 \<and> last matchingDays = DAY_SCAN_DAYS - 1)
           in wraps \<or> list_ex (\<lambda>g. g = 1) (gaps matchingDays))"

definition timesOfDay :: "ParsedCronExpression \<Rightarrow> int list" where
  "timesOfDay cron =
     concat (map (\<lambda>hour. map (\<lambda>minute. int hour * 60 + int minute) (sort (minutes cron))) (sort (hours cron)))"

text \<open>\<open>Infinity\<close>, where there is no gap at all, is \<open>None\<close>.\<close>

definition min_opt :: "int option \<Rightarrow> int \<Rightarrow> int option" where
  "min_opt m x = (case m of None \<Rightarrow> Some x | Some y \<Rightarrow> Some (min y x))"

definition minimumCronIntervalMinutes :: "ParsedCronExpression \<Rightarrow> int list \<Rightarrow> int option" where
  "minimumCronIntervalMinutes cron matchingDays =
     (let times = timesOfDay cron; minimum = foldl min_opt None (gaps times)
      in if firesOnConsecutiveDays matchingDays
         then min_opt minimum (hd times + 24 * 60 - last times) else minimum)"

definition validateParsed :: "ParsedCronExpression \<Rightarrow> string option" where
  "validateParsed cron =
     (let days = matchingDayIndexes cron
      in if days = [] then Some ''schedule never fires''
         else let lastGap = DAY_SCAN_DAYS - last days + hd days;
                  yearlyGapExceeded = (hd days \<ge> CRON_SEARCH_LIMIT_DAYS \<or> lastGap > CRON_SEARCH_LIMIT_DAYS
                    \<or> list_ex (\<lambda>g. g > CRON_SEARCH_LIMIT_DAYS) (gaps days))
              in if yearlyGapExceeded then Some ''schedule must fire at least once a year''
                 else if (case minimumCronIntervalMinutes cron days of None \<Rightarrow> False
                          | Some m \<Rightarrow> m < MIN_AUTOMATION_SCHEDULE_INTERVAL_MINUTES)
                 then Some (''schedule must not run more often than every ''
                            @ show_int MIN_AUTOMATION_SCHEDULE_INTERVAL_MINUTES @ '' minutes'')
                 else None)"

definition validateAutomationSchedule :: "jsval \<Rightarrow> string option" where
  "validateAutomationSchedule v =
     (case v of
        JStr expr \<Rightarrow>
          (if js_trim expr = [] then Some ''schedule must be a cron expression''
           else if length expr > AUTOMATION_SCHEDULE_MAX_LENGTH
           then Some (''schedule must be at most '' @ show_nat AUTOMATION_SCHEDULE_MAX_LENGTH @ '' characters'')
           else case parseCronExpression expr of
                  Inl e \<Rightarrow> Some (''schedule is not a valid cron expression: '' @ e)
                | Inr cron \<Rightarrow> validateParsed cron)
      | _ \<Rightarrow> Some ''schedule must be a cron expression'')"

subsection \<open>Correctness of the search\<close>

text \<open>When an expression fires: its day, hour and minute fields accept the time.\<close>

definition day_ok :: "ParsedCronExpression \<Rightarrow> int \<Rightarrow> bool" where
  "day_ok cron d = cronDayMatches cron (d * DAY_MS)"

definition cron_fires :: "ParsedCronExpression \<Rightarrow> int \<Rightarrow> bool" where
  "cron_fires cron t \<longleftrightarrow> t mod MINUTE_MS = 0 \<and> cronDayMatches cron t
     \<and> nat (getUTCHours t) \<in> set (hours cron) \<and> nat (getUTCMinutes t) \<in> set (minutes cron)"

lemma Day_of_day [simp]: "Day (d * DAY_MS) = d"
  by (simp add: Day_def DAY_MS_def MINUTE_MS_def)

lemma cronDayMatches_day: "cronDayMatches cron t = day_ok cron (Day t)"
  by (simp add: day_ok_def cronDayMatches_def getUTCMonth_def getUTCDate_def getUTCDay_def)

lemma day_ok_cycle: "day_ok cron (d + 146097) = day_ok cron d"
proof -
  have "(d + 146097 + 4) mod 7 = (d + 4) mod 7"
    using mod_mult_self1 [of "d + 4" 20871 7] by (simp add: algebra_simps)
  then show ?thesis
    by (simp add: day_ok_def cronDayMatches_def getUTCMonth_def getUTCDate_def getUTCDay_def
        MonthFromDay_cycle DateFromDay_cycle)
qed

definition next_spec :: "ParsedCronExpression \<Rightarrow> int \<Rightarrow> int \<Rightarrow> int result \<Rightarrow> bool" where
  "next_spec cron limit time r \<longleftrightarrow>
     (case r of
        Inr t \<Rightarrow> time \<le> t \<and> t \<le> limit \<and> cron_fires cron t \<and> (\<forall>u. time \<le> u \<and> u < t \<longrightarrow> \<not> cron_fires cron u)
      | Inl _ \<Rightarrow> (\<forall>u. time \<le> u \<and> u \<le> limit \<longrightarrow> \<not> cron_fires cron u))"

lemma next_spec_skip:
  assumes "next_spec cron limit time' r" "time \<le> time'" "\<And>u. time \<le> u \<Longrightarrow> u < time' \<Longrightarrow> \<not> cron_fires cron u"
  shows "next_spec cron limit time r"
  using assms unfolding next_spec_def by (cases r) (force simp: not_less)+

lemma same_day: "time \<le> u \<Longrightarrow> u < (Day time + 1) * DAY_MS \<Longrightarrow> Day u = Day time"
proof -
  assume u: "time \<le> u" "u < (Day time + 1) * DAY_MS"
  have "Day time \<le> Day u" using u(1) by (simp add: Day_def DAY_MS_def MINUTE_MS_def zdiv_mono1)
  moreover have "Day u * DAY_MS \<le> u" using time_parts [of u] pos_mod_sign [of 60000 u] by linarith
  then have "Day u < Day time + 1" using u(2) by (simp add: DAY_MS_def MINUTE_MS_def)
  ultimately show ?thesis by simp
qed

lemma same_hour:
  assumes "time \<le> u" "u < Day time * DAY_MS + (getUTCHours time + 1) * 3600000"
  shows "Day u = Day time \<and> getUTCHours u = getUTCHours time"
proof -
  have d: "Day u = Day time"
    using assms time_parts [of time] by (intro same_day) (auto simp: DAY_MS_def MINUTE_MS_def algebra_simps)
  obtain r where r: "time = Day time * DAY_MS + getUTCHours time * 3600000 + getUTCMinutes time * 60000 + r" "0 \<le> r"
    using time_split by blast
  obtain r' where r': "u = Day u * DAY_MS + getUTCHours u * 3600000 + getUTCMinutes u * 60000 + r'" "0 \<le> r'" "r' < 60000"
    using time_split by blast
  have "getUTCHours time < getUTCHours u + 1"
    using assms(1) r r' time_parts(2-5) [of time] time_parts(2-5) [of u] unfolding d by linarith
  moreover have "getUTCHours u < getUTCHours time + 1"
    using assms(2) r' time_parts(2-5) [of u] unfolding d distrib_right by linarith
  ultimately show ?thesis using d by simp
qed

lemma next_loop_spec: "0 \<le> time \<Longrightarrow> time mod MINUTE_MS = 0 \<Longrightarrow> next_spec cron limit time (next_loop cron limit time)"
proof (induction cron limit time rule: next_loop.induct)
  case (1 cron limit time)
  let ?nd = "Date_UTC (getUTCFullYear time) (getUTCMonth time) (getUTCDate time + 1) 0"
  let ?nh = "Date_UTC (getUTCFullYear time) (getUTCMonth time) (getUTCDate time) (getUTCHours time + 1)"
  have nd: "?nd = (Day time + 1) * DAY_MS" using Date_UTC_of_parts(2) [of time 1 0] "1.prems" by simp
  have nh: "?nh = Day time * DAY_MS + (getUTCHours time + 1) * 3600000"
    using Date_UTC_of_parts(2) [of time 0 "getUTCHours time + 1"] "1.prems" by (simp add: MINUTE_MS_def)
  have aligned: "?nd mod MINUTE_MS = 0" "?nh mod MINUTE_MS = 0" "(time + MINUTE_MS) mod MINUTE_MS = 0"
    using "1.prems" unfolding nd nh DAY_MS_def MINUTE_MS_def
    by (simp_all add: mod_eq_0_iff_dvd dvd_add)
  consider (over) "limit < time"
    | (day) "time \<le> limit" "\<not> cronDayMatches cron time"
    | (hour) "time \<le> limit" "cronDayMatches cron time" "nat (getUTCHours time) \<notin> set (hours cron)"
    | (minute) "time \<le> limit" "cronDayMatches cron time" "nat (getUTCHours time) \<in> set (hours cron)"
        "nat (getUTCMinutes time) \<notin> set (minutes cron)"
    | (found) "time \<le> limit" "cronDayMatches cron time" "nat (getUTCHours time) \<in> set (hours cron)"
        "nat (getUTCMinutes time) \<in> set (minutes cron)" by linarith
  then show ?case
  proof cases
    case day
    have "next_spec cron limit time (next_loop cron limit ?nd)"
    proof (rule next_spec_skip [OF "1.IH"(1) [OF day _ aligned(1)]])
      show "\<not> cron_fires cron u" if "time \<le> u" "u < ?nd" for u
        using day(2) same_day [OF that(1)] that(2) unfolding nd by (simp add: cron_fires_def cronDayMatches_day)
    qed (use next_day_later [of time] "1.prems"(1) in auto)
    with day show ?thesis by (subst next_loop.simps) simp
  next
    case hour
    have "next_spec cron limit time (next_loop cron limit ?nh)"
    proof (rule next_spec_skip [OF "1.IH"(2) [OF hour(1) _ hour(3) _ aligned(2)]])
      show "\<not> cron_fires cron u" if "time \<le> u" "u < ?nh" for u
        using hour(3) same_hour [OF that(1)] that(2) unfolding nh by (simp add: cron_fires_def)
    qed (use next_hour_later [of time] "1.prems"(1) hour in auto)
    with hour show ?thesis by (subst next_loop.simps) simp
  next
    case minute
    have "next_spec cron limit time (next_loop cron limit (time + MINUTE_MS))"
    proof (rule next_spec_skip [OF "1.IH"(3) [OF minute(1) _ _ minute(4) _ aligned(3)]])
      show "\<not> cron_fires cron u" if u: "time \<le> u" "u < time + MINUTE_MS" for u
      proof
        assume f: "cron_fires cron u"
        have "(u - time) mod MINUTE_MS = 0" using f "1.prems"(2) by (simp add: cron_fires_def mod_eq_0_iff_dvd)
        then have "u = time" using u by (simp add: MINUTE_MS_def)
        with f minute show False by (simp add: cron_fires_def)
      qed
    qed (use "1.prems"(1) minute in \<open>auto simp: MINUTE_MS_def\<close>)
    with minute show ?thesis by (subst next_loop.simps) simp
  next
    case found
    then have "next_loop cron limit time = Return time" by (subst next_loop.simps) simp
    moreover from found have "cron_fires cron time" using "1.prems" by (simp add: cron_fires_def)
    ultimately show ?thesis using found by (auto simp: next_spec_def)
  next
    case over
    then show ?thesis by (subst next_loop.simps) (auto simp: next_spec_def)
  qed
qed

lemma first_minute_facts:
  "after < first_minute after" "first_minute after mod MINUTE_MS = 0" "0 \<le> after \<Longrightarrow> 0 \<le> first_minute after"
  "u mod MINUTE_MS = 0 \<Longrightarrow> after < u \<Longrightarrow> first_minute after \<le> u"
proof -
  have a: "after = after div 60000 * 60000 + after mod 60000" "0 \<le> after mod 60000" "after mod 60000 < 60000" by simp_all
  show "after < first_minute after" unfolding first_minute_def MINUTE_MS_def using a by linarith
  show "first_minute after mod MINUTE_MS = 0"
    unfolding first_minute_def MINUTE_MS_def by (simp add: mod_eq_0_iff_dvd)
  show "0 \<le> first_minute after" if "0 \<le> after"
    using that pos_imp_zdiv_nonneg_iff [of 60000 after] unfolding first_minute_def MINUTE_MS_def by simp
  show "first_minute after \<le> u" if u: "u mod MINUTE_MS = 0" "after < u"
  proof -
    obtain k where k: "u = 60000 * k" using u(1) by (auto simp: MINUTE_MS_def mod_eq_0_iff_dvd)
    with u(2) a have "after div 60000 * 60000 < 60000 * k" by linarith
    then have "after div 60000 + 1 \<le> k" by simp
    then show ?thesis unfolding first_minute_def MINUTE_MS_def k by simp
  qed
qed

subsection \<open>Parsed expressions\<close>

definition cron_wf :: "ParsedCronExpression \<Rightarrow> bool" where
  "cron_wf cron \<longleftrightarrow>
     minutes cron \<noteq> [] \<and> list_all (\<lambda>m. m \<le> 59) (minutes cron) \<and> distinct (minutes cron)
   \<and> hours cron \<noteq> [] \<and> list_all (\<lambda>h. h \<le> 23) (hours cron) \<and> distinct (hours cron)
   \<and> daysOfMonth cron \<noteq> [] \<and> list_all (\<lambda>d. 1 \<le> d \<and> d \<le> 31) (daysOfMonth cron)
   \<and> months cron \<noteq> [] \<and> list_all (\<lambda>m. 1 \<le> m \<and> m \<le> 12) (months cron)
   \<and> daysOfWeek cron \<noteq> [] \<and> list_all (\<lambda>d. d \<le> 6) (daysOfWeek cron)"

definition values_ok :: "CronFieldSpec \<Rightarrow> nat list \<Rightarrow> bool" where
  "values_ok f vs \<longleftrightarrow> vs \<noteq> [] \<and> (\<forall>v \<in> set vs. field_min f \<le> v \<and> v \<le> field_max f)"

lemma stepped_ok:
  "field_min f \<le> a \<Longrightarrow> a \<le> b \<Longrightarrow> b \<le> field_max f \<Longrightarrow> values_ok f (stepped a b st)"
proof -
  assume ab: "field_min f \<le> a" "a \<le> b" "b \<le> field_max f"
  then have "a \<in> set (stepped a b st)" by (simp add: stepped_def del: upt_Suc)
  then have "stepped a b st \<noteq> []" by auto
  with ab show ?thesis by (auto simp: values_ok_def stepped_def)
qed

lemma parseCronNumber_ok: "parseCronNumber v f = Return n \<Longrightarrow> field_min f \<le> n \<and> n \<le> field_max f"
  by (auto simp: parseCronNumber_def Let_def split: if_splits)

lemma parse_range_ok:
  "parse_range r st f = Return (a, b) \<Longrightarrow> field_min f \<le> field_max f \<Longrightarrow>
     field_min f \<le> a \<and> a \<le> b \<and> b \<le> field_max f"
  by (auto simp: parse_range_def dest!: parseCronNumber_ok split: if_splits list.splits)

lemma parse_part_ok:
  "parse_part src f p = Return vs \<Longrightarrow> field_min f \<le> field_max f \<Longrightarrow> values_ok f vs"
  by (auto simp: parse_part_def stepped_ok dest!: parse_range_ok split: if_splits list.splits)

lemma parse_parts_ok:
  "parse_parts src f ps = Return vs \<Longrightarrow> field_min f \<le> field_max f \<Longrightarrow> ps \<noteq> [] \<Longrightarrow> values_ok f vs"
proof (induction ps arbitrary: vs)
  case (Cons p ps)
  then obtain us ws where p: "parse_part src f p = Return us" "parse_parts src f ps = Return ws" "vs = us @ ws" by auto
  have "values_ok f us" by (rule parse_part_ok [OF p(1) Cons.prems(2)])
  moreover have "\<forall>v \<in> set ws. field_min f \<le> v \<and> v \<le> field_max f"
    using Cons.IH [OF p(2) Cons.prems(2)] p(2) by (cases "ps = []") (auto simp: values_ok_def)
  ultimately show ?case using p(3) by (auto simp: values_ok_def)
qed simp

lemma parseCronField_ok:
  "parseCronField src f = Return vs \<Longrightarrow> field_min f \<le> field_max f \<Longrightarrow> values_ok f vs \<and> distinct vs"
proof -
  assume a: "parseCronField src f = Return vs" "field_min f \<le> field_max f"
  then obtain ws where ws: "parse_parts src f (js_split CHR '','' src) = Return ws" "vs = js_unique ws"
    by (auto simp: parseCronField_def)
  have "values_ok f ws" by (rule parse_parts_ok [OF ws(1) a(2)]) simp
  then show ?thesis using ws(2) by (simp add: values_ok_def)
qed

lemma parseCronExpression_wf: "parseCronExpression expr = Return cron \<Longrightarrow> cron_wf cron"
proof -
  assume p: "parseCronExpression expr = Return cron"
  then obtain p0 p1 p2 p3 p4 mi ho dom mo dow where f:
    "parseCronField p0 (CRON_FIELDS ! 0) = Return mi" "parseCronField p1 (CRON_FIELDS ! 1) = Return ho"
    "parseCronField p2 (CRON_FIELDS ! 2) = Return dom" "parseCronField p3 (CRON_FIELDS ! 3) = Return mo"
    "parseCronField p4 (CRON_FIELDS ! 4) = Return dow"
    and cron: "minutes cron = mi" "hours cron = ho" "daysOfMonth cron = dom" "months cron = mo"
      "daysOfWeek cron = js_unique (map (\<lambda>d. if d = 7 then 0 else d) dow)"
    by (auto simp: parseCronExpression_def split: if_splits list.splits)
  have "values_ok (CRON_FIELDS ! 0) mi \<and> distinct mi" "values_ok (CRON_FIELDS ! 1) ho \<and> distinct ho"
    "values_ok (CRON_FIELDS ! 2) dom \<and> distinct dom" "values_ok (CRON_FIELDS ! 3) mo \<and> distinct mo"
    "values_ok (CRON_FIELDS ! 4) dow \<and> distinct dow"
    by (rule parseCronField_ok [OF f(1)] parseCronField_ok [OF f(2)] parseCronField_ok [OF f(3)]
        parseCronField_ok [OF f(4)] parseCronField_ok [OF f(5)]; simp add: CRON_FIELDS_def)+
  then show ?thesis
    by (simp add: cron_wf_def cron values_ok_def CRON_FIELDS_def list_all_iff) fastforce
qed

subsection \<open>Accepted schedules\<close>

lemma day_ok_cycles: "day_ok cron (d + 146097 * int n) = day_ok cron d"
proof (induction n)
  case (Suc n)
  then show ?case using day_ok_cycle [of cron "d + 146097 * int n"] by (simp add: algebra_simps)
qed simp

lemma day_ok_int_cycles: "day_ok cron (d + 146097 * k) = day_ok cron d"
proof (cases "0 \<le> k")
  case True
  then show ?thesis using day_ok_cycles [of cron d "nat k"] by simp
next
  case False
  then show ?thesis using day_ok_cycles [of cron "d + 146097 * k" "nat (- k)"] by simp
qed

definition scan_day :: int where "scan_day = 10957"

lemma scan_start: "DAY_SCAN_START + d * DAY_MS = (scan_day + d) * DAY_MS"
proof -
  have "DAY_SCAN_START = 10957 * DAY_MS" by code_simp
  then show ?thesis by (simp add: scan_day_def distrib_right)
qed

lemma set_matchingDayIndexes: "set (matchingDayIndexes cron) = {d. 0 \<le> d \<and> d < 146097 \<and> day_ok cron (scan_day + d)}"
  by (auto simp: matchingDayIndexes_def scan_start DAY_SCAN_DAYS_def day_ok_def)

lemma sorted_matchingDayIndexes: "sorted (matchingDayIndexes cron)" "distinct (matchingDayIndexes cron)"
  by (simp_all add: matchingDayIndexes_def sorted_wrt_filter)

text \<open>Every day falls on a scanned one of some cycle.\<close>

lemma day_ok_scan: "day_ok cron d \<longleftrightarrow> (d - scan_day) mod 146097 \<in> set (matchingDayIndexes cron)"
proof -
  have e: "d - scan_day = 146097 * ((d - scan_day) div 146097) + (d - scan_day) mod 146097" by simp
  have "day_ok cron (scan_day + (d - scan_day) mod 146097) = day_ok cron d"
    using day_ok_int_cycles [of cron "scan_day + (d - scan_day) mod 146097" "(d - scan_day) div 146097"] e
    by (simp add: algebra_simps)
  then show ?thesis by (simp add: set_matchingDayIndexes)
qed

lemma next_in_sorted:
  assumes "sorted xs" "list_all (\<lambda>g. g \<le> B) (gaps xs)" "m \<in> set xs" "m < last xs"
  shows "\<exists>n \<in> set xs. m < n \<and> n \<le> m + (B::int)"
  using assms
proof (induction xs rule: gaps.induct)
  case (1 a b xs)
  show ?case
  proof (cases "m = a \<and> a < b")
    case True
    with 1 show ?thesis by auto
  next
    case False
    then have "m \<in> set (b # xs)" using "1.prems" by auto
    with 1 show ?thesis by auto
  qed
qed auto

lemma mod_cycle: "0 \<le> x \<Longrightarrow> x < 146097 \<Longrightarrow> (146097 * q + x) mod 146097 = (x::int)"
  by simp

lemma day_of_cycle: "d - scan_day = 146097 * ((d - scan_day) div 146097) + (d - scan_day) mod 146097"
  by simp

lemma valid_next_day:
  assumes v: "validateParsed cron = None" and d: "day_ok cron d"
  shows "\<exists>n. d < n \<and> n \<le> d + 366 \<and> day_ok cron n"
proof -
  let ?xs = "matchingDayIndexes cron"
  define e q where "e = (d - scan_day) mod 146097" and "q = (d - scan_day) div 146097"
  have dq: "d - scan_day = 146097 * q + e" unfolding e_def q_def by (rule day_of_cycle)
  have e: "e \<in> set ?xs" using d by (simp add: day_ok_scan e_def)
  have shift: "day_ok cron n" if "n - scan_day = 146097 * k + x" "x \<in> set ?xs" for n k x
  proof -
    have "0 \<le> x" "x < 146097" using that(2) by (simp_all add: set_matchingDayIndexes)
    then show ?thesis using that mod_cycle [of x k] by (simp add: day_ok_scan)
  qed
  from v have gap: "list_all (\<lambda>g. g \<le> 366) (gaps ?xs)" "146097 - last ?xs + hd ?xs \<le> 366" "?xs \<noteq> []"
    by (auto simp: validateParsed_def Let_def CRON_SEARCH_LIMIT_DAYS_def DAY_SCAN_DAYS_def list_all_iff list_ex_iff
        split: if_splits)
  show ?thesis
  proof (cases "e < last ?xs")
    case True
    from next_in_sorted [OF sorted_matchingDayIndexes(1) gap(1) e True]
    obtain n where "n \<in> set ?xs" "e < n" "n \<le> e + 366" by blast
    with shift [of "d + (n - e)" q n] dq show ?thesis by (intro exI [of _ "d + (n - e)"]) simp
  next
    case False
    have "e \<le> last ?xs"
      using e sorted_matchingDayIndexes(1) [of cron] by (cases ?xs rule: rev_cases) (auto simp: sorted_append)
    with False have el: "e = last ?xs" by simp
    have h: "hd ?xs \<in> set ?xs" "0 \<le> hd ?xs" "e < 146097"
      using gap(3) e hd_in_set [of ?xs] by (auto simp: set_matchingDayIndexes)
    let ?n = "d + (146097 - e + hd ?xs)"
    have "day_ok cron ?n" by (rule shift [OF _ h(1), of _ "q + 1"]) (use dq in simp)
    with h gap(2) el show ?thesis by (intro exI [of _ ?n]) auto
  qed
qed

lemma valid_latest_day:
  assumes v: "validateParsed cron = None"
  shows "\<exists>m. m \<le> d0 \<and> day_ok cron m \<and> (\<forall>n. m < n \<and> n \<le> d0 \<longrightarrow> \<not> day_ok cron n)"
proof -
  let ?xs = "matchingDayIndexes cron"
  have "?xs \<noteq> []" using v by (auto simp: validateParsed_def Let_def)
  then obtain x where x: "day_ok cron x" using hd_in_set [of ?xs] by (auto simp: set_matchingDayIndexes)
  define y where "y = x + 146097 * (- \<bar>x\<bar> - \<bar>d0\<bar>)"
  have y: "day_ok cron y" using x day_ok_int_cycles [of cron x "- \<bar>x\<bar> - \<bar>d0\<bar>"] by (simp only: y_def)
  have y': "y \<le> d0" by (simp add: y_def)
  let ?S = "{m. y \<le> m \<and> m \<le> d0 \<and> day_ok cron m}"
  have "finite ?S" by (rule finite_subset [of _ "{y..d0}"]) auto
  moreover have "y \<in> ?S" using y y' by simp
  ultimately have "Max ?S \<in> ?S" "\<forall>n \<in> ?S. n \<le> Max ?S" using Max_in [of ?S] Max_ge [of ?S] by blast+
  then obtain M where M: "y \<le> M" "M \<le> d0" "day_ok cron M" and max: "\<And>n. y \<le> n \<Longrightarrow> n \<le> d0 \<Longrightarrow> day_ok cron n \<Longrightarrow> n \<le> M"
    by blast
  have "\<not> day_ok cron n" if "M < n" "n \<le> d0" for n using max [of n] M(1) that by linarith
  with M show ?thesis by blast
qed

definition tod :: "int \<Rightarrow> int" where
  "tod t = getUTCHours t * 60 + getUTCMinutes t"

lemma time_of_tod: "t mod MINUTE_MS = 0 \<Longrightarrow> t = Day t * DAY_MS + tod t * 60000"
  using time_parts(1) [of t] by (simp add: tod_def MINUTE_MS_def)

lemma tod_bounds: "0 \<le> tod t" "tod t < 1440"
  using time_parts [of t] by (simp_all add: tod_def)

lemma set_timesOfDay: "set (timesOfDay cron) = {int h * 60 + int m | h m. h \<in> set (hours cron) \<and> m \<in> set (minutes cron)}"
  by (auto simp: timesOfDay_def)

lemma fires_tod: "cron_fires cron t \<Longrightarrow> tod t \<in> set (timesOfDay cron) \<and> day_ok cron (Day t)"
proof -
  assume f: "cron_fires cron t"
  have "tod t = int (nat (getUTCHours t)) * 60 + int (nat (getUTCMinutes t))"
    using time_parts(2-5) [of t] by (simp add: tod_def)
  moreover have "nat (getUTCHours t) \<in> set (hours cron)" "nat (getUTCMinutes t) \<in> set (minutes cron)"
    "day_ok cron (Day t)" using f by (simp_all add: cron_fires_def cronDayMatches_day)
  ultimately show ?thesis unfolding set_timesOfDay by blast
qed

text \<open>A time made of a matching day and an hour and minute of the expression is an occurrence.\<close>

lemma parts_of_time:
  assumes "0 \<le> h" "h < 24" "0 \<le> m" "m < 60"
  shows "Day (d * DAY_MS + (h * 60 + m) * 60000) = d"
    and "getUTCHours (d * DAY_MS + (h * 60 + m) * 60000) = h"
    and "getUTCMinutes (d * DAY_MS + (h * 60 + m) * 60000) = m"
proof -
  define t where "t = d * DAY_MS + (h * 60 + m) * 60000"
  have t: "t = ((d * 24 + h) * 60 + m) * 60000" by (simp add: t_def DAY_MS_def MINUTE_MS_def algebra_simps)
  have min: "t div 60000 = (d * 24 + h) * 60 + m" unfolding t by (rule nonzero_mult_div_cancel_right) simp
  have "t div 3600000 = t div 60000 div 60" using zdiv_zmult2_eq [of 60 t 60000] by simp
  also have "\<dots> = d * 24 + h" unfolding min using assms(3,4) by simp
  finally have hour: "t div 3600000 = d * 24 + h" .
  have "t div 86400000 = t div 3600000 div 24" using zdiv_zmult2_eq [of 24 t 3600000] by simp
  also have "\<dots> = d" unfolding hour using assms(1,2) by simp
  finally have day: "t div 86400000 = d" .
  have "Day t = d" by (simp add: Day_def DAY_MS_def MINUTE_MS_def day)
  moreover have "getUTCHours t = h" using assms(1,2) by (simp add: getUTCHours_def MINUTE_MS_def hour)
  moreover have "((d * 24 + h) * 60 + m) mod 60 = m" using assms(3,4) mod_mult_self3 [of "d * 24 + h" 60 m] by simp
  then have "getUTCMinutes t = m" unfolding getUTCMinutes_def MINUTE_MS_def min .
  ultimately show "Day (d * DAY_MS + (h * 60 + m) * 60000) = d"
    "getUTCHours (d * DAY_MS + (h * 60 + m) * 60000) = h" "getUTCMinutes (d * DAY_MS + (h * 60 + m) * 60000) = m"
    unfolding t_def by simp_all
qed

lemma fires_on_day:
  assumes "cron_wf cron" "day_ok cron d" "x \<in> set (timesOfDay cron)"
  shows "cron_fires cron (d * DAY_MS + x * 60000) \<and> 0 \<le> x \<and> x < 1440"
proof -
  obtain h m where x: "x = int h * 60 + int m" "h \<in> set (hours cron)" "m \<in> set (minutes cron)"
    using assms(3) by (auto simp: set_timesOfDay)
  then have hm: "0 \<le> int h" "int h < 24" "0 \<le> int m" "int m < 60"
    using assms(1) by (auto simp: cron_wf_def list_all_iff)
  have "(d * DAY_MS + x * 60000) mod MINUTE_MS = 0"
    by (simp add: DAY_MS_def MINUTE_MS_def mod_eq_0_iff_dvd)
  then show ?thesis
    using parts_of_time [OF hm, of d] x assms(2) hm by (simp add: cron_fires_def cronDayMatches_day)
qed

lemma timesOfDay_not_Nil: "cron_wf cron \<Longrightarrow> timesOfDay cron \<noteq> []"
proof -
  assume "cron_wf cron"
  then obtain h m where "h \<in> set (hours cron)" "m \<in> set (minutes cron)"
    by (cases "hours cron"; cases "minutes cron") (auto simp: cron_wf_def)
  then have "int h * 60 + int m \<in> set (timesOfDay cron)" by (auto simp: set_timesOfDay)
  then show ?thesis by auto
qed

text \<open>
  An accepted expression fires within the search window: either later on the current day, or on the next
  matching day, which is at most 366 days after the last one.
\<close>

lemma valid_fires_soon:
  assumes "cron_wf cron" "validateParsed cron = None" "time mod MINUTE_MS = 0"
  shows "\<exists>u. time \<le> u \<and> u \<le> time + 366 * DAY_MS \<and> cron_fires cron u"
proof -
  obtain m where m: "m \<le> Day time" "day_ok cron m" "\<And>n. m < n \<Longrightarrow> n \<le> Day time \<Longrightarrow> \<not> day_ok cron n"
    using valid_latest_day [OF assms(2), of "Day time"] by blast
  obtain n where n: "m < n" "n \<le> m + 366" "day_ok cron n" using valid_next_day [OF assms(2) m(2)] by blast
  with m(3) [of n] have later: "Day time < n" by linarith
  have t: "time = Day time * DAY_MS + tod time * 60000" by (rule time_of_tod [OF assms(3)])
  have tod: "0 \<le> tod time" "tod time < 1440" by (rule tod_bounds)+
  obtain x where x: "x \<in> set (timesOfDay cron)" using timesOfDay_not_Nil [OF assms(1)] by (cases "timesOfDay cron") auto
  have fn: "cron_fires cron (n * DAY_MS + x * 60000)" "0 \<le> x" "x < 1440"
    using fires_on_day [OF assms(1) n(3) x] by auto
  have ge: "time \<le> n * DAY_MS + x * 60000"
    using later tod fn(2) t by (simp add: DAY_MS_def MINUTE_MS_def)
  consider (soon) "n < Day time + 366" | (today) "n = Day time + 366" "m = Day time" using n(2) m(1) by linarith
  then show ?thesis
  proof cases
    case soon
    then have "n * DAY_MS + x * 60000 \<le> time + 366 * DAY_MS"
      using tod fn t by (simp add: DAY_MS_def MINUTE_MS_def)
    with ge fn(1) show ?thesis by blast
  next
    case today
    show ?thesis
    proof (cases "x \<le> tod time")
      case True
      then have "n * DAY_MS + x * 60000 \<le> time + 366 * DAY_MS"
        using t today(1) by (simp add: DAY_MS_def MINUTE_MS_def)
      with ge fn(1) show ?thesis by blast
    next
      case False
      then have "time \<le> m * DAY_MS + x * 60000" "m * DAY_MS + x * 60000 \<le> time + 366 * DAY_MS"
        using t today(2) tod fn by (simp_all add: DAY_MS_def MINUTE_MS_def)
      with fires_on_day [OF assms(1) m(2) x] show ?thesis by blast
    qed
  qed
qed

subsection \<open>Spacing of occurrences\<close>

lemma min_opt_ge:
  "(case foldl min_opt acc gs of None \<Rightarrow> True | Some m \<Rightarrow> B \<le> m) \<longleftrightarrow>
     (case acc of None \<Rightarrow> True | Some m \<Rightarrow> B \<le> m) \<and> list_all (\<lambda>g. B \<le> g) gs"
  by (induction gs arbitrary: acc) (auto simp: min_opt_def split: option.splits)

lemma gaps_sorted_wrt:
  "list_all (\<lambda>g. B \<le> g) (gaps xs) \<Longrightarrow> 0 < (B::int) \<Longrightarrow> sorted_wrt (\<lambda>a b. a + B \<le> b) xs"
  by (induction xs rule: gaps.induct) fastforce+

lemma sorted_wrt_apart:
  "sorted_wrt (\<lambda>a b. a + B \<le> b) xs \<Longrightarrow> 0 < (B::int) \<Longrightarrow> x \<in> set xs \<Longrightarrow> y \<in> set xs \<Longrightarrow> x < y \<Longrightarrow> x + B \<le> y"
  by (induction xs) auto

lemma sorted_wrt_ends:
  "sorted_wrt (\<lambda>a b. a + B \<le> b) xs \<Longrightarrow> 0 < (B::int) \<Longrightarrow> x \<in> set xs \<Longrightarrow> hd xs \<le> x \<and> x \<le> last xs"
proof (induction xs)
  case (Cons a xs)
  show ?case
  proof (cases "xs = []")
    case False
    then have "a + B \<le> last xs" using Cons.prems(1) last_in_set [of xs] by simp
    then have "a \<le> last xs" using Cons.prems(2) by linarith
    with Cons False show ?thesis by (cases "x = a") auto
  qed (use Cons.prems in simp)
qed simp

lemma consecutive_gap:
  "sorted xs \<Longrightarrow> distinct xs \<Longrightarrow> e \<in> set xs \<Longrightarrow> e + 1 \<in> set xs \<Longrightarrow> 1 \<in> set (gaps (xs :: int list))"
proof (induction xs rule: gaps.induct)
  case (1 a b xs)
  show ?case
  proof (cases "e = a")
    case True
    with "1.prems" have "b = a + 1" by auto
    then show ?thesis by simp
  next
    case False
    with "1.prems" have "e \<in> set (b # xs)" "e + 1 \<in> set (b # xs)" by auto
    with 1 show ?thesis by simp
  qed
qed auto

lemma valid_consecutive:
  assumes "day_ok cron d" "day_ok cron (d + 1)"
  shows "firesOnConsecutiveDays (matchingDayIndexes cron)"
proof -
  let ?xs = "matchingDayIndexes cron"
  define e q where "e = (d - scan_day) mod 146097" and "q = (d - scan_day) div 146097"
  have dq: "d - scan_day = 146097 * q + e" unfolding e_def q_def by (rule day_of_cycle)
  have e: "e \<in> set ?xs" "0 \<le> e" "e < 146097" using assms(1) by (simp_all add: day_ok_scan e_def)
  then have ne: "?xs \<noteq> []" by auto
  have e1: "(d + 1 - scan_day) mod 146097 \<in> set ?xs" using assms(2) by (simp add: day_ok_scan)
  show ?thesis
  proof (cases "e + 1 < 146097")
    case True
    have "d + 1 - scan_day = 146097 * q + (e + 1)" using dq by simp
    then have "(d + 1 - scan_day) mod 146097 = e + 1" unfolding \<open>d + 1 - scan_day = _\<close>
      using e True by (intro mod_cycle) simp_all
    with e1 have "1 \<in> set (gaps ?xs)" using consecutive_gap [OF sorted_matchingDayIndexes e(1)] by simp
    with ne show ?thesis by (auto simp: firesOnConsecutiveDays_def list_ex_iff Let_def)
  next
    case False
    then have "e = 146096" using e by linarith
    then have last: "146096 \<in> set ?xs" using e by simp
    have "d + 1 - scan_day = 146097 * (q + 1) + 0" using dq e False by simp
    then have "(d + 1 - scan_day) mod 146097 = 0"
      unfolding \<open>d + 1 - scan_day = _\<close> by (intro mod_cycle) simp_all
    with e1 have first: "0 \<in> set ?xs" by simp
    have b: "0 \<le> x \<and> x \<le> 146096" if "x \<in> set ?xs" for x using that by (simp add: set_matchingDayIndexes)
    have "hd ?xs \<le> 0" using first sorted_matchingDayIndexes(1) [of cron] by (cases ?xs) auto
    then have "hd ?xs = 0" using b [OF hd_in_set [OF ne]] by simp
    moreover have "146096 \<le> last ?xs"
      using last sorted_matchingDayIndexes(1) [of cron] by (cases ?xs rule: rev_cases) (auto simp: sorted_append)
    then have "last ?xs = 146096" using b [OF last_in_set [OF ne]] by simp
    ultimately show ?thesis using ne by (simp add: firesOnConsecutiveDays_def DAY_SCAN_DAYS_def Let_def)
  qed
qed

lemma valid_times:
  assumes "validateParsed cron = None"
  shows "sorted_wrt (\<lambda>a b. a + 15 \<le> b) (timesOfDay cron)"
    and "firesOnConsecutiveDays (matchingDayIndexes cron) \<Longrightarrow> 15 \<le> hd (timesOfDay cron) + 1440 - last (timesOfDay cron)"
proof -
  let ?m = "foldl min_opt None (gaps (timesOfDay cron))"
  have v: "case minimumCronIntervalMinutes cron (matchingDayIndexes cron) of None \<Rightarrow> True | Some m \<Rightarrow> 15 \<le> m"
    using assms by (auto simp: validateParsed_def Let_def MIN_AUTOMATION_SCHEDULE_INTERVAL_MINUTES_def split: if_splits option.splits)
  then have "case ?m of None \<Rightarrow> True | Some m \<Rightarrow> 15 \<le> m"
    by (auto simp: minimumCronIntervalMinutes_def Let_def min_opt_def split: option.splits if_splits)
  then have "list_all (\<lambda>g. 15 \<le> g) (gaps (timesOfDay cron))" by (simp add: min_opt_ge)
  then show "sorted_wrt (\<lambda>a b. a + 15 \<le> b) (timesOfDay cron)" by (rule gaps_sorted_wrt) simp
  assume "firesOnConsecutiveDays (matchingDayIndexes cron)"
  with v show "15 \<le> hd (timesOfDay cron) + 1440 - last (timesOfDay cron)"
    by (auto simp: minimumCronIntervalMinutes_def Let_def min_opt_def split: option.splits)
qed

lemma valid_spacing:
  assumes v: "validateParsed cron = None" and t: "cron_fires cron t" and u: "cron_fires cron u" and less: "t < u"
  shows "t + 15 * MINUTE_MS \<le> u"
proof -
  have t': "t = Day t * DAY_MS + tod t * 60000" and u': "u = Day u * DAY_MS + tod u * 60000"
    using t u by (auto intro!: time_of_tod simp: cron_fires_def)
  have tb: "0 \<le> tod t" "tod t < 1440" "0 \<le> tod u" "tod u < 1440" by (rule tod_bounds)+
  have f: "tod t \<in> set (timesOfDay cron)" "day_ok cron (Day t)" "tod u \<in> set (timesOfDay cron)" "day_ok cron (Day u)"
    using fires_tod [OF t] fires_tod [OF u] by auto
  have "Day t \<le> Day u"
    using less by (simp add: Day_def DAY_MS_def MINUTE_MS_def zdiv_mono1)
  then consider "Day u = Day t" | "Day u = Day t + 1" | "Day t + 2 \<le> Day u" by linarith
  then show ?thesis
  proof cases
    case 1
    then have "tod t < tod u" using less t' u' by (simp add: DAY_MS_def MINUTE_MS_def)
    with sorted_wrt_apart [OF valid_times(1) [OF v] _ f(1,3)] have "tod t + 15 \<le> tod u" by simp
    with 1 t' u' show ?thesis by (simp add: MINUTE_MS_def)
  next
    case 2
    have "firesOnConsecutiveDays (matchingDayIndexes cron)"
      by (rule valid_consecutive [OF f(2)]) (use f(4) 2 in simp)
    from valid_times(2) [OF v this] sorted_wrt_ends [OF valid_times(1) [OF v] _ f(1)]
      sorted_wrt_ends [OF valid_times(1) [OF v] _ f(3)]
    have "tod t + 15 \<le> tod u + 1440" by simp
    with 2 t' u' show ?thesis by (simp add: MINUTE_MS_def DAY_MS_def)
  next
    case 3
    with t' u' tb show ?thesis by (simp add: MINUTE_MS_def DAY_MS_def)
  qed
qed

subsection \<open>An accepted schedule\<close>

definition hourly :: ParsedCronExpression where
  "hourly = \<lparr>minutes = [0], hours = [0..<24], daysOfMonth = [1..<32], months = [1..<13], daysOfWeek = [0..<7],
             daysOfMonthRestricted = False, daysOfWeekRestricted = False\<rparr>"

lemma parse_hourly: "parseCronExpression ''@Hourly '' = Return hourly"
  by code_simp

lemma DateFromDay_bounds: "1 \<le> DateFromDay d \<and> DateFromDay d \<le> 31"
proof -
  define y r where "y = YearFromDay d" and "r = d - DayFromYear y"
  have r: "0 \<le> r" "r < (if leap y then 366 else 365)"
    using YearFromDay_bounds [of d] DayFromYear_step [of y] by (auto simp: r_def y_def)
  have "DateFromDay d = r - month_starts (leap y) ! (length (takeWhile (\<lambda>s. s \<le> r) (month_starts (leap y))) - 1) + 1"
    by (simp add: DateFromDay_def MonthFromDay_def Let_def y_def r_def)
  with r show ?thesis by (cases "leap y") (auto simp: month_starts_def nth_Cons' split: if_splits)
qed

lemma hourly_day_ok: "day_ok hourly d"
  using MonthFromDay_less [of d] DateFromDay_bounds [of d]
  by (auto simp: day_ok_def cronDayMatches_def hourly_def getUTCMonth_def getUTCDate_def getUTCDay_def nat_less_iff)

lemma gaps_upto: "set (gaps [a..b]) \<subseteq> {1}"
proof (induction a b rule: upto.induct)
  case (1 a b)
  show ?case
  proof (cases "a < b")
    case True
    then have "[a..b] = a # (a + 1) # [a + 1 + 1..b]" "[a + 1..b] = (a + 1) # [a + 1 + 1..b]"
      by (simp_all add: upto_rec1)
    with 1 True show ?thesis by simp
  next
    case False
    then have "[a..b] = [] \<or> [a..b] = [a]" by (cases "a = b") auto
    then show ?thesis by auto
  qed
qed

lemma hourly_accepted: "validateParsed hourly = None"
proof -
  have days: "matchingDayIndexes hourly = [0..146096]"
    using hourly_day_ok by (simp add: matchingDayIndexes_def scan_start DAY_SCAN_DAYS_def day_ok_def)
  have "[0..146096] = [0..146096 - 1] @ [146096::int]" by (rule upto_rec2) simp
  then have "last [0..146096] = (146096::int)" by (metis last_snoc)
  then have ends: "hd [0..146096] = (0::int)" "last [0..146096] = (146096::int)" "[0..146096::int] \<noteq> []"
    using upto_rec1 [of 0 "146096::int"] by (simp_all del: upto_rec_numeral)
  have times: "case foldl min_opt None (gaps (timesOfDay hourly)) of None \<Rightarrow> False | Some m \<Rightarrow> m = 60"
    "hd (timesOfDay hourly) = 0" "last (timesOfDay hourly) = 1380"
    by code_simp+
  show ?thesis
    using gaps_upto [of 0 146096] ends times
    by (auto simp: validateParsed_def days CRON_SEARCH_LIMIT_DAYS_def DAY_SCAN_DAYS_def list_ex_iff Let_def
        minimumCronIntervalMinutes_def MIN_AUTOMATION_SCHEDULE_INTERVAL_MINUTES_def min_opt_def split: option.splits if_splits)
qed

subsection \<open>Properties\<close>

text \<open>
  C12: The search for the next run, which skips whole days and hours, returns a time exactly when that
  time is the first occurrence strictly after the start and lies within the search window.
\<close>

theorem next_occurrence_is_first:
  assumes "0 \<le> after"
  shows "nextCronOccurrence cron after = Return t \<longleftrightarrow>
     after < t \<and> t \<le> first_minute after + CRON_SEARCH_LIMIT_DAYS * DAY_MS \<and> cron_fires cron t
     \<and> (\<forall>u. after < u \<and> u < t \<longrightarrow> \<not> cron_fires cron u)"
proof -
  have spec: "next_spec cron (first_minute after + CRON_SEARCH_LIMIT_DAYS * DAY_MS) (first_minute after) (nextCronOccurrence cron after)"
    unfolding nextCronOccurrence_def
    by (rule next_loop_spec [OF first_minute_facts(3) [OF assms] first_minute_facts(2)])
  have fm: "cron_fires cron u \<Longrightarrow> after < u \<longleftrightarrow> first_minute after \<le> u" for u
    using first_minute_facts(1) [of after] first_minute_facts(4) [of u after] by (auto simp: cron_fires_def)
  show ?thesis
  proof
    assume "nextCronOccurrence cron after = Return t"
    with spec fm show "after < t \<and> t \<le> first_minute after + CRON_SEARCH_LIMIT_DAYS * DAY_MS \<and> cron_fires cron t
       \<and> (\<forall>u. after < u \<and> u < t \<longrightarrow> \<not> cron_fires cron u)" by (auto simp: next_spec_def)
  next
    assume t: "after < t \<and> t \<le> first_minute after + CRON_SEARCH_LIMIT_DAYS * DAY_MS \<and> cron_fires cron t
       \<and> (\<forall>u. after < u \<and> u < t \<longrightarrow> \<not> cron_fires cron u)"
    show "nextCronOccurrence cron after = Return t"
    proof (cases "nextCronOccurrence cron after")
      case (Inl e)
      with spec t fm show ?thesis by (auto simp: next_spec_def)
    next
      case (Inr s)
      with spec t fm have "\<not> s < t" "\<not> t < s" by (auto simp: next_spec_def)
      with Inr show ?thesis by simp
    qed
  qed
qed

theorem next_occurrence_is_first_witness:
  "cron_fires hourly 3600000 \<and> \<not> cron_fires hourly 1800000"
proof -
  have "nextCronOccurrence hourly 0 = Return 3600000" by code_simp
  with next_occurrence_is_first [of 0 hourly 3600000] show ?thesis by simp
qed

text \<open>
  Whatever expression the parser accepts, every field has at least one value and every value is in
  the range of its field, with Sunday always 0.
\<close>

theorem parsed_fields_in_range:
  assumes "parseCronExpression expr = Return cron"
  shows "cron_wf cron"
  by (rule parseCronExpression_wf [OF assms])

theorem parsed_fields_in_range_witness: "cron_wf hourly"
  by (rule parsed_fields_in_range [OF parse_hourly])

text \<open>
  C25: An automation schedule that validation accepts always has a next run: the search for it never
  gives up, from any start.
\<close>

theorem accepted_schedule_has_next_run:
  assumes "validateAutomationSchedule (JStr expr) = None" "0 \<le> after"
  shows "\<exists>cron t. parseCronExpression expr = Return cron \<and> nextCronOccurrence cron after = Return t"
proof -
  obtain cron where p: "parseCronExpression expr = Return cron" and v: "validateParsed cron = None"
    using assms(1) by (auto simp: validateAutomationSchedule_def split: if_splits sum.splits)
  have spec: "next_spec cron (first_minute after + CRON_SEARCH_LIMIT_DAYS * DAY_MS) (first_minute after) (nextCronOccurrence cron after)"
    unfolding nextCronOccurrence_def
    by (rule next_loop_spec [OF first_minute_facts(3) [OF assms(2)] first_minute_facts(2)])
  from valid_fires_soon [OF parseCronExpression_wf [OF p] v first_minute_facts(2)]
  obtain t where "nextCronOccurrence cron after = Return t"
    using spec by (cases "nextCronOccurrence cron after") (auto simp: next_spec_def CRON_SEARCH_LIMIT_DAYS_def)
  with p show ?thesis by blast
qed

lemma hourly_schedule_accepted: "validateAutomationSchedule (JStr ''@Hourly '') = None"
proof -
  have "js_trim ''@Hourly '' \<noteq> []" by code_simp
  then show ?thesis
    by (simp add: validateAutomationSchedule_def parse_hourly hourly_accepted AUTOMATION_SCHEDULE_MAX_LENGTH_def)
qed

theorem accepted_schedule_has_next_run_witness:
  "\<exists>cron t. parseCronExpression ''@Hourly '' = Return cron \<and> nextCronOccurrence cron 1700000000000 = Return t"
  by (rule accepted_schedule_has_next_run [OF hourly_schedule_accepted]) simp

text \<open>
  A schedule that validation accepts never fires twice within fifteen minutes, across midnight and
  across the end of the scanned calendar cycle included.
\<close>

theorem accepted_schedule_is_spaced:
  assumes "validateAutomationSchedule (JStr expr) = None" "parseCronExpression expr = Return cron"
    and "cron_fires cron t" "cron_fires cron u" "t < u"
  shows "t + MIN_AUTOMATION_SCHEDULE_INTERVAL_MINUTES * MINUTE_MS \<le> u"
proof -
  have "js_trim expr \<noteq> [] \<and> validateParsed cron = None"
    using assms(1,2) by (auto simp: validateAutomationSchedule_def split: if_splits)
  then show ?thesis
    using valid_spacing [OF _ assms(3-5)] by (simp add: MIN_AUTOMATION_SCHEDULE_INTERVAL_MINUTES_def)
qed

theorem accepted_schedule_is_spaced_witness: "(0::int) + MIN_AUTOMATION_SCHEDULE_INTERVAL_MINUTES * MINUTE_MS \<le> 3600000"
proof -
  have "cron_fires hourly 0" "cron_fires hourly 3600000" by code_simp+
  from accepted_schedule_is_spaced [OF hourly_schedule_accepted parse_hourly this] show ?thesis by simp
qed

end
