(* ===== verification/Task_State.thy ===== *)
theory Task_State
  imports Cost_Guard
begin

section \<open>Task states\<close>

text \<open>
  The model of \<^verbatim>\<open>packages/core/src/utils/workerStateManager.types.ts\<close>,
  \<^verbatim>\<open>workerStateTransition.ts\<close> and \<^verbatim>\<open>workerStateManager.ts\<close>: the state of a task in Redis,
  its transitions, and the compare-and-set loop that writes them.

  \<^item> Redis is a map from keys to serialized states. The type of serialized states is a
    type variable; \<open>JSON.stringify\<close> and \<open>JSON.parse\<close> are the record \<open>codec\<close>. What other
    clients do (and the expiry of keys) is a function \<open>env\<close> from the position in the operation to
    a change of the map, applied before every command.
  \<^item> Timestamps are milliseconds; the clock is the argument \<open>now\<close>. \<open>redactSecrets\<close> and the active cost
    guard are arguments too.
  \<^item> The rows of \<open>task_history\<close>, the published events and the calls of
    \<open>settlePlanRefinementForPullRequest\<close> are logs; whether an insert or a publication fails is the
    argument \<open>io\<close>.
\<close>

subsection \<open>Data\<close>

datatype TaskState = Pending | Processing | Claude_execution | Post_processing | Completed | Failed | Cancelled

datatype TaskTerminalReason =
    R_timed_out | R_cost_cap_exceeded | R_stalled | R_degenerate_output | R_cancelled_issue_closed
  | R_cancelled_label_removed | R_cancelled_pr_closed | R_cancelled_by_user | R_pr_merged | R_skipped_issue_done

fun show_state :: "TaskState \<Rightarrow> string" where
  "show_state Pending = ''pending''"
| "show_state Processing = ''processing''"
| "show_state Claude_execution = ''claude_execution''"
| "show_state Post_processing = ''post_processing''"
| "show_state Completed = ''completed''"
| "show_state Failed = ''failed''"
| "show_state Cancelled = ''cancelled''"

fun show_reason :: "TaskTerminalReason \<Rightarrow> string" where
  "show_reason R_timed_out = ''timed_out''"
| "show_reason R_cost_cap_exceeded = ''cost_cap_exceeded''"
| "show_reason R_stalled = ''stalled''"
| "show_reason R_degenerate_output = ''degenerate_output''"
| "show_reason R_cancelled_issue_closed = ''cancelled_issue_closed''"
| "show_reason R_cancelled_label_removed = ''cancelled_label_removed''"
| "show_reason R_cancelled_pr_closed = ''cancelled_pr_closed''"
| "show_reason R_cancelled_by_user = ''cancelled_by_user''"
| "show_reason R_pr_merged = ''pr_merged''"
| "show_reason R_skipped_issue_done = ''skipped_issue_done''"

definition knownReasons :: "TaskTerminalReason list" where
  "knownReasons = [R_timed_out, R_cost_cap_exceeded, R_stalled, R_degenerate_output, R_cancelled_issue_closed,
     R_cancelled_label_removed, R_cancelled_pr_closed, R_cancelled_by_user, R_pr_merged, R_skipped_issue_done]"

type_synonym js_object = "(string \<times> jsval) list"

record HistoryEntry =
  h_state :: TaskState
  h_timestamp :: int
  h_reason :: string
  h_metadata :: "js_object option"

record LastError =
  err_message :: string
  err_category :: string
  err_timestamp :: int

record TaskStateData =
  ts_taskId :: string
  ts_issueRef :: js_object
  ts_correlationId :: string
  ts_state :: TaskState
  ts_createdAt :: int
  ts_updatedAt :: int
  ts_version :: "nat option"
  ts_attempts :: nat
  ts_history :: "HistoryEntry list"
  ts_lastError :: "LastError option"
  ts_terminalReason :: "TaskTerminalReason option"
  ts_worktreeInfo :: "js_object option"
  ts_claudeResult :: "js_object option"
  ts_prResult :: "js_object option"

record UpdateMetadata =
  um_terminalReason :: "TaskTerminalReason option"
  um_isRetry :: bool
  um_reopenTerminal :: bool
  um_withdrawnQueuedRetry :: bool
  um_error :: "(string \<times> string option) option"
  um_worktreeInfo :: "js_object option"
  um_claudeResult :: "js_object option"
  um_prResult :: "js_object option"
  um_reason :: "string option"
  um_historyMetadata :: "js_object option"
  um_errorCategory :: "string option"

definition no_metadata :: UpdateMetadata where
  "no_metadata = \<lparr>um_terminalReason = None, um_isRetry = False, um_reopenTerminal = False, um_withdrawnQueuedRetry = False,
     um_error = None, um_worktreeInfo = None, um_claudeResult = None, um_prResult = None, um_reason = None,
     um_historyMetadata = None, um_errorCategory = None\<rparr>"

record TaskStateExpectation =
  exp_state :: TaskState
  exp_createdAt :: int
  exp_updatedAt :: int
  exp_correlationId :: string
  exp_version :: "nat option"

definition or_zero :: "nat option \<Rightarrow> nat" where
  "or_zero v = (case v of None \<Rightarrow> 0 | Some n \<Rightarrow> n)"

definition or_empty :: "js_object option \<Rightarrow> js_object" where
  "or_empty o' = (case o' of None \<Rightarrow> [] | Some r \<Rightarrow> r)"

definition isBookkeepingCancellation :: "TaskStateData \<Rightarrow> bool" where
  "isBookkeepingCancellation task =
     (if ts_state task \<noteq> Cancelled \<or> ts_terminalReason task \<noteq> None then False
      else if ts_history task = [] then False
      else let entry = last (ts_history task);
               status = js_get (or_empty (h_metadata entry)) ''jobResultStatus''
           in js_string_is ''requeued'' status \<or> js_string_is ''rescheduled'' status
              \<or> list_ex (\<lambda>w. h_reason entry = ''Task job '' @ w \<or> prefix (''Task job '' @ w @ '':'') (h_reason entry))
                  [''requeued'', ''rescheduled''])"

subsection \<open>Transitions\<close>

definition taskStateExpectation :: "TaskStateData \<Rightarrow> TaskStateExpectation" where
  "taskStateExpectation task =
     \<lparr>exp_state = ts_state task, exp_createdAt = ts_createdAt task, exp_updatedAt = ts_updatedAt task,
      exp_correlationId = ts_correlationId task, exp_version = ts_version task\<rparr>"

definition matchesExpectation :: "TaskStateData \<Rightarrow> TaskStateExpectation \<Rightarrow> bool" where
  "matchesExpectation task e =
     (ts_state task = exp_state e \<and> ts_createdAt task = exp_createdAt e \<and> ts_updatedAt task = exp_updatedAt e
      \<and> ts_correlationId task = exp_correlationId e \<and> or_zero (ts_version task) = or_zero (exp_version e))"

definition buildTaskStateMutation ::
  "int \<Rightarrow> TaskStateData \<Rightarrow> (TaskStateData \<Rightarrow> TaskStateData) \<Rightarrow> TaskStateData" where
  "buildTaskStateMutation now current mutate =
     mutate (current\<lparr>ts_updatedAt := now, ts_version := Some (or_zero (ts_version current) + 1)\<rparr>)"

definition parse_reason :: "jsval \<Rightarrow> TaskTerminalReason option" where
  "parse_reason v =
     (case v of
        JStr s \<Rightarrow> find (\<lambda>r. show_reason r = (if s = ''user_cancelled'' then ''cancelled_by_user'' else s)) knownReasons
      | _ \<Rightarrow> None)"

definition or_else :: "'a option \<Rightarrow> 'a option \<Rightarrow> 'a option" where
  "or_else a b = (case a of None \<Rightarrow> b | Some x \<Rightarrow> Some x)"

definition resolveTerminalReason ::
  "guard option \<Rightarrow> string \<Rightarrow> TaskState \<Rightarrow> UpdateMetadata \<Rightarrow> TaskTerminalReason option" where
  "resolveTerminalReason active tid newState md =
     or_else (um_terminalReason md)
      (or_else (parse_reason (js_get (or_empty (um_historyMetadata md)) ''cancellationReason''))
       (or_else
         (let r = js_lower (case um_reason md of None \<Rightarrow> [] | Some r \<Rightarrow> r)
          in if newState = Cancelled \<and> (js_includes r ''cancelled by user'' \<or> js_includes r ''user request'')
             then Some R_cancelled_by_user else None)
         (map_option (\<lambda>_. R_cost_cap_exceeded) (runCostCapTerminalReason active tid (show_state newState)))))"

record TaskStateTransition =
  tr_state :: TaskStateData
  tr_previousState :: TaskState
  tr_reason :: string

record task_env =
  redactSecrets :: "string \<Rightarrow> string"
  activeGuard :: "guard option"

definition reason_metadata :: "TaskTerminalReason option \<Rightarrow> js_object" where
  "reason_metadata r = (case r of None \<Rightarrow> [] | Some x \<Rightarrow> [(''terminalReason'', JStr (show_reason x))])"

definition buildTaskStateTransition ::
  "task_env \<Rightarrow> int \<Rightarrow> TaskStateData \<Rightarrow> TaskState \<Rightarrow> UpdateMetadata \<Rightarrow> TaskStateTransition" where
  "buildTaskStateTransition te now current newState md =
     (let previousState = ts_state current;
          reason = redactSecrets te (case um_reason md of Some r \<Rightarrow> r
                                     | None \<Rightarrow> ''State changed from '' @ show_state previousState);
          terminal = resolveTerminalReason (activeGuard te) (ts_taskId current) newState md;
          state = buildTaskStateMutation now current (\<lambda>nxt. nxt\<lparr>
            ts_state := newState,
            ts_terminalReason := terminal,
            ts_attempts := (if um_isRetry md then ts_attempts nxt + 1 else ts_attempts nxt),
            ts_lastError := (case um_error md of
                None \<Rightarrow> ts_lastError nxt
              | Some (m, c) \<Rightarrow> Some \<lparr>err_message = redactSecrets te m,
                  err_category = (case c of Some c' \<Rightarrow> c' | None \<Rightarrow> ''unknown''), err_timestamp = now\<rparr>),
            ts_worktreeInfo := or_else (um_worktreeInfo md) (ts_worktreeInfo nxt),
            ts_claudeResult := or_else (um_claudeResult md) (ts_claudeResult nxt),
            ts_prResult := or_else (um_prResult md) (ts_prResult nxt),
            ts_history := ts_history nxt @ [\<lparr>h_state = newState, h_timestamp = now, h_reason = reason,
              h_metadata = Some (js_spread (or_empty (um_historyMetadata md)) (reason_metadata terminal))\<rparr>]\<rparr>)
      in \<lparr>tr_state = state, tr_previousState = previousState, tr_reason = reason\<rparr>)"

subsection \<open>Redis and the logs\<close>

record 'j codec =
  json_stringify :: "TaskStateData \<Rightarrow> 'j"
  json_parse :: "'j \<Rightarrow> TaskStateData"

type_synonym 'j redis = "string \<rightharpoonup> 'j"

text \<open>The script \<open>COMPARE_AND_SET_TASK_STATE_SCRIPT\<close>, run atomically by Redis.\<close>

definition compareAndSetTaskStateData ::
  "'j codec \<Rightarrow> string \<Rightarrow> 'j \<Rightarrow> TaskStateData \<Rightarrow> 'j redis \<Rightarrow> bool \<times> 'j redis" where
  "compareAndSetTaskStateData cd key currentJson state r =
     (if r key \<noteq> Some currentJson then (False, r) else (True, r(key \<mapsto> json_stringify cd state)))"

record history_row =
  row_task :: string
  row_state :: TaskState
  row_timestamp :: int
  row_reason :: string
  row_previous :: "TaskState option"

record task_event =
  ev_task :: string
  ev_state :: TaskState
  ev_previous :: "TaskState option"
  ev_timestamp :: int
  ev_version :: "nat option"

record 'j world =
  redis :: "'j redis"
  tasks :: "(string \<times> string option) list"
  task_history :: "history_row list"
  events :: "task_event list"
  settled :: "(string \<times> jsval) list"

text \<open>Outcome of the database insert and of the event publication that follow a write.\<close>

record publication_io =
  io_history_error :: "string option"
  io_event :: "bool result"

record TaskStatePublicationResult =
  historyPersisted :: bool
  eventPublished :: bool
  pub_errors :: "string list"

definition TERMINAL_TASK_STATES :: "TaskState list" where
  "TERMINAL_TASK_STATES = [Completed, Failed, Cancelled]"

definition PULL_REQUEST_TASK_TYPES :: "string list" where
  "PULL_REQUEST_TASK_TYPES = [''pr-comment'', ''review'', ''merge_conflict'']"

definition repository_of :: "js_object \<Rightarrow> string" where
  "repository_of ref =
     (case (js_get ref ''repoOwner'', js_get ref ''repoName'') of
        (JStr o', JStr n) \<Rightarrow> o' @ ''/'' @ n | _ \<Rightarrow> [])"

definition settlePlanRefinementAfterTask :: "string \<Rightarrow> TaskStateTransition \<Rightarrow> 'j world \<Rightarrow> 'j world" where
  "settlePlanRefinementAfterTask tid tr w =
     (let state = tr_state tr; ref = ts_issueRef state;
          isPullRequestTask = (list_ex (\<lambda>t. js_string_is t (js_get ref ''type'')) PULL_REQUEST_TASK_TYPES
                               \<or> prefix ''pr-comment-'' tid \<or> prefix ''pr-comments-'' tid)
      in if ts_state state \<notin> set TERMINAL_TASK_STATES \<or> tr_previousState tr = ts_state state then w
         else if \<not> isPullRequestTask then w
         else case js_get ref ''number'' of
                JNum n \<Rightarrow> w\<lparr>settled := settled w @ [(repository_of ref, JNum n)]\<rparr>
              | _ \<Rightarrow> w)"

definition persist_history :: "string \<Rightarrow> TaskStateTransition \<Rightarrow> publication_io \<Rightarrow> 'j world \<Rightarrow> 'j world" where
  "persist_history tid tr io w =
     (case io_history_error io of
        Some _ \<Rightarrow> w
      | None \<Rightarrow> w\<lparr>task_history := task_history w @ [\<lparr>row_task = tid, row_state = ts_state (tr_state tr),
          row_timestamp = ts_updatedAt (tr_state tr), row_reason = tr_reason tr,
          row_previous = Some (tr_previousState tr)\<rparr>]\<rparr>)"

definition publish_update :: "string \<Rightarrow> TaskStateData \<Rightarrow> TaskState option \<Rightarrow> bool result \<Rightarrow> 'j world \<Rightarrow> 'j world" where
  "publish_update tid state previous outcome w =
     (if outcome = Return True
      then w\<lparr>events := events w @ [\<lparr>ev_task = tid, ev_state = ts_state state, ev_previous = previous,
             ev_timestamp = ts_updatedAt state, ev_version = ts_version state\<rparr>]\<rparr>
      else w)"

definition publishTaskStateTransition ::
  "string \<Rightarrow> TaskStateTransition \<Rightarrow> publication_io \<Rightarrow> 'j world \<Rightarrow> TaskStatePublicationResult \<times> 'j world" where
  "publishTaskStateTransition tid tr io w =
     (let history_errors = (case io_history_error io of None \<Rightarrow> [] | Some e \<Rightarrow> [''history: '' @ e]);
          event_errors = (case io_event io of
              Inl e \<Rightarrow> [''event: '' @ e]
            | Inr ok \<Rightarrow> (if ok then [] else [''event: publisher returned false'']));
          w1 = persist_history tid tr io w;
          w2 = publish_update tid (tr_state tr) (Some (tr_previousState tr)) (io_event io) w1;
          w3 = settlePlanRefinementAfterTask tid tr w2
      in (\<lparr>historyPersisted = (io_history_error io = None), eventPublished = (io_event io = Return True),
           pub_errors = history_errors @ event_errors\<rparr>, w3))"

subsection \<open>The worker state manager\<close>

record 'j manager =
  m_codec :: "'j codec"
  m_task_env :: task_env
  m_keyPrefix :: string
  m_now :: "nat \<Rightarrow> int"
  m_env :: "nat \<Rightarrow> 'j redis \<Rightarrow> 'j redis"
  m_io :: publication_io

definition MAX_ATOMIC_UPDATE_ATTEMPTS :: nat where
  "MAX_ATOMIC_UPDATE_ATTEMPTS = 8"

definition getTaskKey :: "'j manager \<Rightarrow> string \<Rightarrow> string" where
  "getTaskKey m tid = m_keyPrefix m @ tid"

definition hasPullRequestResult :: "TaskStateData \<Rightarrow> bool" where
  "hasPullRequestResult task =
     (case ts_prResult task of
        None \<Rightarrow> False
      | Some r \<Rightarrow> js_truthy (js_get r ''prNumber'') \<or> js_get r ''prCreated'' = JBool True)"

definition isTerminalTaskContinuation :: "TaskStateData \<Rightarrow> TaskState \<Rightarrow> UpdateMetadata \<Rightarrow> bool" where
  "isTerminalTaskContinuation current newState md =
     (newState = Processing \<and> um_reopenTerminal md
      \<or> ts_state current = Failed
        \<and> (newState = Processing \<and> um_isRetry md \<or> newState = Cancelled \<and> um_withdrawnQueuedRetry md))"

definition closes_issue :: "UpdateMetadata \<Rightarrow> bool" where
  "closes_issue md =
     (case um_terminalReason md of
        Some r \<Rightarrow> r = R_cancelled_issue_closed
      | None \<Rightarrow> js_get (or_empty (um_historyMetadata md)) ''cancellationReason'' = JStr ''cancelled_issue_closed'')"

text \<open>The early returns of \<open>updateTaskState\<close>: the update is ignored and the current state returned.\<close>

definition update_ignored :: "TaskStateData \<Rightarrow> TaskState \<Rightarrow> UpdateMetadata \<Rightarrow> bool" where
  "update_ignored current newState md =
     (let isHandoff = isBookkeepingCancellation current
      in newState = Cancelled \<and> hasPullRequestResult current \<and> closes_issue md
       \<or> ts_state current = Cancelled \<and> \<not> isHandoff \<and> \<not> isTerminalTaskContinuation current newState md
       \<or> ts_state current \<in> set TERMINAL_TASK_STATES \<and> ts_state current \<noteq> newState
         \<and> \<not> isTerminalTaskContinuation current newState md \<and> \<not> isHandoff)"

text \<open>
  The three operations that run a compare-and-set loop, and what one round of each writes for the state
  it read; \<open>None\<close> where the round returns that state instead.
\<close>

datatype task_op =
    Op_update TaskState UpdateMetadata
  | Op_issueRef js_object
  | Op_historyMetadata TaskState js_object

definition last_history_index :: "TaskState \<Rightarrow> HistoryEntry list \<Rightarrow> nat option" where
  "last_history_index st hs =
     (case filter (\<lambda>i. h_state (hs ! i) = st) [0..<length hs] of [] \<Rightarrow> None | is \<Rightarrow> Some (last is))"

fun decide_op :: "task_env \<Rightarrow> int \<Rightarrow> task_op \<Rightarrow> TaskStateData \<Rightarrow> TaskStateData option" where
  "decide_op te now (Op_update newState md) current =
     (if update_ignored current newState md then None
      else Some (tr_state (buildTaskStateTransition te now current newState md)))"
| "decide_op te now (Op_issueRef patch) current =
     Some (buildTaskStateMutation now current (\<lambda>nxt. nxt\<lparr>ts_issueRef := js_spread (ts_issueRef nxt) patch\<rparr>))"
| "decide_op te now (Op_historyMetadata st md) current =
     (case last_history_index st (ts_history current) of
        None \<Rightarrow> None
      | Some i \<Rightarrow> Some (buildTaskStateMutation now current (\<lambda>nxt. nxt\<lparr>ts_history := (ts_history nxt)
          [i := (ts_history nxt ! i)\<lparr>h_metadata := Some (js_spread (or_empty (h_metadata (ts_history nxt ! i))) md)\<rparr>]\<rparr>)))"

datatype cas_outcome =
    Missing
  | Kept TaskStateData
  | Written TaskStateData TaskStateData
  | Conflicted

text \<open>The loop itself: \<open>n\<close> rounds are left, \<open>k\<close> is the number of the round.\<close>

fun cas_loop :: "'j manager \<Rightarrow> string \<Rightarrow> task_op \<Rightarrow> nat \<Rightarrow> nat \<Rightarrow> 'j redis \<Rightarrow> cas_outcome \<times> 'j redis" where
  "cas_loop m key op 0 k r = (Conflicted, r)"
| "cas_loop m key op (Suc n) k r =
     (let r1 = m_env m (2 * k) r
      in case r1 key of
           None \<Rightarrow> (Missing, r1)
         | Some json \<Rightarrow>
             (let current = json_parse (m_codec m) json
              in case decide_op (m_task_env m) (m_now m k) op current of
                   None \<Rightarrow> (Kept current, r1)
                 | Some state \<Rightarrow>
                     (case compareAndSetTaskStateData (m_codec m) key json state (m_env m (2 * k + 1) r1) of
                        (updated, r2) \<Rightarrow>
                          (if updated then (Written current state, r2) else cas_loop m key op n (Suc k) r2))))"

definition run_op :: "'j manager \<Rightarrow> string \<Rightarrow> task_op \<Rightarrow> 'j world \<Rightarrow> cas_outcome \<times> 'j world" where
  "run_op m tid op w =
     (case cas_loop m (getTaskKey m tid) op MAX_ATOMIC_UPDATE_ATTEMPTS 0 (redis w) of
        (out, r) \<Rightarrow> (out, w\<lparr>redis := r\<rparr>))"

definition transition_of :: "task_env \<Rightarrow> TaskStateData \<Rightarrow> TaskStateData \<Rightarrow> UpdateMetadata \<Rightarrow> TaskStateTransition" where
  "transition_of te current state md =
     \<lparr>tr_state = state, tr_previousState = ts_state current,
      tr_reason = redactSecrets te (case um_reason md of Some r \<Rightarrow> r
                                    | None \<Rightarrow> ''State changed from '' @ show_state (ts_state current))\<rparr>"

definition updateTaskState ::
  "'j manager \<Rightarrow> string \<Rightarrow> TaskState \<Rightarrow> UpdateMetadata \<Rightarrow> 'j world \<Rightarrow> TaskStateData result \<times> 'j world" where
  "updateTaskState m tid newState md w =
     (case run_op m tid (Op_update newState md) w of
        (Missing, w') \<Rightarrow> (Throw (''Task state not found for taskId: '' @ tid), w')
      | (Kept current, w') \<Rightarrow> (Return current, w')
      | (Written current state, w') \<Rightarrow>
          (Return state, snd (publishTaskStateTransition tid (transition_of (m_task_env m) current state md) (m_io m) w'))
      | (Conflicted, w') \<Rightarrow>
          (Throw (''Task state update conflicted '' @ show_nat MAX_ATOMIC_UPDATE_ATTEMPTS @ '' times for taskId: '' @ tid), w'))"

definition updateIssueRef ::
  "'j manager \<Rightarrow> string \<Rightarrow> js_object \<Rightarrow> 'j world \<Rightarrow> TaskStateData option result \<times> 'j world" where
  "updateIssueRef m tid patch w =
     (case run_op m tid (Op_issueRef patch) w of
        (Missing, w') \<Rightarrow> (Return None, w')
      | (Kept current, w') \<Rightarrow> (Return (Some current), w')
      | (Written current state, w') \<Rightarrow> (Return (Some state), publish_update tid state None (io_event (m_io m)) w')
      | (Conflicted, w') \<Rightarrow>
          (Throw (''Task issue reference update conflicted '' @ show_nat MAX_ATOMIC_UPDATE_ATTEMPTS @ '' times for taskId: '' @ tid), w'))"

definition updateHistoryMetadata ::
  "'j manager \<Rightarrow> string \<Rightarrow> TaskState \<Rightarrow> js_object \<Rightarrow> 'j world \<Rightarrow> TaskStateData result \<times> 'j world" where
  "updateHistoryMetadata m tid st md w =
     (case run_op m tid (Op_historyMetadata st md) w of
        (Missing, w') \<Rightarrow> (Throw (''Task state not found for taskId: '' @ tid), w')
      | (Kept current, w') \<Rightarrow> (Return current, w')
      | (Written current state, w') \<Rightarrow> (Return state, publish_update tid state None (io_event (m_io m)) w')
      | (Conflicted, w') \<Rightarrow>
          (Throw (''Task history metadata update conflicted '' @ show_nat MAX_ATOMIC_UPDATE_ATTEMPTS @ '' times for taskId: '' @ tid), w'))"

definition compareAndSetTaskState ::
  "'j manager \<Rightarrow> string \<Rightarrow> TaskStateExpectation \<Rightarrow> TaskState \<Rightarrow> UpdateMetadata \<Rightarrow> 'j redis
     \<Rightarrow> TaskStateTransition option \<times> 'j redis" where
  "compareAndSetTaskState m key e newState md r =
     (let r1 = m_env m 0 r
      in case r1 key of
           None \<Rightarrow> (None, r1)
         | Some json \<Rightarrow>
             (let current = json_parse (m_codec m) json
              in if \<not> matchesExpectation current e then (None, r1)
                 else let tr = buildTaskStateTransition (m_task_env m) (m_now m 0) current newState md
                      in case compareAndSetTaskStateData (m_codec m) key json (tr_state tr) (m_env m 1 r1) of
                           (updated, r2) \<Rightarrow> (if updated then Some tr else None, r2)))"

definition updateTaskStateIfCurrentDetailed ::
  "'j manager \<Rightarrow> string \<Rightarrow> TaskStateExpectation \<Rightarrow> TaskState \<Rightarrow> UpdateMetadata \<Rightarrow> 'j world
     \<Rightarrow> (TaskStateData \<times> TaskStatePublicationResult) option \<times> 'j world" where
  "updateTaskStateIfCurrentDetailed m tid e newState md w =
     (case compareAndSetTaskState m (getTaskKey m tid) e newState md (redis w) of
        (None, r) \<Rightarrow> (None, w\<lparr>redis := r\<rparr>)
      | (Some tr, r) \<Rightarrow>
          (case publishTaskStateTransition tid tr (m_io m) (w\<lparr>redis := r\<rparr>) of
             (publication, w') \<Rightarrow> (Some (tr_state tr, publication), w')))"

definition updateTaskStateIfCurrent ::
  "'j manager \<Rightarrow> string \<Rightarrow> TaskStateExpectation \<Rightarrow> TaskState \<Rightarrow> UpdateMetadata \<Rightarrow> 'j world
     \<Rightarrow> TaskStateData option \<times> 'j world" where
  "updateTaskStateIfCurrent m tid e newState md w =
     map_prod (map_option fst) (\<lambda>x. x) (updateTaskStateIfCurrentDetailed m tid e newState md w)"

definition markTaskFailed ::
  "'j manager \<Rightarrow> string \<Rightarrow> string \<Rightarrow> UpdateMetadata \<Rightarrow> 'j world \<Rightarrow> TaskStateData result \<times> 'j world" where
  "markTaskFailed m tid message md w =
     updateTaskState m tid Failed
       (md\<lparr>um_error := Some (message, Some (case um_errorCategory md of Some c \<Rightarrow> c | None \<Rightarrow> ''unknown'')),
           um_reason := Some (''Task failed: '' @ message)\<rparr>) w"

definition markTaskCancelled ::
  "'j manager \<Rightarrow> string \<Rightarrow> string \<Rightarrow> jsval \<Rightarrow> UpdateMetadata \<Rightarrow> 'j world \<Rightarrow> TaskStateData result \<times> 'j world" where
  "markTaskCancelled m tid cancelledBy cancelledAt md w =
     updateTaskState m tid Cancelled
       (md\<lparr>um_reason := Some (case um_reason md of Some r \<Rightarrow> r | None \<Rightarrow> ''Task cancelled by '' @ cancelledBy),
           um_terminalReason :=
             (if cancelledBy \<noteq> ''system'' \<and> um_terminalReason md = None
                 \<and> \<not> js_truthy (js_get (or_empty (um_historyMetadata md)) ''cancellationReason'')
              then Some R_cancelled_by_user else um_terminalReason md),
           um_historyMetadata := Some (js_spread (or_empty (um_historyMetadata md))
             [(''cancelledBy'', JStr cancelledBy), (''cancelledAt'', cancelledAt)])\<rparr>) w"

definition markTaskCompleted ::
  "'j manager \<Rightarrow> string \<Rightarrow> js_object \<Rightarrow> 'j world \<Rightarrow> TaskStateData result \<times> 'j world" where
  "markTaskCompleted m tid res w =
     updateTaskState m tid Completed
       (no_metadata\<lparr>um_prResult := Some res, um_reason := Some ''Task completed successfully'',
          um_terminalReason :=
            (case js_get res ''terminalReason'' of
               JStr s \<Rightarrow> find (\<lambda>r. show_reason r = s) [R_timed_out, R_cost_cap_exceeded, R_stalled, R_degenerate_output]
             | _ \<Rightarrow> None),
          um_historyMetadata := Some
            [(''pr'', if js_truthy (js_get res ''prUrl'') \<and> js_truthy (js_get res ''prNumber'')
                      then JObj [(''number'', js_get res ''prNumber''), (''url'', js_get res ''prUrl'')] else JNull),
             (''commitResult'', js_coalesce (js_get res ''commitResult'') JNull)]\<rparr>) w"

definition getTaskState :: "'j manager \<Rightarrow> string \<Rightarrow> 'j redis \<Rightarrow> TaskStateData option" where
  "getTaskState m tid r = map_option (json_parse (m_codec m)) (r (getTaskKey m tid))"

definition buildInitialTaskState :: "string \<Rightarrow> js_object \<Rightarrow> string \<Rightarrow> int \<Rightarrow> TaskStateData" where
  "buildInitialTaskState tid ref corr now =
     \<lparr>ts_taskId = tid, ts_issueRef = ref, ts_correlationId = corr, ts_state = Pending, ts_createdAt = now,
      ts_updatedAt = now, ts_version = Some 1, ts_attempts = 0,
      ts_history = [\<lparr>h_state = Pending, h_timestamp = now, h_reason = ''Task created'', h_metadata = None\<rparr>],
      ts_lastError = None, ts_terminalReason = None, ts_worktreeInfo = None, ts_claudeResult = None, ts_prResult = None\<rparr>"

text \<open>
  The rows of \<open>tasks\<close> as pairs of task and job. \<open>fails\<close> is the number of the database call that fails,
  if one does; the calls after it are skipped.
\<close>

definition unlink_job :: "string option \<Rightarrow> string \<Rightarrow> (string \<times> string option) list \<Rightarrow> (string \<times> string option) list" where
  "unlink_job job tid rows =
     (case job of
        None \<Rightarrow> rows
      | Some j \<Rightarrow> map (\<lambda>(t, j'). if j' = Some j \<and> t \<noteq> tid then (t, None) else (t, j')) rows)"

definition insert_task :: "string option \<Rightarrow> string \<Rightarrow> (string \<times> string option) list \<Rightarrow> (string \<times> string option) list" where
  "insert_task job tid rows = (if tid \<in> al_keys rows then rows else rows @ [(tid, job)])"

definition persistTaskStateCreation ::
  "nat option \<Rightarrow> bool result \<Rightarrow> TaskStateData \<Rightarrow> string option \<Rightarrow> 'j world \<Rightarrow> 'j world" where
  "persistTaskStateCreation fails event state job w =
     (let ok = (\<lambda>i. case fails of None \<Rightarrow> True | Some f \<Rightarrow> i < f);
          w1 = (if ok 0 then w\<lparr>tasks := unlink_job job (ts_taskId state) (tasks w)\<rparr> else w);
          w2 = (if ok 1 then w1\<lparr>tasks := insert_task job (ts_taskId state) (tasks w1)\<rparr> else w1);
          w3 = (if ok 2 then w2\<lparr>task_history := task_history w2 @ [\<lparr>row_task = ts_taskId state, row_state = Pending,
                  row_timestamp = ts_createdAt state, row_reason = ''Task created'', row_previous = None\<rparr>]\<rparr> else w2)
      in if ok 2 then publish_update (ts_taskId state) state None event w3 else w3)"

definition createTaskState ::
  "'j manager \<Rightarrow> nat option \<Rightarrow> string \<Rightarrow> js_object \<Rightarrow> string \<Rightarrow> string option \<Rightarrow> 'j world \<Rightarrow> TaskStateData \<times> 'j world" where
  "createTaskState m fails tid ref corr job w =
     (let state = buildInitialTaskState tid ref corr (m_now m 0);
          w1 = w\<lparr>redis := (m_env m 0 (redis w))(getTaskKey m tid \<mapsto> json_stringify (m_codec m) state)\<rparr>
      in (state, persistTaskStateCreation fails (io_event (m_io m)) state job w1))"

definition createTaskStateIfAbsent ::
  "'j manager \<Rightarrow> nat option \<Rightarrow> string \<Rightarrow> js_object \<Rightarrow> string \<Rightarrow> string option \<Rightarrow> 'j world
     \<Rightarrow> TaskStateData option \<times> 'j world" where
  "createTaskStateIfAbsent m fails tid ref corr job w =
     (let state = buildInitialTaskState tid ref corr (m_now m 0); key = getTaskKey m tid; r1 = m_env m 0 (redis w)
      in case r1 key of
           Some _ \<Rightarrow> (let r2 = m_env m 1 r1 in (getTaskState m tid r2, w\<lparr>redis := r2\<rparr>))
         | None \<Rightarrow> (Some state, persistTaskStateCreation fails (io_event (m_io m)) state job
                      (w\<lparr>redis := r1(key \<mapsto> json_stringify (m_codec m) state)\<rparr>)))"

definition resumableStates :: "TaskState list" where
  "resumableStates = [Processing, Claude_execution, Post_processing]"

definition getResumableTask ::
  "'j manager \<Rightarrow> string \<Rightarrow> int \<Rightarrow> 'j redis \<Rightarrow> (TaskStateData \<times> bool \<times> int option) option" where
  "getResumableTask m tid now r =
     (case getTaskState m tid r of
        None \<Rightarrow> None
      | Some state \<Rightarrow>
          (if ts_state state \<notin> set resumableStates then None
           else if now - ts_updatedAt state > 30 * 60 * 1000 then Some (state, True, Some (now - ts_updatedAt state))
           else Some (state, False, None)))"

text \<open>\<open>keys\<close> is the reply of Redis to \<open>KEYS\<close>.\<close>

definition getProcessingTasks :: "'j manager \<Rightarrow> string list \<Rightarrow> 'j redis \<Rightarrow> TaskStateData list" where
  "getProcessingTasks m keys r =
     filter (\<lambda>s. ts_state s \<in> set resumableStates)
       (map (json_parse (m_codec m)) (List.map_filter r keys))"

fun cleanup_keys :: "'j manager \<Rightarrow> int \<Rightarrow> string list \<Rightarrow> 'j redis \<Rightarrow> nat \<times> 'j redis" where
  "cleanup_keys m cutoff [] r = (0, r)"
| "cleanup_keys m cutoff (key # keys) r =
     (case r key of
        None \<Rightarrow> cleanup_keys m cutoff keys r
      | Some json \<Rightarrow>
          (let state = json_parse (m_codec m) json
           in if ts_state state \<in> set TERMINAL_TASK_STATES \<and> ts_updatedAt state < cutoff
              then map_prod Suc (\<lambda>x. x) (cleanup_keys m cutoff keys (r(key := None)))
              else cleanup_keys m cutoff keys r))"

definition cleanupOldTasks :: "'j manager \<Rightarrow> int \<Rightarrow> int \<Rightarrow> string list \<Rightarrow> 'j redis \<Rightarrow> nat \<times> 'j redis" where
  "cleanupOldTasks m now maxAge keys r = cleanup_keys m (now - maxAge * 1000) keys r"

subsection \<open>What one write does\<close>

lemmas build_defs = buildTaskStateTransition_def buildTaskStateMutation_def Let_def

definition op_states :: "task_op \<Rightarrow> TaskState list" where
  "op_states op = (case op of Op_update st _ \<Rightarrow> [st] | _ \<Rightarrow> [])"

lemma decide_op_version: "decide_op te now op s = Some s' \<Longrightarrow> ts_version s' = Some (or_zero (ts_version s) + 1)"
  by (cases op) (auto simp: build_defs split: if_splits option.splits)

lemma decide_op_history:
  "decide_op te now op s = Some s' \<Longrightarrow> map h_state (ts_history s') = map h_state (ts_history s) @ op_states op"
proof (cases op)
  case (Op_historyMetadata st md)
  assume "decide_op te now op s = Some s'"
  then obtain i where i: "last_history_index st (ts_history s) = Some i"
    and s': "map h_state (ts_history s') = map h_state ((ts_history s)[i := (ts_history s ! i)\<lparr>h_metadata :=
       Some (js_spread (or_empty (h_metadata (ts_history s ! i))) md)\<rparr>])"
    by (auto simp: Op_historyMetadata build_defs split: option.splits)
  have "map h_state ((ts_history s)[i := (ts_history s ! i)\<lparr>h_metadata := x\<rparr>]) = map h_state (ts_history s)" for x
    by (simp add: map_update list_update_same_conv) (metis list_update_id list_update_beyond map_update not_less nth_map length_map)
  with s' show ?thesis by (simp add: op_states_def Op_historyMetadata)
qed (auto simp: build_defs op_states_def split: if_splits)

lemma decide_op_frame:
  "decide_op te now op s = Some s' \<Longrightarrow>
     ts_taskId s' = ts_taskId s \<and> ts_createdAt s' = ts_createdAt s \<and> ts_correlationId s' = ts_correlationId s
     \<and> ts_updatedAt s' = now"
  by (cases op) (auto simp: build_defs split: if_splits option.splits)

subsection \<open>Concurrent clients of one task\<close>

text \<open>
  Any number of clients work on one key. A client reads the key; later it runs the script with what it
  read. The script writes only if the key is unchanged; otherwise nothing happens and the
  client reads again. \<open>sh_committed\<close> records the operations whose write succeeded, in order.
\<close>

record 'j shared =
  sh_redis :: "'j redis"
  sh_local :: "nat \<Rightarrow> 'j option"
  sh_committed :: "(int \<times> task_op) list"

inductive interleaving :: "task_env \<Rightarrow> 'j codec \<Rightarrow> string \<Rightarrow> TaskStateData \<Rightarrow> 'j shared \<Rightarrow> bool"
  for te cd key s0 where
  start: "interleaving te cd key s0
     \<lparr>sh_redis = [key \<mapsto> json_stringify cd s0], sh_local = (\<lambda>_. None), sh_committed = []\<rparr>"
| read: "interleaving te cd key s0 w \<Longrightarrow>
     interleaving te cd key s0 (w\<lparr>sh_local := (sh_local w)(c := sh_redis w key)\<rparr>)"
| attempt: "interleaving te cd key s0 w \<Longrightarrow> sh_local w c = Some json \<Longrightarrow>
     decide_op te now op (json_parse cd json) = Some state \<Longrightarrow>
     compareAndSetTaskStateData cd key json state (sh_redis w) = (updated, r) \<Longrightarrow>
     interleaving te cd key s0
       (w\<lparr>sh_redis := r, sh_committed := sh_committed w @ (if updated then [(now, op)] else [])\<rparr>)"

text \<open>The committed operations applied one after the other, each to the state the one before it left.\<close>

fun replay :: "task_env \<Rightarrow> TaskStateData \<Rightarrow> (int \<times> task_op) list \<Rightarrow> TaskStateData option" where
  "replay te s [] = Some s"
| "replay te s ((now, op) # ops) =
     (case decide_op te now op s of None \<Rightarrow> None | Some s' \<Rightarrow> replay te s' ops)"

lemma replay_append:
  "replay te s (ops @ ops') = (case replay te s ops of None \<Rightarrow> None | Some s' \<Rightarrow> replay te s' ops')"
  by (induction te s ops rule: replay.induct) (auto split: option.splits)

lemma replay_counts:
  "replay te s ops = Some s' \<Longrightarrow>
     or_zero (ts_version s') = or_zero (ts_version s) + length ops
     \<and> map h_state (ts_history s') = map h_state (ts_history s) @ concat (map (op_states \<circ> snd) ops)"
  by (induction te s ops rule: replay.induct)
    (auto simp: or_zero_def dest: decide_op_version decide_op_history split: option.splits)

lemma interleaving_replay:
  assumes "interleaving te cd key s0 w" and codec: "\<And>s. json_parse cd (json_stringify cd s) = s"
  shows "\<exists>s. sh_redis w key = Some (json_stringify cd s) \<and> replay te s0 (sh_committed w) = Some s"
  using assms(1)
proof induction
  case (attempt w c json now op state updated r)
  then obtain s where s: "sh_redis w key = Some (json_stringify cd s)" "replay te s0 (sh_committed w) = Some s" by blast
  show ?case
  proof (cases updated)
    case True
    with attempt.hyps s have "json = json_stringify cd s" "r key = Some (json_stringify cd state)"
      by (auto simp: compareAndSetTaskStateData_def split: if_splits)
    with attempt.hyps(3) s(2) True show ?thesis by (simp add: codec replay_append)
  next
    case False
    with attempt.hyps s show ?thesis by (auto simp: compareAndSetTaskStateData_def split: if_splits)
  qed
qed simp_all

lemma cas_loop_written:
  "cas_loop m key op n k r = (Written c s, r') \<Longrightarrow>
     \<exists>i json. k \<le> i \<and> i < k + n \<and> decide_op (m_task_env m) (m_now m i) op c = Some s
       \<and> c = json_parse (m_codec m) json \<and> r' key = Some (json_stringify (m_codec m) s)"
proof (induction m key op n k r rule: cas_loop.induct)
  case (2 m key op n k r)
  show ?case
  proof (cases "m_env m (2 * k) r key")
    case (Some json)
    show ?thesis
    proof (cases "decide_op (m_task_env m) (m_now m k) op (json_parse (m_codec m) json)")
      case (Some state)
      obtain updated r2 where cas:
        "compareAndSetTaskStateData (m_codec m) key json state (m_env m (2 * k + 1) (m_env m (2 * k) r)) = (updated, r2)"
        by fastforce
      show ?thesis
      proof (cases updated)
        case True
        with "2.prems" Some \<open>m_env m (2 * k) r key = Some json\<close> cas
        have "c = json_parse (m_codec m) json" "s = state" "r' = r2" by simp_all
        moreover have "r2 key = Some (json_stringify (m_codec m) state)"
          using cas True by (auto simp: compareAndSetTaskStateData_def split: if_splits)
        ultimately show ?thesis using Some by (intro exI [of _ k]) auto
      next
        case False
        with "2.prems" Some \<open>m_env m (2 * k) r key = Some json\<close> cas
        have "cas_loop m key op n (Suc k) r2 = (Written c s, r')" by simp
        from "2.IH" [OF refl \<open>m_env m (2 * k) r key = Some json\<close> refl Some cas [symmetric] False this]
        obtain i json' where "Suc k \<le> i" "i < Suc k + n" "decide_op (m_task_env m) (m_now m i) op c = Some s"
          "c = json_parse (m_codec m) json'" "r' key = Some (json_stringify (m_codec m) s)" by blast
        then show ?thesis by (intro exI [of _ i] exI [of _ json']) simp
      qed
    qed (use "2.prems" Some in simp)
  qed (use "2.prems" in simp)
qed simp

lemma decide_update_terminal:
  "decide_op te now (Op_update st md) c = Some s \<Longrightarrow> ts_state c \<in> set TERMINAL_TASK_STATES \<Longrightarrow> ts_state s \<noteq> ts_state c \<Longrightarrow>
     ts_state s = st \<and> (isTerminalTaskContinuation c st md \<or> isBookkeepingCancellation c)"
  by (auto simp: update_ignored_def build_defs split: if_splits)

subsection \<open>Properties\<close>

text \<open>
  C3: However many clients race on a task's state, no update is lost: the state in Redis is the
  result of applying the committed operations one after the other, its version has grown by one per
  commit, and its history has gained exactly the committed states, in order.
\<close>

theorem concurrent_updates_serialize:
  assumes "interleaving te cd key s0 w" "\<And>s. json_parse cd (json_stringify cd s) = s"
  shows "\<exists>s. sh_redis w key = Some (json_stringify cd s) \<and> replay te s0 (sh_committed w) = Some s
     \<and> or_zero (ts_version s) = or_zero (ts_version s0) + length (sh_committed w)
     \<and> map h_state (ts_history s) = map h_state (ts_history s0) @ concat (map (op_states \<circ> snd) (sh_committed w))"
  using interleaving_replay [OF assms(1)] assms(2) replay_counts by blast

definition id_codec :: "TaskStateData codec" where
  "id_codec = \<lparr>json_stringify = (\<lambda>s. s), json_parse = (\<lambda>s. s)\<rparr>"

definition sample_env :: task_env where
  "sample_env = \<lparr>redactSecrets = (\<lambda>s. s), activeGuard = Some sample_stopped\<rparr>"

definition sample_task :: TaskStateData where
  "sample_task = buildInitialTaskState ''t1'' [(''number'', JNum (Fin 7))] ''c'' 0"

theorem concurrent_updates_serialize_witness:
  "\<exists>w s. interleaving sample_env id_codec ''k'' sample_task w \<and> sh_redis w ''k'' = Some s
     \<and> sh_committed w = [(5, Op_update Processing no_metadata)] \<and> or_zero (ts_version s) = 2
     \<and> map h_state (ts_history s) = [Pending, Processing]"
proof -
  let ?op = "Op_update Processing no_metadata" and ?te = sample_env
  let ?w0 = "\<lparr>sh_redis = [''k'' \<mapsto> json_stringify id_codec sample_task], sh_local = (\<lambda>_. None), sh_committed = []\<rparr>"
  let ?w1 = "?w0\<lparr>sh_local := (sh_local ?w0)(0 := sh_redis ?w0 ''k'')\<rparr>"
  let ?w2 = "?w1\<lparr>sh_local := (sh_local ?w1)(1 := sh_redis ?w1 ''k'')\<rparr>"
  let ?s = "tr_state (buildTaskStateTransition ?te 5 sample_task Processing no_metadata)"
  have w2: "interleaving ?te id_codec ''k'' sample_task ?w2" by (intro interleaving.intros)
  have d: "decide_op ?te now ?op (json_parse id_codec sample_task)
      = Some (tr_state (buildTaskStateTransition ?te now sample_task Processing no_metadata))" for now
    by (simp add: id_codec_def sample_task_def buildInitialTaskState_def update_ignored_def TERMINAL_TASK_STATES_def)
  have l: "sh_local ?w2 0 = Some sample_task" "sh_local ?w2 1 = Some sample_task" by (simp_all add: id_codec_def)
  have c: "compareAndSetTaskStateData id_codec ''k'' sample_task ?s (sh_redis ?w2) = (True, (sh_redis ?w2)(''k'' \<mapsto> ?s))"
    by (simp add: compareAndSetTaskStateData_def id_codec_def)
  define w3 where "w3 = ?w2\<lparr>sh_redis := (sh_redis ?w2)(''k'' \<mapsto> ?s), sh_committed := sh_committed ?w2 @ (if True then [(5, ?op)] else [])\<rparr>"
  have w3: "interleaving ?te id_codec ''k'' sample_task w3"
    unfolding w3_def by (rule interleaving.attempt [OF w2 l(1) d c])
  have "sh_committed w3 = [(5, ?op)]" by (simp add: w3_def)
  moreover have "json_parse id_codec (json_stringify id_codec s) = s" for s by (simp add: id_codec_def)
  note concurrent_updates_serialize [OF w3 this]
  ultimately show ?thesis using w3
    by (auto simp: id_codec_def sample_task_def buildInitialTaskState_def or_zero_def op_states_def)
qed


text \<open>
  An update of an existing task that no other client disturbs in its first round takes
  effect in that round: it either returns the state it found because the transition is not allowed, having
  written and published nothing, or it stores the new state and reports it.
\<close>

theorem undisturbed_update_succeeds:
  assumes "m_env m 0 = (\<lambda>r. r)" "m_env m 1 = (\<lambda>r. r)" "redis w (getTaskKey m tid) = Some json"
  shows "(let c = json_parse (m_codec m) json
          in if update_ignored c newState md then updateTaskState m tid newState md w = (Return c, w)
             else let s = tr_state (buildTaskStateTransition (m_task_env m) (m_now m 0) c newState md)
                  in fst (updateTaskState m tid newState md w) = Return s
                     \<and> redis (snd (updateTaskState m tid newState md w)) = (redis w)(getTaskKey m tid \<mapsto> json_stringify (m_codec m) s))"
proof -
  have redis_pub: "redis (snd (publishTaskStateTransition tid' tr io w')) = redis w'" for tid' tr io and w' :: "'a world"
    by (simp add: publishTaskStateTransition_def persist_history_def publish_update_def settlePlanRefinementAfterTask_def
        Let_def split: option.splits jsval.splits)
  show ?thesis
    using assms
    by (simp add: updateTaskState_def run_op_def MAX_ATOMIC_UPDATE_ATTEMPTS_def numeral_eq_Suc Let_def
        compareAndSetTaskStateData_def redis_pub)
qed

definition sample_manager :: "TaskStateData manager" where
  "sample_manager = \<lparr>m_codec = id_codec, m_task_env = sample_env, m_keyPrefix = ''worker:state:'', m_now = int,
     m_env = (\<lambda>_ r. r), m_io = \<lparr>io_history_error = None, io_event = Return True\<rparr>\<rparr>"

definition sample_world :: "TaskStateData world" where
  "sample_world = \<lparr>redis = [''worker:state:t1'' \<mapsto> sample_task], tasks = [], task_history = [], events = [], settled = []\<rparr>"

theorem undisturbed_update_succeeds_witness:
  "fst (updateTaskState sample_manager ''t1'' Processing no_metadata sample_world)
     = Return (tr_state (buildTaskStateTransition sample_env 0 sample_task Processing no_metadata))"
proof -
  have "m_env sample_manager 0 = (\<lambda>r. r)" "m_env sample_manager 1 = (\<lambda>r. r)"
    "redis sample_world (getTaskKey sample_manager ''t1'') = Some sample_task"
    by (simp_all add: sample_manager_def sample_world_def getTaskKey_def)
  moreover have "\<not> update_ignored sample_task Processing no_metadata"
    by (simp add: sample_task_def buildInitialTaskState_def update_ignored_def TERMINAL_TASK_STATES_def)
  ultimately show ?thesis
    using undisturbed_update_succeeds [of sample_manager sample_world "''t1''" sample_task Processing no_metadata]
    by (simp add: Let_def sample_manager_def id_codec_def)
qed

definition sample_failed :: TaskStateData where
  "sample_failed = tr_state (buildTaskStateTransition sample_env 9 sample_task Failed no_metadata)"


definition old_and_finished :: "'j manager \<Rightarrow> int \<Rightarrow> 'j option \<Rightarrow> bool" where
  "old_and_finished m cutoff v =
     (case v of
        None \<Rightarrow> False
      | Some json \<Rightarrow> ts_state (json_parse (m_codec m) json) \<in> set TERMINAL_TASK_STATES
                     \<and> ts_updatedAt (json_parse (m_codec m) json) < cutoff)"

lemma cleanup_step:
  "cleanup_keys m cutoff (key # keys) r =
     (if old_and_finished m cutoff (r key) then map_prod Suc (\<lambda>x. x) (cleanup_keys m cutoff keys (r(key := None)))
      else cleanup_keys m cutoff keys r)"
  by (auto simp: old_and_finished_def Let_def split: option.splits)

declare cleanup_keys.simps(2) [simp del]

lemma cleanup_keys_effect:
  "distinct keys \<Longrightarrow>
     snd (cleanup_keys m cutoff keys r) = (\<lambda>k. if k \<in> set keys \<and> old_and_finished m cutoff (r k) then None else r k)
     \<and> fst (cleanup_keys m cutoff keys r) = length (filter (\<lambda>k. old_and_finished m cutoff (r k)) keys)"
proof (induction keys arbitrary: r)
  case (Cons key keys)
  then have "filter (\<lambda>k. old_and_finished m cutoff ((r(key := None)) k)) keys = filter (\<lambda>k. old_and_finished m cutoff (r k)) keys"
    by (intro filter_cong) auto
  with Cons show ?case by (auto simp: cleanup_step fun_eq_iff)
qed (simp add: fun_eq_iff)

text \<open>
  Cleaning up deletes exactly the listed states of tasks that finished before the cutoff,
  leaves every other key as it was, and counts the deletions.
\<close>

theorem cleanup_removes_only_old_finished:
  assumes "distinct keys"
  shows "snd (cleanupOldTasks m now maxAge keys r)
       = (\<lambda>k. if k \<in> set keys \<and> old_and_finished m (now - maxAge * 1000) (r k) then None else r k)
     \<and> fst (cleanupOldTasks m now maxAge keys r)
       = length (filter (\<lambda>k. old_and_finished m (now - maxAge * 1000) (r k)) keys)"
  unfolding cleanupOldTasks_def by (rule cleanup_keys_effect [OF assms])

theorem cleanup_removes_only_old_finished_witness:
  "fst (cleanupOldTasks sample_manager 100000000 3600 [''worker:state:t1'', ''worker:state:t2'']
      [''worker:state:t1'' \<mapsto> sample_failed, ''worker:state:t2'' \<mapsto> sample_task]) = 1"
proof -
  have "distinct [''worker:state:t1'', ''worker:state:t2'']" by simp
  from cleanup_removes_only_old_finished [OF this, of sample_manager 100000000 3600
      "[''worker:state:t1'' \<mapsto> sample_failed, ''worker:state:t2'' \<mapsto> sample_task]"]
  show ?thesis
    by (simp add: old_and_finished_def sample_manager_def id_codec_def sample_failed_def build_defs sample_task_def
        buildInitialTaskState_def TERMINAL_TASK_STATES_def)
qed

text \<open>
  The publication report is honest: it lists no error exactly when the history row was written
  and the event was published, and then both logs have gained the transition.
\<close>

theorem publication_report_is_honest:
  "(pub_errors (fst (publishTaskStateTransition tid tr io w)) = [] \<longleftrightarrow>
      historyPersisted (fst (publishTaskStateTransition tid tr io w)) \<and> eventPublished (fst (publishTaskStateTransition tid tr io w)))
   \<and> (historyPersisted (fst (publishTaskStateTransition tid tr io w)) \<longleftrightarrow>
      length (task_history (snd (publishTaskStateTransition tid tr io w))) = length (task_history w) + 1)
   \<and> (eventPublished (fst (publishTaskStateTransition tid tr io w)) \<longleftrightarrow>
      length (events (snd (publishTaskStateTransition tid tr io w))) = length (events w) + 1)"
  by (auto simp: publishTaskStateTransition_def persist_history_def publish_update_def settlePlanRefinementAfterTask_def
      Let_def split: option.splits sum.splits jsval.splits)

text \<open>The rows of \<open>tasks\<close> stay unique by task and by job.\<close>

definition tasks_unique :: "(string \<times> string option) list \<Rightarrow> bool" where
  "tasks_unique rows \<longleftrightarrow> distinct (map fst rows) \<and> distinct (List.map_filter snd rows)"

lemma unlink_job_rows:
  "map fst (unlink_job job tid rows) = map fst rows"
  "set (List.map_filter snd (unlink_job job tid rows)) \<subseteq> set (List.map_filter snd rows)"
  by (cases job; induction rows; auto simp: unlink_job_def List.map_filter_simps split: option.splits if_splits)+

lemma unlink_job_unique: "tasks_unique rows \<Longrightarrow> tasks_unique (unlink_job job tid rows)"
proof -
  have "distinct (List.map_filter snd rows) \<Longrightarrow> distinct (List.map_filter snd (unlink_job job tid rows))"
  proof (induction rows)
    case (Cons row rows)
    then show ?case using unlink_job_rows(2) [of job tid rows]
      by (cases row; cases job) (auto simp: unlink_job_def List.map_filter_simps split: option.splits if_splits)
  qed (simp add: unlink_job_def List.map_filter_simps split: option.splits)
  then show "tasks_unique rows \<Longrightarrow> ?thesis" by (simp add: tasks_unique_def unlink_job_rows(1))
qed

lemma unlink_job_frees: "tid \<notin> al_keys rows \<Longrightarrow> j \<notin> set (List.map_filter snd (unlink_job (Some j) tid rows))"
  by (induction rows) (auto simp: unlink_job_def List.map_filter_simps split: option.splits if_splits)

lemma insert_task_unique:
  assumes "tasks_unique rows"
  shows "tasks_unique (insert_task job tid (unlink_job job tid rows))"
proof -
  let ?rows = "unlink_job job tid rows"
  have keys: "al_keys ?rows = al_keys rows"
    using arg_cong [OF unlink_job_rows(1), of set job tid rows] by (simp only: set_map)
  have u: "tasks_unique ?rows" by (rule unlink_job_unique [OF assms])
  show ?thesis
  proof (cases "tid \<in> al_keys rows")
    case False
    then have "job = Some j \<Longrightarrow> j \<notin> set (List.map_filter snd ?rows)" for j
      using unlink_job_frees [of tid rows j] by simp
    moreover have "tid \<notin> set (map fst ?rows)" using False keys by simp
    ultimately show ?thesis using u False keys
      by (cases job) (simp_all add: insert_task_def tasks_unique_def List.map_filter_def)
  qed (simp add: insert_task_def keys u)
qed

end
