(* ===== verification/Leases.thy ===== *)
theory Leases
  imports Prelude
begin

section \<open>Leases: the PR processing lock and the CI suspension lease\<close>

text \<open>
  \<^verbatim>\<open>src/jobs/prProcessingLock.ts\<close> keeps one worker at a time on a pull request with a Redis key
  that carries the owner's token and a time to live; \<^verbatim>\<open>src/jobs/followupCiSuspensionLease.ts\<close>
  does the same for the CI suspension of a pull request with a row of a database table. Both promise
  the contract stated by the locale \<open>lease\<close>, which the last part of each section
  interprets on the code's operations; the PR lock also has a takeover, the locale \<open>adoptable_lease\<close>.

  The Redis keys are a map from a key to its value and the second at which it expires; the table is a map
  from a lease key to its row, with times in milliseconds. A Lua script is one atomic step. What other
  workers do between two calls of the same function is a function on the store, an argument of the definitions;
  so are the clock readings.
\<close>

subsection \<open>The contract of a lease\<close>

datatype lease_call = Acquire | Renew | Release

locale lease =
  fixes owner :: "'s \<Rightarrow> string \<Rightarrow> int \<Rightarrow> string option"
    and acquire :: "int \<Rightarrow> string \<Rightarrow> string \<Rightarrow> 's \<Rightarrow> bool \<times> 's"
    and renew :: "int \<Rightarrow> string \<Rightarrow> string \<Rightarrow> 's \<Rightarrow> bool \<times> 's"
    and release :: "int \<Rightarrow> string \<Rightarrow> string \<Rightarrow> 's \<Rightarrow> bool \<times> 's"
    and ttl :: int
  assumes acquire_free: "owner s k now = None \<Longrightarrow> fst (acquire now k t s)"
    and acquire_granted: "fst (acquire now k t s) \<Longrightarrow> now \<le> now' \<Longrightarrow> now' < now + ttl \<Longrightarrow>
          owner (snd (acquire now k t s)) k now' = Some t"
    and renew_granted: "fst (renew now k t s) \<Longrightarrow> now \<le> now' \<Longrightarrow> now' < now + ttl \<Longrightarrow>
          owner (snd (renew now k t s)) k now' = Some t"
    and renew_own: "owner s k now = Some t \<Longrightarrow> fst (renew now k t s)"
    and released: "owner (snd (release now k t s)) k now \<noteq> Some t"
    and refused: "owner s k now = Some u \<Longrightarrow> u \<noteq> t \<Longrightarrow>
          acquire now k t s = (False, s) \<and> renew now k t s = (False, s) \<and> release now k t s = (False, s)"
    and elsewhere: "k' \<noteq> k \<Longrightarrow> owner (snd (acquire now k t s)) k' = owner s k'
          \<and> owner (snd (renew now k t s)) k' = owner s k' \<and> owner (snd (release now k t s)) k' = owner s k'"
begin

text \<open>A lease granted to \<open>t\<close> at time \<open>since\<close>: \<open>t\<close> owns it for the whole time to live.\<close>

definition held :: "'s \<Rightarrow> string \<Rightarrow> string \<Rightarrow> int \<Rightarrow> bool" where
  "held s k t since \<longleftrightarrow> (\<forall>now. since \<le> now \<longrightarrow> now < since + ttl \<longrightarrow> owner s k now = Some t)"

fun call :: "lease_call \<Rightarrow> int \<Rightarrow> string \<Rightarrow> string \<Rightarrow> 's \<Rightarrow> bool \<times> 's" where
  "call Acquire = acquire"
| "call Renew = renew"
| "call Release = release"

text \<open>A sequence of calls by any workers: the time, the key, the token and the call.\<close>

definition calls :: "(int \<times> string \<times> string \<times> lease_call) list \<Rightarrow> 's \<Rightarrow> 's" where
  "calls cs s = fold (\<lambda>(now, k, t, c) s. snd (call c now k t s)) cs s"

lemma calls_simps [simp]:
  "calls [] s = s" "calls ((now, k, t, c) # cs) s = calls cs (snd (call c now k t s))"
  by (simp_all add: calls_def)

lemma acquired_held: "fst (acquire now k t s) \<Longrightarrow> held (snd (acquire now k t s)) k t now"
  by (simp add: held_def acquire_granted)

lemma renewed_held: "fst (renew now k t s) \<Longrightarrow> held (snd (renew now k t s)) k t now"
  by (simp add: held_def renew_granted)

lemma call_keeps_held:
  assumes "held s k t since" "since \<le> now" "now < since + ttl" "u \<noteq> t"
  shows "held (snd (call c now k' u s)) k t since" "k' = k \<Longrightarrow> \<not> fst (call c now k' u s)"
proof -
  have "owner s k now = Some t" using assms(1-3) by (simp add: held_def)
  from refused [OF this, of u] assms(4)
  have r: "call c now k u s = (False, s)" by (cases c) simp_all
  then show "k' = k \<Longrightarrow> \<not> fst (call c now k' u s)" by simp
  show "held (snd (call c now k' u s)) k t since"
  proof (cases "k' = k")
    case False
    then have "owner (snd (call c now k' u s)) k = owner s k"
      using elsewhere [of k k'] by (cases c) auto
    with assms(1) show ?thesis by (simp add: held_def)
  qed (use r assms(1) in simp)
qed

theorem held_excludes_others:
  assumes "held s k t since"
    and "\<forall>(now, k', u, c) \<in> set cs. since \<le> now \<and> now < since + ttl \<and> u \<noteq> t"
  shows "held (calls cs s) k t since"
  using assms by (induction cs arbitrary: s) (auto simp: call_keeps_held(1))

end

datatype PRProcessingLockAdoption = Adopted | Live_owner | Other_owner

locale adoptable_lease = lease owner acquire renew release ttl
  for owner :: "'s \<Rightarrow> string \<Rightarrow> int \<Rightarrow> string option" and acquire renew release ttl +
  fixes adopt :: "int \<Rightarrow> string \<Rightarrow> string \<Rightarrow> string \<Rightarrow> 's \<Rightarrow> PRProcessingLockAdoption \<times> 's"
    and freshness :: int
  assumes adopt_live: "held s k t since \<Longrightarrow> since \<le> now \<Longrightarrow> now < since + freshness \<Longrightarrow>
          adopt now k pred suc s = (if pred = t then Live_owner else Other_owner, s)"
    and adopt_other: "owner s k now = Some u \<Longrightarrow> u \<noteq> pred \<Longrightarrow> adopt now k pred suc s = (Other_owner, s)"
    and adopt_granted: "fst (adopt now k pred suc s) = Adopted \<Longrightarrow> held (snd (adopt now k pred suc s)) k suc now"
    and adopt_elsewhere: "k' \<noteq> k \<Longrightarrow> owner (snd (adopt now k pred suc s)) k' = owner s k'"
    and fresh_within_ttl: "freshness \<le> ttl"
begin

definition adopt_or_call ::
  "int \<times> string \<times> string \<times> (string + lease_call) \<Rightarrow> 's \<Rightarrow> 's" where
  "adopt_or_call c s =
     (case c of (now, k, u, Inl pred) \<Rightarrow> snd (adopt now k pred u s) | (now, k, u, Inr c) \<Rightarrow> snd (call c now k u s))"

theorem fresh_owner_not_displaced:
  assumes "held s k t since"
    and "\<forall>(now, k', u, c) \<in> set cs. since \<le> now \<and> now < since + freshness \<and> u \<noteq> t"
  shows "held (fold adopt_or_call cs s) k t since"
  using assms
proof (induction cs arbitrary: s)
  case (Cons c cs)
  obtain now k' u x where c: "c = (now, k', u, x)" by (cases c) auto
  have t: "since \<le> now" "now < since + freshness" "u \<noteq> t" using Cons.prems(2) c by auto
  have "held (adopt_or_call c s) k t since"
  proof (cases x)
    case (Inl pred)
    show ?thesis
    proof (cases "k' = k")
      case True
      with adopt_live [OF Cons.prems(1) t(1,2)] Cons.prems(1) show ?thesis by (simp add: adopt_or_call_def c Inl)
    next
      case False
      then show ?thesis using Cons.prems(1) adopt_elsewhere [of k k'] by (simp add: adopt_or_call_def c Inl held_def)
    qed
  next
    case (Inr y)
    with call_keeps_held(1) [OF Cons.prems(1) t(1) _ t(3)] t(2) fresh_within_ttl show ?thesis
      by (simp add: adopt_or_call_def c)
  qed
  with Cons show ?case by simp
qed simp

end

subsection \<open>Redis keys with a time to live\<close>

type_synonym redis_keys = "string \<rightharpoonup> string \<times> int"

definition redis_get :: "int \<Rightarrow> string \<Rightarrow> redis_keys \<Rightarrow> string option" where
  "redis_get now k s = (case s k of None \<Rightarrow> None | Some (v, e) \<Rightarrow> (if now < e then Some v else None))"

definition redis_set_ex :: "int \<Rightarrow> string \<Rightarrow> string \<Rightarrow> int \<Rightarrow> redis_keys \<Rightarrow> redis_keys" where
  "redis_set_ex now k v ttl s = s(k \<mapsto> (v, now + ttl))"

text \<open>\<open>TTL\<close> of a key that exists.\<close>

definition redis_ttl :: "int \<Rightarrow> string \<Rightarrow> redis_keys \<Rightarrow> int" where
  "redis_ttl now k s = (case s k of None \<Rightarrow> - 2 | Some (v, e) \<Rightarrow> (if now < e then e - now else - 2))"

lemmas redis_defs = redis_get_def redis_set_ex_def redis_ttl_def

subsection \<open>The PR processing lock\<close>

definition PR_PROCESSING_LOCK_TTL_SECONDS :: int where
  "PR_PROCESSING_LOCK_TTL_SECONDS = 60 * 60"

definition PR_PROCESSING_LOCK_RENEW_INTERVAL_MS :: int where
  "PR_PROCESSING_LOCK_RENEW_INTERVAL_MS = 30 * 1000"

definition PR_PROCESSING_LOCK_FRESHNESS_SECONDS :: int where
  "PR_PROCESSING_LOCK_FRESHNESS_SECONDS = 4 * (PR_PROCESSING_LOCK_RENEW_INTERVAL_MS div 1000)"

lemmas pr_lock_constants = PR_PROCESSING_LOCK_TTL_SECONDS_def PR_PROCESSING_LOCK_RENEW_INTERVAL_MS_def
  PR_PROCESSING_LOCK_FRESHNESS_SECONDS_def

definition RENEW_LOCK_SCRIPT :: "int \<Rightarrow> string \<Rightarrow> string \<Rightarrow> int \<Rightarrow> redis_keys \<Rightarrow> int \<times> redis_keys" where
  "RENEW_LOCK_SCRIPT now key token ttl s =
     (if redis_get now key s = Some token then (1, s(key \<mapsto> (token, now + ttl))) else (0, s))"

definition ADOPT_LOCK_SCRIPT ::
  "int \<Rightarrow> string \<Rightarrow> string \<Rightarrow> string \<Rightarrow> int \<Rightarrow> int \<Rightarrow> redis_keys \<Rightarrow> int \<times> redis_keys" where
  "ADOPT_LOCK_SCRIPT now key predecessor successor ttl ttl_floor s =
     (case redis_get now key s of
        None \<Rightarrow> (1, redis_set_ex now key successor ttl s)
      | Some current \<Rightarrow>
          (if current \<noteq> predecessor then (0, s)
           else if redis_ttl now key s > ttl_floor then (- 1, s)
           else (1, redis_set_ex now key successor ttl s)))"

definition RELEASE_LOCK_SCRIPT :: "int \<Rightarrow> string \<Rightarrow> string \<Rightarrow> redis_keys \<Rightarrow> int \<times> redis_keys" where
  "RELEASE_LOCK_SCRIPT now key token s = (if redis_get now key s = Some token then (1, s(key := None)) else (0, s))"

text \<open>\<open>randomUUID\<close> is an argument.\<close>

definition createPRProcessingLockToken :: "string \<Rightarrow> string \<Rightarrow> string" where
  "createPRProcessingLockToken uuid correlationId = correlationId @ '':'' @ uuid"

text \<open>
  The job data is its token, if it has one; \<open>persisted\<close> is what \<open>persist\<close> resolves to. The token
  is set in the data even when persisting fails.
\<close>

definition ensurePRProcessingLockToken ::
  "string \<Rightarrow> string \<Rightarrow> unit result \<Rightarrow> string option \<Rightarrow> string result \<times> string option" where
  "ensurePRProcessingLockToken uuid correlationId persisted data =
     (case data of
        Some (c # cs) \<Rightarrow> (Return (c # cs), data)
      | _ \<Rightarrow> (let token = createPRProcessingLockToken uuid correlationId
              in (and_then persisted (\<lambda>_. Return token), Some token)))"

definition renewPRProcessingLock :: "int \<Rightarrow> int \<Rightarrow> string \<Rightarrow> string \<Rightarrow> redis_keys \<Rightarrow> bool \<times> redis_keys" where
  "renewPRProcessingLock ttlSeconds now lockKey lockToken s =
     map_prod (\<lambda>n. n = 1) (\<lambda>s. s) (RENEW_LOCK_SCRIPT now lockKey lockToken ttlSeconds s)"

definition releasePRProcessingLock :: "int \<Rightarrow> string \<Rightarrow> string \<Rightarrow> redis_keys \<Rightarrow> bool \<times> redis_keys" where
  "releasePRProcessingLock now lockKey lockToken s =
     map_prod (\<lambda>n. n = 1) (\<lambda>s. s) (RELEASE_LOCK_SCRIPT now lockKey lockToken s)"

text \<open>\<open>SET NX\<close>, then the renewal; \<open>mid\<close> is what other workers do between the two.\<close>

definition acquirePRProcessingLock ::
  "int \<Rightarrow> (redis_keys \<Rightarrow> redis_keys) \<Rightarrow> int \<Rightarrow> string \<Rightarrow> string \<Rightarrow> redis_keys \<Rightarrow> bool \<times> redis_keys" where
  "acquirePRProcessingLock ttlSeconds mid now lockKey lockToken s =
     (if redis_get now lockKey s = None then (True, redis_set_ex now lockKey lockToken ttlSeconds s)
      else renewPRProcessingLock ttlSeconds now lockKey lockToken (mid s))"

definition adoptPRProcessingLock ::
  "int \<Rightarrow> int \<Rightarrow> int \<Rightarrow> string \<Rightarrow> string \<Rightarrow> string \<Rightarrow> redis_keys \<Rightarrow> PRProcessingLockAdoption \<times> redis_keys" where
  "adoptPRProcessingLock ttlSeconds freshnessSeconds now lockKey predecessorToken successorToken s =
     (case ADOPT_LOCK_SCRIPT now lockKey predecessorToken successorToken ttlSeconds (ttlSeconds - freshnessSeconds) s of
        (r, s') \<Rightarrow> (if r = 1 then Adopted else if r = - 1 then Live_owner else Other_owner, s'))"

lemmas pr_lock_defs = RENEW_LOCK_SCRIPT_def ADOPT_LOCK_SCRIPT_def RELEASE_LOCK_SCRIPT_def renewPRProcessingLock_def
  releasePRProcessingLock_def acquirePRProcessingLock_def adoptPRProcessingLock_def

definition pr_owner :: "redis_keys \<Rightarrow> string \<Rightarrow> int \<Rightarrow> string option" where
  "pr_owner s k now = redis_get now k s"

abbreviation pr_ttl :: int where "pr_ttl \<equiv> PR_PROCESSING_LOCK_TTL_SECONDS"
abbreviation pr_fresh :: int where "pr_fresh \<equiv> PR_PROCESSING_LOCK_FRESHNESS_SECONDS"

interpretation pr_lock: lease pr_owner "acquirePRProcessingLock pr_ttl (\<lambda>s. s)" "renewPRProcessingLock pr_ttl"
  releasePRProcessingLock pr_ttl
  by unfold_locales (auto simp: pr_owner_def pr_lock_defs redis_defs fun_eq_iff split: option.splits if_splits prod.splits)

lemma pr_held_iff:
  "pr_lock.held s k t since \<longleftrightarrow> (\<exists>e \<ge> since + pr_ttl. s k = Some (t, e))"
proof
  assume h: "pr_lock.held s k t since"
  from h [unfolded pr_lock.held_def, rule_format, of since] h [unfolded pr_lock.held_def, rule_format, of "since + pr_ttl - 1"]
  show "\<exists>e \<ge> since + pr_ttl. s k = Some (t, e)"
    by (auto simp: pr_owner_def redis_get_def pr_lock_constants split: option.splits if_splits)
qed (auto simp: pr_lock.held_def pr_owner_def redis_get_def)

interpretation pr_lock: adoptable_lease pr_owner "acquirePRProcessingLock pr_ttl (\<lambda>s. s)"
  "renewPRProcessingLock pr_ttl" releasePRProcessingLock pr_ttl "adoptPRProcessingLock pr_ttl pr_fresh" pr_fresh
  by (unfold_locales, unfold pr_held_iff)
    (auto simp: pr_owner_def pr_lock_defs redis_defs pr_lock_constants fun_eq_iff split: option.splits if_splits prod.splits)

text \<open>
  The search for the lease the pull request currently resolves to. Round \<open>i\<close> reads the clock twice and asks
  \<open>resolveLockKey\<close> once; \<open>pr_others j\<close> is what other workers did before the \<open>j\<close>-th call. The loop has no
  bound of its own: \<open>fuel\<close> bounds the rounds, and the result is \<open>None\<close> when it runs out.
\<close>

record pr_env =
  pr_clock :: "nat \<Rightarrow> int"
  pr_others :: "nat \<Rightarrow> redis_keys \<Rightarrow> redis_keys"
  resolveLockKey :: "nat \<Rightarrow> string result"

datatype lock_outcome = Held string | Contended string | Resolve_failed error_message

fun acquireCurrentPRProcessingLock ::
  "pr_env \<Rightarrow> nat \<Rightarrow> nat \<Rightarrow> string \<Rightarrow> string \<Rightarrow> redis_keys \<Rightarrow> lock_outcome option \<times> redis_keys" where
  "acquireCurrentPRProcessingLock e 0 i lockKey lockToken s = (None, s)"
| "acquireCurrentPRProcessingLock e (Suc fuel) i lockKey lockToken s =
     (case acquirePRProcessingLock pr_ttl (pr_others e (3 * i + 1)) (pr_clock e (2 * i)) lockKey lockToken (pr_others e (3 * i) s) of
        (False, s1) \<Rightarrow> (Some (Contended lockKey), s1)
      | (True, s1) \<Rightarrow>
          (let s2 = pr_others e (3 * i + 2) s1;
               s3 = snd (releasePRProcessingLock (pr_clock e (2 * i + 1)) lockKey lockToken s2)
           in case resolveLockKey e i of
                Inl err \<Rightarrow> (Some (Resolve_failed err), s3)
              | Inr resolved \<Rightarrow>
                  (if resolved = lockKey then (Some (Held lockKey), s2)
                   else acquireCurrentPRProcessingLock e fuel (Suc i) resolved lockToken s3)))"

subsection \<open>The heartbeat of the PR processing lock\<close>

record heartbeat =
  hb_stopped :: bool
  hb_renewing :: bool
  hb_renewals :: nat
  hb_lost :: nat
  hb_errors :: nat

datatype heartbeat_event =
    Timer
  | Renewed bool
  | Renewal_failed
  | Stop_heartbeat

definition startPRProcessingLockHeartbeat :: heartbeat where
  "startPRProcessingLockHeartbeat = \<lparr>hb_stopped = False, hb_renewing = False, hb_renewals = 0, hb_lost = 0, hb_errors = 0\<rparr>"

fun heartbeat_step :: "heartbeat_event \<Rightarrow> heartbeat \<Rightarrow> heartbeat" where
  "heartbeat_step Timer h =
     (if hb_stopped h \<or> hb_renewing h then h else h\<lparr>hb_renewing := True, hb_renewals := hb_renewals h + 1\<rparr>)"
| "heartbeat_step (Renewed renewed) h =
     (if \<not> hb_renewing h then h
      else h\<lparr>hb_renewing := False, hb_lost := (if \<not> renewed \<and> \<not> hb_stopped h then hb_lost h + 1 else hb_lost h)\<rparr>)"
| "heartbeat_step Renewal_failed h =
     (if \<not> hb_renewing h then h
      else h\<lparr>hb_renewing := False, hb_errors := (if \<not> hb_stopped h then hb_errors h + 1 else hb_errors h)\<rparr>)"
| "heartbeat_step Stop_heartbeat h = h\<lparr>hb_stopped := True\<rparr>"

text \<open>A stopped heartbeat stays stopped, starts no renewal and calls nobody back.\<close>

definition heartbeat_le :: "heartbeat \<Rightarrow> heartbeat \<Rightarrow> bool" where
  "heartbeat_le h h' \<longleftrightarrow>
     (hb_stopped h \<longrightarrow> hb_stopped h' \<and> hb_renewals h' = hb_renewals h \<and> hb_lost h' = hb_lost h \<and> hb_errors h' = hb_errors h)"

definition heartbeat_inv :: "heartbeat \<Rightarrow> bool" where
  "heartbeat_inv h \<longleftrightarrow> hb_lost h + hb_errors h + (if hb_renewing h then 1 else 0) \<le> hb_renewals h"

interpretation heartbeats: monotone_machine heartbeat_step heartbeat_inv heartbeat_le
proof
  show "heartbeat_inv s \<Longrightarrow> heartbeat_inv (heartbeat_step e s)" for s e
    by (cases e) (auto simp: heartbeat_inv_def)
  show "heartbeat_le s (heartbeat_step e s)" for s e
    by (cases e) (auto simp: heartbeat_le_def)
qed (auto simp: heartbeat_le_def)

subsection \<open>Properties of the PR processing lock\<close>

text \<open>
  C10: A worker that acquired, renewed or adopted the lock of a pull request keeps it for the freshness
  period against everything other workers do with other tokens in that time, takeovers that name it as their
  predecessor included; and without takeovers for the whole time to live.
\<close>

theorem pr_lock_not_displaced:
  assumes "acquirePRProcessingLock pr_ttl (\<lambda>s. s) since k t s0 = (True, s)
       \<or> renewPRProcessingLock pr_ttl since k t s0 = (True, s)
       \<or> adoptPRProcessingLock pr_ttl pr_fresh since k p t s0 = (Adopted, s)"
    and "\<forall>(now, k', u, c) \<in> set cs. since \<le> now \<and> now < since + window \<and> u \<noteq> t"
    and "window = (if \<exists>c \<in> set cs. isl (snd (snd (snd c))) then pr_fresh else pr_ttl)"
    and "since \<le> now" "now < since + pr_ttl"
  shows "pr_owner (fold pr_lock.adopt_or_call cs s) k now = Some t"
proof -
  have h: "pr_lock.held s k t since"
    using assms(1) pr_lock.acquired_held [of since k t s0] pr_lock.renewed_held [of since k t s0]
      pr_lock.adopt_granted [of since k p t s0] by auto
  have "pr_lock.held (fold pr_lock.adopt_or_call cs s) k t since"
  proof (cases "\<exists>c \<in> set cs. isl (snd (snd (snd c)))")
    case True
    with assms(2,3) show ?thesis by (intro pr_lock.fresh_owner_not_displaced [OF h]) simp
  next
    case False
    define cs' where "cs' = map (\<lambda>(now, k, u, c). (now, k, u, projr c)) cs"
    have "fold pr_lock.adopt_or_call cs s = pr_lock.calls cs' s" for s
      using False unfolding cs'_def
      by (induction cs arbitrary: s) (auto simp: pr_lock.adopt_or_call_def split: sum.splits)
    moreover have "\<forall>(now, k', u, c) \<in> set cs'. since \<le> now \<and> now < since + pr_ttl \<and> u \<noteq> t"
      using assms(2,3) False by (auto simp: cs'_def)
    ultimately show ?thesis using pr_lock.held_excludes_others [OF h] by simp
  qed
  with assms(4,5) show ?thesis by (simp add: pr_lock.held_def)
qed

theorem pr_lock_not_displaced_witness:
  "pr_owner (fold pr_lock.adopt_or_call
      [(130, ''pr'', ''b'', Inr Acquire), (150, ''pr'', ''c'', Inl ''a''), (160, ''pr'', ''b'', Inr Release)]
      (snd (acquirePRProcessingLock pr_ttl (\<lambda>s. s) 100 ''pr'' ''a'' Map.empty))) ''pr'' 3000 = Some ''a''"
proof (rule pr_lock_not_displaced)
  show "acquirePRProcessingLock pr_ttl (\<lambda>s. s) 100 ''pr'' ''a'' Map.empty
      = (True, snd (acquirePRProcessingLock pr_ttl (\<lambda>s. s) 100 ''pr'' ''a'' Map.empty))
    \<or> renewPRProcessingLock pr_ttl 100 ''pr'' ''a'' Map.empty = (True, snd (acquirePRProcessingLock pr_ttl (\<lambda>s. s) 100 ''pr'' ''a'' Map.empty))
    \<or> adoptPRProcessingLock pr_ttl pr_fresh 100 ''pr'' ''x'' ''a'' Map.empty = (Adopted, snd (acquirePRProcessingLock pr_ttl (\<lambda>s. s) 100 ''pr'' ''a'' Map.empty))"
    by (simp add: pr_lock_defs redis_defs)
qed (simp_all add: pr_lock_constants)

text \<open>
  C36: When the key the pull request resolves to settles, the search for the current lock returns: if every
  answer from round \<open>n\<close> on is the same key, at most \<open>n + 2\<close> rounds are needed, whatever other workers do.
\<close>

theorem current_lock_search_terminates:
  assumes "\<forall>i \<ge> n. resolveLockKey e i = Return key"
  shows "fst (acquireCurrentPRProcessingLock e (n + 2) 0 lockKey lockToken s) \<noteq> None"
proof -
  have settled: "fst (acquireCurrentPRProcessingLock e (Suc fuel) i key lockToken s) \<noteq> None" if "n \<le> i" for fuel i s
    using assms that by (auto simp: Let_def split: prod.splits bool.splits)
  have "fst (acquireCurrentPRProcessingLock e (m + 2) i k lockToken s) \<noteq> None" if "n \<le> i + m" for m i k s
    using that
  proof (induction m arbitrary: i k s)
    case 0
    then show ?case using assms settled [of "Suc i" 0]
      by (auto simp: Let_def numeral_2_eq_2 simp del: acquireCurrentPRProcessingLock.simps
          simp: acquireCurrentPRProcessingLock.simps(2) [of e "Suc 0"] split: prod.splits bool.splits)
  next
    case (Suc m)
    then show ?case
      by (auto simp: Let_def simp del: acquireCurrentPRProcessingLock.simps
          simp: acquireCurrentPRProcessingLock.simps(2) [of e "Suc (Suc m)"] split: prod.splits bool.splits sum.splits)
  qed
  from this [of 0 n] show ?thesis by simp
qed

text \<open>The keys at which a token is held.\<close>

definition token_keys :: "string \<Rightarrow> int \<Rightarrow> redis_keys \<Rightarrow> string set" where
  "token_keys t now s = {k. redis_get now k s = Some t}"

lemma token_keys_release:
  "now \<le> later \<Longrightarrow> token_keys t later (snd (releasePRProcessingLock now k t s)) = token_keys t later s - {k}"
  by (auto simp: token_keys_def pr_lock_defs redis_defs split: option.splits if_splits)

lemma token_keys_set: "later < e \<Longrightarrow> token_keys t later (s(k \<mapsto> (t, e))) = insert k (token_keys t later s)"
  by (auto simp: token_keys_def redis_get_def)

lemma token_keys_acquire:
  assumes "acquirePRProcessingLock ttl mid now k t s = (ok, s')" "token_keys t later s = {}" "token_keys t later (mid s) = {}"
    and "later < now + ttl"
  shows "token_keys t later s' = (if ok then {k} else {})"
  using assms by (auto simp: pr_lock_defs redis_set_ex_def token_keys_set split: if_splits)

lemma search_holds_one:
  assumes others: "\<And>j s. token_keys t later (pr_others e j s) = token_keys t later s"
    and clock: "\<And>j. j < 2 * (i + fuel) \<Longrightarrow> pr_clock e j \<le> later \<and> later < pr_clock e j + pr_ttl"
    and "token_keys t later s = {}" "acquireCurrentPRProcessingLock e fuel i k t s = (Some out, s')"
  shows "case out of Held k' \<Rightarrow> token_keys t later s' = {k'} \<and> (\<exists>j. resolveLockKey e j = Return k')
         | Contended k' \<Rightarrow> token_keys t later s' = {}
         | Resolve_failed err \<Rightarrow> token_keys t later s' = {} \<and> (\<exists>j. resolveLockKey e j = Throw err)"
  using clock assms(3,4)
proof (induction fuel arbitrary: i k s)
  case (Suc fuel)
  have c: "pr_clock e (2 * i + 1) \<le> later" "later < pr_clock e (2 * i) + pr_ttl" using Suc.prems(1) by auto
  obtain ok s1 where acq: "acquirePRProcessingLock pr_ttl (pr_others e (3 * i + 1)) (pr_clock e (2 * i)) k t (pr_others e (3 * i) s) = (ok, s1)"
    by fastforce
  have s1: "token_keys t later s1 = (if ok then {k} else {})"
    by (rule token_keys_acquire [OF acq _ _ c(2)]) (simp_all add: others Suc.prems(2))
  define s3 where "s3 = snd (releasePRProcessingLock (pr_clock e (2 * i + 1)) k t (pr_others e (3 * i + 2) s1))"
  have s3: "token_keys t later s3 = {}" if ok using s1 that unfolding s3_def token_keys_release [OF c(1)] by (simp add: others)
  have ih: "ok \<Longrightarrow> acquireCurrentPRProcessingLock e fuel (Suc i) r t s3 = (Some out, s') \<Longrightarrow> ?case" for r
    using Suc.IH [of "Suc i"] Suc.prems(1) s3 by simp
  have "acquireCurrentPRProcessingLock e (Suc fuel) i k t s
      = (if \<not> ok then (Some (Contended k), s1)
         else case resolveLockKey e i of
                Inl err \<Rightarrow> (Some (Resolve_failed err), s3)
              | Inr r \<Rightarrow> (if r = k then (Some (Held k), pr_others e (3 * i + 2) s1)
                         else acquireCurrentPRProcessingLock e fuel (Suc i) r t s3))"
    unfolding acquireCurrentPRProcessingLock.simps acq s3_def
    by (cases ok) (simp_all only: prod.case bool.case Let_def not_True_eq_False not_False_eq_True if_True if_False)
  with Suc.prems(3) s1 s3 ih show ?case
    by (auto simp: others split: sum.splits if_splits)
qed simp

text \<open>
  The search holds exactly the lease it returns. If its token was held nowhere, other workers neither
  take nor drop it, and the search ends within the time to live, then it ends with the token at the
  returned key only, which the resolver answered, and nowhere when the search was contended or the resolver failed.
\<close>

theorem current_lock_search_holds_one_lease:
  assumes "\<And>j s. token_keys t later (pr_others e j s) = token_keys t later s"
    and "\<And>j. j < 2 * fuel \<Longrightarrow> pr_clock e j \<le> later \<and> later < pr_clock e j + pr_ttl"
    and "token_keys t later s = {}"
    and "acquireCurrentPRProcessingLock e fuel 0 k t s = (Some out, s')"
  shows "case out of Held k' \<Rightarrow> token_keys t later s' = {k'} \<and> (\<exists>j. resolveLockKey e j = Return k')
         | Contended k' \<Rightarrow> token_keys t later s' = {}
         | Resolve_failed err \<Rightarrow> token_keys t later s' = {} \<and> (\<exists>j. resolveLockKey e j = Throw err)"
  using search_holds_one [of t later e 0 fuel] assms by simp

definition sample_pr_env :: pr_env where
  "sample_pr_env = \<lparr>pr_clock = (\<lambda>j. int j), pr_others = (\<lambda>j s. s),
     resolveLockKey = (\<lambda>i. if i = 0 then Return ''pr2'' else Return ''pr3'')\<rparr>"

theorem current_lock_search_terminates_witness:
  "fst (acquireCurrentPRProcessingLock sample_pr_env 3 0 ''pr1'' ''a'' Map.empty) \<noteq> None"
proof -
  have "\<forall>i \<ge> 1. resolveLockKey sample_pr_env i = Return ''pr3''" by (simp add: sample_pr_env_def)
  from current_lock_search_terminates [OF this] show ?thesis by (simp add: numeral_3_eq_3)
qed

theorem current_lock_search_holds_one_lease_witness:
  "fst (acquireCurrentPRProcessingLock sample_pr_env 3 0 ''pr1'' ''a'' Map.empty) = Some (Held ''pr3'')
   \<and> token_keys ''a'' 9 (snd (acquireCurrentPRProcessingLock sample_pr_env 3 0 ''pr1'' ''a'' Map.empty)) = {''pr3''}"
proof -
  let ?r = "acquireCurrentPRProcessingLock sample_pr_env 3 0 ''pr1'' ''a'' Map.empty"
  have f: "fst ?r = Some (Held ''pr3'')"
    by (simp add: sample_pr_env_def numeral_3_eq_3 pr_lock_defs redis_defs pr_lock_constants Let_def)
  then have "?r = (Some (Held ''pr3''), snd ?r)" by (simp add: prod_eq_iff)
  from current_lock_search_holds_one_lease [OF _ _ _ this, of 9] f show ?thesis
    by (simp add: sample_pr_env_def token_keys_def redis_get_def pr_lock_constants)
qed

subsection \<open>The CI suspension lease\<close>

definition LEASE_TTL_MS :: int where "LEASE_TTL_MS = 2 * 60 * 1000"
definition LEASE_RENEW_INTERVAL_MS :: int where "LEASE_RENEW_INTERVAL_MS = 30 * 1000"
definition LEASE_ACQUIRE_TIMEOUT_MS :: int where "LEASE_ACQUIRE_TIMEOUT_MS = 30 * 1000"
definition LEASE_RETRY_INTERVAL_MS :: int where "LEASE_RETRY_INTERVAL_MS = 250"

lemmas lease_constants = LEASE_TTL_MS_def LEASE_RENEW_INTERVAL_MS_def LEASE_ACQUIRE_TIMEOUT_MS_def LEASE_RETRY_INTERVAL_MS_def

record LeaseRow =
  row_token :: string
  row_holder :: "string option"
  acquired_at :: int
  expires_at :: int

type_synonym lease_table = "string \<rightharpoonup> LeaseRow"

record SuspensionLeaseDeps =
  leaseHolder :: string
  leaseTtlMs :: int
  leaseAcquireTimeoutMs :: int

definition new_row :: "SuspensionLeaseDeps \<Rightarrow> int \<Rightarrow> string \<Rightarrow> LeaseRow" where
  "new_row d now token = \<lparr>row_token = token, row_holder = Some (leaseHolder d), acquired_at = now, expires_at = now + leaseTtlMs d\<rparr>"

definition claimExpired :: "SuspensionLeaseDeps \<Rightarrow> int \<Rightarrow> string \<Rightarrow> string \<Rightarrow> lease_table \<Rightarrow> bool \<times> lease_table" where
  "claimExpired d now leaseKey token tb =
     (case tb leaseKey of
        Some row \<Rightarrow> (if expires_at row \<le> now then (True, tb(leaseKey \<mapsto> new_row d now token)) else (False, tb))
      | None \<Rightarrow> (False, tb))"

text \<open>
  The insert and, when it is rejected because the row exists, the takeover: \<open>mid\<close> is what other workers do
  between the two, and \<open>later\<close> the second reading of the clock.
\<close>

definition tryAcquire ::
  "SuspensionLeaseDeps \<Rightarrow> (lease_table \<Rightarrow> lease_table) \<Rightarrow> int \<Rightarrow> int \<Rightarrow> string \<Rightarrow> string \<Rightarrow> lease_table \<Rightarrow> bool \<times> lease_table" where
  "tryAcquire d mid now later leaseKey token tb =
     (case tb leaseKey of
        None \<Rightarrow> (True, tb(leaseKey \<mapsto> new_row d now token))
      | Some _ \<Rightarrow> claimExpired d later leaseKey token (mid tb))"

definition renewLease :: "SuspensionLeaseDeps \<Rightarrow> int \<Rightarrow> string \<Rightarrow> string \<Rightarrow> lease_table \<Rightarrow> bool \<times> lease_table" where
  "renewLease d now leaseKey token tb =
     (case tb leaseKey of
        Some row \<Rightarrow> (if row_token row = token then (True, tb(leaseKey \<mapsto> row\<lparr>expires_at := now + leaseTtlMs d\<rparr>)) else (False, tb))
      | None \<Rightarrow> (False, tb))"

definition releaseLease :: "int \<Rightarrow> string \<Rightarrow> string \<Rightarrow> lease_table \<Rightarrow> bool \<times> lease_table" where
  "releaseLease now leaseKey token tb =
     (case tb leaseKey of
        Some row \<Rightarrow> (if row_token row = token then (True, tb(leaseKey := None)) else (False, tb))
      | None \<Rightarrow> (False, tb))"

lemmas susp_lease_defs = new_row_def claimExpired_def tryAcquire_def renewLease_def releaseLease_def

definition default_deps :: SuspensionLeaseDeps where
  "default_deps = \<lparr>leaseHolder = ''worker:1'', leaseTtlMs = LEASE_TTL_MS, leaseAcquireTimeoutMs = LEASE_ACQUIRE_TIMEOUT_MS\<rparr>"

definition lease_owner :: "lease_table \<Rightarrow> string \<Rightarrow> int \<Rightarrow> string option" where
  "lease_owner tb k now = (case tb k of Some row \<Rightarrow> (if now < expires_at row then Some (row_token row) else None) | None \<Rightarrow> None)"

interpretation susp_lease: lease lease_owner "\<lambda>now. tryAcquire default_deps (\<lambda>tb. tb) now now" "renewLease default_deps"
  releaseLease LEASE_TTL_MS
  by unfold_locales (auto simp: lease_owner_def susp_lease_defs default_deps_def fun_eq_iff split: option.splits if_splits)

text \<open>
  \<open>withSuspensionLease\<close>. The waiting caller reads the clock at the insert, at the takeover and at the check
  of the deadline of round \<open>i\<close>; \<open>susp_others j\<close> is what other workers do before its \<open>j\<close>-th database call. The
  operation is the sequence of what happens to the lease while it runs, with its own result at the end; a
  database error rejects the promise of the call. \<open>fuel\<close> bounds the rounds of the wait.
\<close>

record susp_env =
  try_clock :: "nat \<Rightarrow> int"
  claim_clock :: "nat \<Rightarrow> int"
  check_clock :: "nat \<Rightarrow> int"
  susp_others :: "nat \<Rightarrow> lease_table \<Rightarrow> lease_table"

datatype lease_error =
    SuspensionLeaseUnavailableError string
  | SuspensionLeaseLostError string
  | Operation_error error_message

fun acquire_rounds ::
  "SuspensionLeaseDeps \<Rightarrow> susp_env \<Rightarrow> int \<Rightarrow> nat \<Rightarrow> nat \<Rightarrow> string \<Rightarrow> string \<Rightarrow> lease_table \<Rightarrow> bool option \<times> lease_table" where
  "acquire_rounds d e deadline 0 i leaseKey token tb = (None, tb)"
| "acquire_rounds d e deadline (Suc fuel) i leaseKey token tb =
     (case tryAcquire d (susp_others e (2 * i + 1)) (try_clock e i) (claim_clock e i) leaseKey token (susp_others e (2 * i) tb) of
        (True, tb1) \<Rightarrow> (Some True, tb1)
      | (False, tb1) \<Rightarrow>
          (if check_clock e i \<ge> deadline then (Some False, tb1)
           else acquire_rounds d e deadline fuel (Suc i) leaseKey token tb1))"

datatype lease_event =
    Heartbeat int "unit result"
  | AssertHeld int "unit result"
  | Others "lease_table \<Rightarrow> lease_table"

fun run_operation ::
  "SuspensionLeaseDeps \<Rightarrow> string \<Rightarrow> string \<Rightarrow> 'a result \<Rightarrow> lease_event list \<Rightarrow> bool \<Rightarrow> lease_table
     \<Rightarrow> (lease_error + 'a) \<times> lease_table" where
  "run_operation d leaseKey token final [] lost tb =
     (case final of Inl err \<Rightarrow> Inl (Operation_error err) | Inr x \<Rightarrow> Inr x, tb)"
| "run_operation d leaseKey token final (Others f # es) lost tb = run_operation d leaseKey token final es lost (f tb)"
| "run_operation d leaseKey token final (Heartbeat now io # es) lost tb =
     (case io of
        Inl _ \<Rightarrow> run_operation d leaseKey token final es lost tb
      | Inr _ \<Rightarrow> (case renewLease d now leaseKey token tb of
                   (renewed, tb1) \<Rightarrow> run_operation d leaseKey token final es (lost \<or> \<not> renewed) tb1))"
| "run_operation d leaseKey token final (AssertHeld now io # es) lost tb =
     (if lost then (Inl (SuspensionLeaseLostError leaseKey), tb)
      else case io of
             Inl err \<Rightarrow> (Inl (Operation_error err), tb)
           | Inr _ \<Rightarrow> (case renewLease d now leaseKey token tb of
                        (True, tb1) \<Rightarrow> run_operation d leaseKey token final es lost tb1
                      | (False, tb1) \<Rightarrow> (Inl (SuspensionLeaseLostError leaseKey), tb1)))"

definition withSuspensionLease ::
  "SuspensionLeaseDeps \<Rightarrow> susp_env \<Rightarrow> nat \<Rightarrow> int \<Rightarrow> string \<Rightarrow> string \<Rightarrow> lease_event list \<Rightarrow> 'a result \<Rightarrow> unit result \<Rightarrow> lease_table
     \<Rightarrow> (lease_error + 'a) option \<times> lease_table" where
  "withSuspensionLease d e fuel start leaseKey token es final releasing tb =
     (case acquire_rounds d e (start + leaseAcquireTimeoutMs d) fuel 0 leaseKey token tb of
        (None, tb1) \<Rightarrow> (None, tb1)
      | (Some False, tb1) \<Rightarrow> (Some (Inl (SuspensionLeaseUnavailableError leaseKey)), tb1)
      | (Some True, tb1) \<Rightarrow>
          (case run_operation d leaseKey token final es False tb1 of
             (r, tb2) \<Rightarrow> (Some r, case releasing of Inl _ \<Rightarrow> tb2 | Inr _ \<Rightarrow> snd (releaseLease 0 leaseKey token tb2))))"

subsection \<open>Properties of the suspension lease\<close>

text \<open>
  C27: From the moment a worker acquires the suspension lease, or its renewal or \<open>assertHeld\<close> succeeds, until
  the time to live has passed, no call of another worker acquires, renews, releases or takes over the lease.
\<close>

theorem suspension_lease_excludes_others:
  assumes "tryAcquire default_deps (\<lambda>tb. tb) since since k t tb0 = (True, tb) \<or> renewLease default_deps since k t tb0 = (True, tb)"
    and "\<forall>(now, k', u, c) \<in> set cs. since \<le> now \<and> now < since + LEASE_TTL_MS \<and> u \<noteq> t"
    and "since \<le> now" "now < since + LEASE_TTL_MS" "u \<noteq> t"
  shows "lease_owner (susp_lease.calls cs tb) k now = Some t
     \<and> \<not> fst (tryAcquire default_deps (\<lambda>tb. tb) now now k u (susp_lease.calls cs tb))
     \<and> \<not> fst (renewLease default_deps now k u (susp_lease.calls cs tb))
     \<and> releaseLease now k u (susp_lease.calls cs tb) = (False, susp_lease.calls cs tb)"
proof -
  have "susp_lease.held tb k t since"
    using assms(1) susp_lease.acquired_held [of since k t tb0] susp_lease.renewed_held [of since k t tb0] by auto
  from susp_lease.held_excludes_others [OF this assms(2)]
  have "lease_owner (susp_lease.calls cs tb) k now = Some t" using assms(3,4) by (simp add: susp_lease.held_def)
  with susp_lease.refused [OF this assms(5) [symmetric]] show ?thesis by simp
qed

theorem suspension_lease_excludes_others_witness:
  "lease_owner (susp_lease.calls [(1000, ''pr'', ''b'', Acquire), (2000, ''pr'', ''b'', Release)]
      (snd (tryAcquire default_deps (\<lambda>tb. tb) 0 0 ''pr'' ''a'' Map.empty))) ''pr'' 119999 = Some ''a''"
proof -
  let ?r = "tryAcquire default_deps (\<lambda>tb. tb) 0 0 ''pr'' ''a'' Map.empty"
  have "?r = (True, snd ?r)" by (simp add: susp_lease_defs)
  then have "?r = (True, snd ?r) \<or> renewLease default_deps 0 ''pr'' ''a'' Map.empty = (True, snd ?r)" ..
  from suspension_lease_excludes_others [OF this, of "[(1000, ''pr'', ''b'', Acquire), (2000, ''pr'', ''b'', Release)]" 119999 "''b''"]
  show ?thesis by (simp add: lease_constants)
qed

lemma acquire_rounds_returns:
  assumes "\<And>j. check_clock e j \<ge> start + LEASE_RETRY_INTERVAL_MS * int j" "timeout \<le> LEASE_RETRY_INTERVAL_MS * int (i + n)"
  shows "fst (acquire_rounds d e (start + timeout) (Suc n) i k t tb) \<noteq> None"
  using assms(2)
proof (induction n arbitrary: i tb)
  case 0
  then show ?case using assms(1) [of i] by (auto split: prod.splits bool.splits)
next
  case (Suc n)
  then have ih: "fst (acquire_rounds d e (start + timeout) (Suc n) (Suc i) k t tb) \<noteq> None" for tb
    using Suc.IH [of "Suc i" tb] by (simp del: acquire_rounds.simps)
  show ?case by (subst acquire_rounds.simps) (auto simp del: acquire_rounds.simps not_None_eq simp: ih split: prod.splits bool.splits)
qed

text \<open>
  Waiting for the suspension lease is bounded: when each retry is at least the retry interval after
  the one before, \<open>withSuspensionLease\<close> settles after at most 121 attempts with the default timeout,
  whatever the other workers do.
\<close>

theorem lease_wait_is_bounded:
  assumes "\<And>j. check_clock e j \<ge> start + LEASE_RETRY_INTERVAL_MS * int j" "leaseAcquireTimeoutMs d = LEASE_ACQUIRE_TIMEOUT_MS"
  shows "fst (withSuspensionLease d e 121 start k t es final releasing tb) \<noteq> None"
proof -
  have "Suc 120 = (121::nat)" by simp
  with acquire_rounds_returns [OF assms(1), of LEASE_ACQUIRE_TIMEOUT_MS 0 120] assms(2)
  have "fst (acquire_rounds d e (start + leaseAcquireTimeoutMs d) 121 0 k t tb) \<noteq> None"
    by (simp add: lease_constants)
  then show ?thesis by (auto simp: withSuspensionLease_def split: prod.splits option.splits bool.splits)
qed

text \<open>The rows a token owns, whether or not they have expired.\<close>

definition token_rows :: "string \<Rightarrow> lease_table \<Rightarrow> string set" where
  "token_rows t tb = {k. \<exists>row. tb k = Some row \<and> row_token row = t}"

lemma token_rows_renew: "renewLease d now k t tb = (renewed, tb1) \<Longrightarrow> token_rows t tb1 = token_rows t tb"
  by (auto simp: token_rows_def susp_lease_defs split: option.splits if_splits)

lemma token_rows_release [simp]: "token_rows t (snd (releaseLease now k t tb)) = token_rows t tb - {k}"
  by (auto simp: token_rows_def susp_lease_defs split: option.splits if_splits)

lemma acquire_rounds_rows:
  assumes "\<And>j tb. token_rows t (susp_others e j tb) \<subseteq> token_rows t tb"
  shows "token_rows t (snd (acquire_rounds d e deadline fuel i k t tb)) \<subseteq> token_rows t tb
           \<union> (if fst (acquire_rounds d e deadline fuel i k t tb) = Some True then {k} else {})"
proof (induction fuel arbitrary: i tb)
  case (Suc fuel)
  obtain ok tb1 where a: "tryAcquire d (susp_others e (2 * i + 1)) (try_clock e i) (claim_clock e i) k t (susp_others e (2 * i) tb) = (ok, tb1)"
    by fastforce
  have "token_rows t tb1 \<subseteq> token_rows t tb \<union> (if ok then {k} else {})"
    using a assms [of "2 * i + 1" "susp_others e (2 * i) tb"] assms [of "2 * i" tb]
    by (auto simp: susp_lease_defs token_rows_def subset_iff split: option.splits if_splits)
  with Suc [of "Suc i" tb1] a show ?case by (auto simp: subset_iff split: bool.splits)
qed simp

lemma run_operation_rows:
  assumes "\<forall>f tb. Others f \<in> set es \<longrightarrow> token_rows t (f tb) \<subseteq> token_rows t tb"
  shows "token_rows t (snd (run_operation d k t final es lost tb)) \<subseteq> token_rows t tb"
  using assms
proof (induction es arbitrary: lost tb)
  case (Cons ev es)
  have ih: "token_rows t (snd (run_operation d k t final es lost tb1)) \<subseteq> token_rows t tb" if "token_rows t tb1 \<subseteq> token_rows t tb" for lost tb1
    using Cons.IH Cons.prems that by (meson list.set_intros(2) subset_trans)
  show ?case
  proof (cases ev)
    case (Others f)
    with Cons.prems have "token_rows t (f tb) \<subseteq> token_rows t tb" by simp
    with Others ih show ?thesis by simp
  next
    case (Heartbeat now io)
    with ih [of tb] show ?thesis using ih token_rows_renew [of d now k t tb] by (auto split: sum.splits prod.splits)
  next
    case (AssertHeld now io)
    show ?thesis
    proof (cases "renewLease d now k t tb")
      case (Pair renewed tb1)
      with ih [of tb1 False] token_rows_renew [OF Pair] AssertHeld show ?thesis
        by (cases renewed) (simp_all split: sum.splits)
    qed
  qed
qed simp


definition sample_susp_env :: susp_env where
  "sample_susp_env = \<lparr>try_clock = (\<lambda>i. 250 * int i), claim_clock = (\<lambda>i. 250 * int i), check_clock = (\<lambda>i. 250 * int i),
     susp_others = (\<lambda>j tb. tb)\<rparr>"

definition busy_table :: lease_table where
  "busy_table = [''pr'' \<mapsto> new_row default_deps 0 ''b'']"

theorem lease_wait_is_bounded_witness:
  "fst (withSuspensionLease default_deps sample_susp_env 121 0 ''pr'' ''a'' [AssertHeld 5 (Return ())] (Return ()) (Return ()) busy_table) \<noteq> None"
  by (rule lease_wait_is_bounded) (simp_all add: sample_susp_env_def lease_constants default_deps_def)


end
