(* ===== verification/Workflow_Slots.thy ===== *)
theory Workflow_Slots
  imports Prelude "HOL-Library.List_Lexorder" "HOL-Library.Char_ord" "HOL-Library.Product_Lexorder"
begin

section \<open>Repository workflow slots\<close>

text \<open>
  \<^verbatim>\<open>packages/core/src/workflow/workflowConcurrency.ts\<close> bounds the runs of one repository across
  all workers. The reservations live in four Redis keys that Lua scripts change atomically: the members with
  their deadlines, the cap of each member, the waiters by their first refusal, and the waiters by their lapse time. Each
  script is a function on the record \<open>slots\<close>; a sorted set or hash is an association list with the expiry
  time of its key. \<open>withRepositoryWorkflowSlot\<close> keeps a local view of its reservation: it is the record
  \<open>session\<close>, and its request, heartbeat, reconciliation and release are the steps of the relation
  \<open>slot_run\<close>, which interleaves any number of sessions.

  The whole system runs on one clock in milliseconds. Redis reads it in whole seconds, as \<open>TIME[1]\<close> does, and
  \<open>performance.now()\<close> of a worker runs at its rate.
\<close>

subsection \<open>Keys of sorted sets and hashes\<close>

type_synonym rkey = "(string \<times> int) list \<times> int option"

definition no_key :: rkey where "no_key = ([], None)"

text \<open>A key without elements does not exist and has no expiry.\<close>

definition mk_key :: "(string \<times> int) list \<Rightarrow> int option \<Rightarrow> rkey" where
  "mk_key c e = (if c = [] then no_key else (c, e))"

definition key_at :: "int \<Rightarrow> rkey \<Rightarrow> rkey" where
  "key_at now k = (case snd k of Some e \<Rightarrow> (if e \<le> now then no_key else k) | None \<Rightarrow> k)"

definition key_set :: "string \<Rightarrow> int \<Rightarrow> rkey \<Rightarrow> rkey" where
  "key_set m v k = (AList.update m v (fst k), snd k)"

definition key_set_nx :: "string \<Rightarrow> int \<Rightarrow> rkey \<Rightarrow> rkey" where
  "key_set_nx m v k = (if m \<in> al_keys (fst k) then k else key_set m v k)"

definition key_del :: "string \<Rightarrow> rkey \<Rightarrow> rkey" where
  "key_del m k = mk_key (AList.delete m (fst k)) (snd k)"

definition key_del_all :: "string list \<Rightarrow> rkey \<Rightarrow> rkey" where
  "key_del_all ms k = mk_key (filter (\<lambda>(m, v). m \<notin> set ms) (fst k)) (snd k)"

definition key_del_upto :: "int \<Rightarrow> rkey \<Rightarrow> rkey" where
  "key_del_upto now k = mk_key (filter (\<lambda>(m, v). \<not> v \<le> now) (fst k)) (snd k)"

definition members_upto :: "int \<Rightarrow> rkey \<Rightarrow> string list" where
  "members_upto now k = map fst (filter (\<lambda>(m, v). v \<le> now) (fst k))"

definition key_expire :: "int \<Rightarrow> int \<Rightarrow> rkey \<Rightarrow> rkey" where
  "key_expire now n k = (if fst k = [] then k else (fst k, Some (now + n)))"

definition zcard :: "rkey \<Rightarrow> int" where "zcard k = int (length (fst k))"

text \<open>\<open>ZRANGE key 0 n\<close>: by score, then by member.\<close>

definition zrange :: "nat \<Rightarrow> rkey \<Rightarrow> string list" where
  "zrange n k = map snd (take (Suc n) (sort (map (\<lambda>(m, v). (v, m)) (fst k))))"

lemmas key_defs = no_key_def mk_key_def key_at_def key_set_def key_set_nx_def key_del_def key_del_all_def key_del_upto_def
  key_expire_def

subsection \<open>The scripts\<close>

record slots =
  sl_members :: rkey
  sl_limits :: rkey
  sl_waiters :: rkey
  sl_waiting :: rkey

definition no_slots :: slots where
  "no_slots = \<lparr>sl_members = no_key, sl_limits = no_key, sl_waiters = no_key, sl_waiting = no_key\<rparr>"

definition slots_at :: "int \<Rightarrow> slots \<Rightarrow> slots" where
  "slots_at now s = \<lparr>sl_members = key_at now (sl_members s), sl_limits = key_at now (sl_limits s),
     sl_waiters = key_at now (sl_waiters s), sl_waiting = key_at now (sl_waiting s)\<rparr>"

definition repositoryWorkflowSlotKeys :: "string \<Rightarrow> string \<times> string \<times> string \<times> string" where
  "repositoryWorkflowSlotKeys repository =
     (let key = ''propr:workflow:slots:{'' @ js_lower repository @ ''}''
      in (key, key @ '':limits'', key @ '':waiters'', key @ '':waiting''))"

definition drop_expired_members :: "int \<Rightarrow> slots \<Rightarrow> slots" where
  "drop_expired_members now s =
     s\<lparr>sl_limits := key_del_all (members_upto now (sl_members s)) (sl_limits s),
       sl_members := key_del_upto now (sl_members s)\<rparr>"

definition drop_lapsed_waiters :: "int \<Rightarrow> slots \<Rightarrow> slots" where
  "drop_lapsed_waiters now s =
     s\<lparr>sl_waiters := key_del_all (members_upto now (sl_waiting s)) (sl_waiters s),
       sl_waiting := key_del_upto now (sl_waiting s)\<rparr>"

definition smaller_cap :: "int \<Rightarrow> int \<Rightarrow> int" where
  "smaller_cap other limit = (if other > 0 \<and> (limit = 0 \<or> other < limit) then other else limit)"

definition effective_cap :: "int list \<Rightarrow> int \<Rightarrow> int" where
  "effective_cap values own = fold smaller_cap values own"

definition join_waiters :: "int \<Rightarrow> string \<Rightarrow> slots \<Rightarrow> slots" where
  "join_waiters now waiter s =
     (if waiter = '''' then s
      else s\<lparr>sl_waiters := key_expire now 360 (key_set_nx waiter now (sl_waiters s)),
             sl_waiting := key_expire now 360 (key_set waiter (now + 360) (sl_waiting s))\<rparr>)"

definition leave_waiters :: "string \<Rightarrow> slots \<Rightarrow> slots" where
  "leave_waiters waiter s = s\<lparr>sl_waiters := key_del waiter (sl_waiters s), sl_waiting := key_del waiter (sl_waiting s)\<rparr>"

definition ACQUIRE_WORKFLOW_SLOT :: "int \<Rightarrow> string \<Rightarrow> int \<Rightarrow> string \<Rightarrow> slots \<Rightarrow> int \<times> slots" where
  "ACQUIRE_WORKFLOW_SLOT now token own waiter s0 =
     (let s = drop_lapsed_waiters now (drop_expired_members now (slots_at now s0));
          limit = effective_cap (map snd (fst (sl_limits s))) own
      in if limit > 0 \<and> zcard (sl_members s) \<ge> limit then (0, join_waiters now waiter s)
         else let s1 = (if waiter = '''' then s else leave_waiters waiter s)
              in (if limit > 0 then 2 else 1,
                  s1\<lparr>sl_members := key_expire now 180 (key_set token (now + 120) (sl_members s1)),
                     sl_limits := key_expire now 180 (key_set token own (sl_limits s1))\<rparr>))"

text \<open>The reply of the release: how many waiters may fit, and the candidates.\<close>

definition RELEASE_WORKFLOW_SLOT :: "int \<Rightarrow> string \<Rightarrow> slots \<Rightarrow> (int \<times> string list) option \<times> slots" where
  "RELEASE_WORKFLOW_SLOT now token s0 =
     (let s = slots_at now s0;
          own = (case map_of (fst (sl_limits s)) token of Some l \<Rightarrow> l | None \<Rightarrow> 0);
          s1 = drop_lapsed_waiters now (s\<lparr>sl_members := key_del token (sl_members s), sl_limits := key_del token (sl_limits s)\<rparr>);
          limit = effective_cap (map snd (fst (sl_limits s1))) own;
          free = (if limit > 0 then min 10 (limit - zcard (sl_members s1)) else 10);
          candidates = zrange (nat (free + 4)) (sl_waiters s1)
      in (if free \<le> 0 \<or> candidates = [] then None else Some (free, candidates), s1))"

definition forgetRepositoryWorkflowWaiter :: "int \<Rightarrow> string \<Rightarrow> slots \<Rightarrow> slots" where
  "forgetRepositoryWorkflowWaiter now waiter s = leave_waiters waiter (slots_at now s)"

definition RENEW_WORKFLOW_SLOT :: "int \<Rightarrow> string \<Rightarrow> int \<Rightarrow> slots \<Rightarrow> int \<times> slots" where
  "RENEW_WORKFLOW_SLOT now token own s0 =
     (let s = slots_at now s0;
          deadline = map_of (fst (sl_members s)) token;
          s1 = drop_expired_members now s;
          limit = effective_cap (map snd (fst (sl_limits s1))) own;
          lost = (case deadline of None \<Rightarrow> True | Some d \<Rightarrow> d \<le> now);
          s2 = (if lost then s1\<lparr>sl_limits := key_set token own (sl_limits s1)\<rparr> else s1)
      in if lost \<and> limit > 0 then (0, s1)
         else (if limit > 0 then 2 else 1,
               s2\<lparr>sl_members := key_expire now 180 (key_set token (now + 120) (sl_members s2)),
                  sl_limits := key_expire now 180 (sl_limits s2)\<rparr>))"

definition RECONCILE_WORKFLOW_SLOT :: "int \<Rightarrow> string \<Rightarrow> int \<Rightarrow> string \<Rightarrow> slots \<Rightarrow> int \<times> slots" where
  "RECONCILE_WORKFLOW_SLOT now token refreshed waiter s0 =
     (let s = slots_at now s0;
          deadline = map_of (fst (sl_members s)) token;
          s1 = drop_expired_members now s;
          lost = (case deadline of None \<Rightarrow> True | Some d \<Rightarrow> d \<le> now);
          limit = effective_cap (map snd (filter (\<lambda>(m, l). m \<noteq> token) (fst (sl_limits s1)))) refreshed
      in if lost then (- 1, s1)
         else if limit > 0 \<and> zcard (sl_members s1) > limit
         then (0, join_waiters now waiter (s1\<lparr>sl_members := key_del token (sl_members s1), sl_limits := key_del token (sl_limits s1)\<rparr>))
         else (if limit > 0 then 2 else 1, s1\<lparr>sl_limits := key_set token refreshed (sl_limits s1)\<rparr>))"

subsection \<open>The capacity invariant\<close>

text \<open>
  The members and their caps: both keys list the same tokens, live until the same time, which is no
  earlier than any deadline, and no positive cap is below the number of members.
\<close>

definition reservations_inv :: "rkey \<Rightarrow> rkey \<Rightarrow> bool" where
  "reservations_inv mem caps \<longleftrightarrow>
     distinct (map fst (fst mem)) \<and> distinct (map fst (fst caps)) \<and> al_keys (fst caps) = al_keys (fst mem)
     \<and> snd caps = snd mem \<and> (\<forall>(m, d) \<in> set (fst mem). \<exists>e. snd mem = Some e \<and> d \<le> e)
     \<and> (\<forall>(m, l) \<in> set (fst caps). l > 0 \<longrightarrow> zcard mem \<le> l)"

definition slots_inv :: "int \<Rightarrow> slots \<Rightarrow> bool" where
  "slots_inv now s \<longleftrightarrow> reservations_inv (sl_members s) (sl_limits s) \<and> (\<forall>(m, d) \<in> set (fst (sl_members s)). d \<le> now + 120)"

lemma smaller_cap_bound:
  "0 \<le> own \<Longrightarrow> 0 \<le> smaller_cap x own"
  "0 \<le> own \<Longrightarrow> v \<in> {own, x} \<Longrightarrow> v > 0 \<Longrightarrow> 0 < smaller_cap x own \<and> smaller_cap x own \<le> v"
  by (auto simp: smaller_cap_def)

lemma effective_cap_nonneg: "0 \<le> own \<Longrightarrow> 0 \<le> effective_cap vs own"
  by (induction vs arbitrary: own) (simp_all add: effective_cap_def smaller_cap_bound(1))

lemma effective_cap_bound:
  assumes "0 \<le> own" "v \<in> set (own # vs)" "v > 0"
  shows "0 < effective_cap vs own" "effective_cap vs own \<le> v"
proof -
  have "0 < effective_cap vs own \<and> effective_cap vs own \<le> v"
    using assms
  proof (induction vs arbitrary: own v)
    case (Cons x vs)
    let ?y = "smaller_cap x own"
    from Cons.prems consider "v \<in> {own, x}" | "v \<in> set vs" by auto
    then show ?case
    proof cases
      case 1
      with smaller_cap_bound(2) [of own v x] Cons.IH [of ?y ?y] Cons.prems show ?thesis
        by (auto simp: effective_cap_def)
    next
      case 2
      with Cons.IH [of ?y v] Cons.prems smaller_cap_bound(1) [of own x] show ?thesis by (simp add: effective_cap_def)
    qed
  qed (simp add: effective_cap_def)
  then show "0 < effective_cap vs own" "effective_cap vs own \<le> v" by simp_all
qed

lemma al_keys_empty [simp]: "al_keys xs = {} \<longleftrightarrow> xs = []"
  by simp

lemma inv_empty_iff: "reservations_inv mem caps \<Longrightarrow> fst mem = [] \<longleftrightarrow> fst caps = []"
  unfolding reservations_inv_def by (metis al_keys_empty)

lemma inv_at: "reservations_inv mem caps \<Longrightarrow> reservations_inv (key_at now mem) (key_at now caps)"
  by (auto simp: reservations_inv_def key_defs zcard_def split: option.splits)

lemma inv_mk_key:
  assumes "reservations_inv (c, e) (c', e)"
  shows "reservations_inv (mk_key c e) (mk_key c' e)"
  using assms inv_empty_iff [OF assms] by (auto simp: mk_key_def no_key_def reservations_inv_def)

lemma inv_filter:
  assumes "reservations_inv mem caps"
  shows "reservations_inv (filter (\<lambda>(m, v). P m) (fst mem), snd mem) (filter (\<lambda>(m, v). P m) (fst caps), snd mem)"
proof -
  have k: "al_keys (filter (\<lambda>(m, v). P m) xs) = {m \<in> al_keys xs. P m}" for xs :: "(string \<times> int) list" by force
  have "zcard (filter (\<lambda>(m, v). P m) (fst mem), snd mem) \<le> zcard mem" by (simp add: zcard_def)
  then have "\<forall>(m, l) \<in> set (filter (\<lambda>(m, v). P m) (fst caps)). l > 0 \<longrightarrow> zcard (filter (\<lambda>(m, v). P m) (fst mem), snd mem) \<le> l"
    using assms unfolding reservations_inv_def by fastforce
  then show ?thesis using assms unfolding reservations_inv_def fst_conv snd_conv k
    by (simp add: distinct_map_filter)
qed

lemma inv_snd: "reservations_inv mem caps \<Longrightarrow> snd caps = snd mem"
  by (simp add: reservations_inv_def)

lemma inv_del:
  "reservations_inv mem caps \<Longrightarrow> reservations_inv (key_del m mem) (key_del m caps)"
  using inv_mk_key [OF inv_filter [of mem caps "\<lambda>x. x \<noteq> m"]] inv_snd [of mem caps]
  by (simp add: key_del_def al_delete_filter)

lemma filter_value_by_key:
  assumes "distinct (map fst c)"
  shows "filter (\<lambda>(m, v). \<not> v \<le> now) c = filter (\<lambda>(m, v). m \<notin> set (members_upto now (c, e))) c"
proof (rule filter_cong [OF refl])
  fix x assume x: "x \<in> set c"
  have same: "snd y = snd x" if "y \<in> set c" "fst y = fst x" for y
    using that x eq_key_imp_eq_value [OF assms, of "fst x" "snd x" "snd y"] by (metis prod.collapse)
  have "set (members_upto now (c, e)) = fst ` {y \<in> set c. snd y \<le> now}"
    by (simp add: members_upto_def case_prod_unfold)
  moreover have "fst x \<in> fst ` {y \<in> set c. snd y \<le> now} \<longleftrightarrow> snd x \<le> now"
  proof
    assume "fst x \<in> fst ` {y \<in> set c. snd y \<le> now}"
    then obtain y where "y \<in> set c" "snd y \<le> now" "fst y = fst x" by auto
    with same [of y] show "snd x \<le> now" by simp
  qed (use x in simp)
  ultimately have "fst x \<in> set (members_upto now (c, e)) \<longleftrightarrow> snd x \<le> now" by simp
  then show "(case x of (m, v) \<Rightarrow> \<not> v \<le> now) = (case x of (m, v) \<Rightarrow> m \<notin> set (members_upto now (c, e)))"
    by (simp add: case_prod_unfold)
qed

lemma inv_drop_expired:
  assumes "reservations_inv mem caps"
  shows "reservations_inv (key_del_upto now mem) (key_del_all (members_upto now mem) caps)"
proof -
  have "filter (\<lambda>(m, v). \<not> v \<le> now) (fst mem) = filter (\<lambda>(m, v). m \<notin> set (members_upto now mem)) (fst mem)"
    using filter_value_by_key [of "fst mem" now "snd mem"] assms by (simp add: reservations_inv_def)
  with inv_mk_key [OF inv_filter [OF assms, of "\<lambda>m. m \<notin> set (members_upto now mem)"]] inv_snd [OF assms] show ?thesis
    unfolding key_del_upto_def key_del_all_def by simp
qed

lemma inv_expire_set:
  assumes "distinct (map fst (fst mem))" "\<forall>(m, d) \<in> set (fst mem). d \<le> now + 120"
    and "distinct (map fst (fst caps))" "al_keys (fst caps) = insert token (al_keys (fst mem))"
    and "\<forall>(m, l) \<in> set (fst caps). l > 0 \<longrightarrow> zcard (key_set token (now + 120) mem) \<le> l"
  shows "reservations_inv (key_expire now 180 (key_set token (now + 120) mem)) (key_expire now 180 caps)"
proof -
  let ?c = "AList.update token (now + 120) (fst mem)"
  have d: "\<forall>(m, d) \<in> set ?c. d \<le> now + 180" using al_set_update [of token "now + 120" "fst mem"] assms(2) by fastforce
  have k: "al_keys ?c = al_keys (fst caps)" using assms(4) by (simp add: al_keys_update)
  moreover from assms(4) have "al_keys (fst caps) \<noteq> {}" by (metis insert_not_empty)
  then have "?c \<noteq> []" "fst caps \<noteq> []" using k by (metis al_keys_empty)+
  ultimately show ?thesis using d assms(3,5) al_distinct_update [OF assms(1)]
    by (simp add: reservations_inv_def key_expire_def key_set_def zcard_def)
qed

lemma slots_frame [simp]:
  "sl_members (drop_lapsed_waiters now s) = sl_members s" "sl_limits (drop_lapsed_waiters now s) = sl_limits s"
  "sl_members (join_waiters now w s) = sl_members s" "sl_limits (join_waiters now w s) = sl_limits s"
  "sl_members (leave_waiters w s) = sl_members s" "sl_limits (leave_waiters w s) = sl_limits s"
  by (simp_all add: drop_lapsed_waiters_def join_waiters_def leave_waiters_def)

lemma slots_inv_later: "slots_inv now s \<Longrightarrow> now \<le> now' \<Longrightarrow> slots_inv now' s"
  by (force simp: slots_inv_def)

lemma slots_inv_no_slots: "slots_inv now no_slots"
  by (simp add: slots_inv_def reservations_inv_def no_slots_def no_key_def)

lemma slots_inv_at: "slots_inv now s \<Longrightarrow> slots_inv now (slots_at now' s)"
  using inv_at [of "sl_members s" "sl_limits s" now']
  by (auto simp: slots_inv_def slots_at_def key_at_def no_key_def split: option.splits)

lemma slots_inv_drop: "slots_inv now s \<Longrightarrow> slots_inv now (drop_expired_members now' s)"
  using inv_drop_expired [of "sl_members s" "sl_limits s" now']
  by (auto simp: slots_inv_def drop_expired_members_def key_del_upto_def mk_key_def no_key_def split: if_splits)

lemma slots_inv_del:
  "slots_inv now s \<Longrightarrow> slots_inv now (s\<lparr>sl_members := key_del m (sl_members s), sl_limits := key_del m (sl_limits s)\<rparr>)"
  using inv_del [of "sl_members s" "sl_limits s" m]
  by (auto simp: slots_inv_def key_del_def mk_key_def no_key_def al_delete_filter split: if_splits)

lemma slots_inv_cong: "sl_members s = sl_members s' \<Longrightarrow> sl_limits s = sl_limits s' \<Longrightarrow> slots_inv now s = slots_inv now s'"
  by (simp add: slots_inv_def)

lemma slots_inv_join [simp]:
  "slots_inv now (join_waiters now' w s) = slots_inv now s" "slots_inv now (leave_waiters w s) = slots_inv now s"
  "slots_inv now (drop_lapsed_waiters now' s) = slots_inv now s"
  by (rule slots_inv_cong; simp)+

text \<open>A member is added or kept: no positive cap may be below the new count.\<close>

lemma slots_inv_set:
  assumes "slots_inv now s" "al_keys (fst caps) = insert token (al_keys (fst (sl_members s)))" "distinct (map fst (fst caps))"
    and "\<forall>(m, l) \<in> set (fst caps). l > 0 \<longrightarrow> zcard (key_set token (now + 120) (sl_members s)) \<le> l"
  shows "slots_inv now (s\<lparr>sl_members := key_expire now 180 (key_set token (now + 120) (sl_members s)), sl_limits := key_expire now 180 caps\<rparr>)"
proof -
  have i: "distinct (map fst (fst (sl_members s)))" "\<forall>(m, d) \<in> set (fst (sl_members s)). d \<le> now + 120"
    using assms(1) by (simp_all add: slots_inv_def reservations_inv_def)
  have "\<forall>(m, d) \<in> set (AList.update token (now + 120) (fst (sl_members s))). d \<le> now + 120"
    using i(2) al_set_update [of token "now + 120" "fst (sl_members s)"] by fastforce
  then show ?thesis using inv_expire_set [OF i assms(3,2,4)]
    by (simp add: slots_inv_def key_expire_def key_set_def)
qed

lemma slots_inv_keys:
  "slots_inv now s \<Longrightarrow> al_keys (fst (sl_limits s)) = al_keys (fst (sl_members s)) \<and> distinct (map fst (fst (sl_limits s)))"
  by (simp add: slots_inv_def reservations_inv_def)

lemma slots_inv_caps:
  "slots_inv now s \<Longrightarrow> (m, l) \<in> set (fst (sl_limits s)) \<Longrightarrow> l > 0 \<Longrightarrow> zcard (sl_members s) \<le> l"
  unfolding slots_inv_def reservations_inv_def by fast

lemma zcard_key_set: "zcard (key_set m v k) = (if m \<in> al_keys (fst k) then zcard k else zcard k + 1)"
  by (simp add: zcard_def key_set_def al_length_update)

lemma acquire_inv:
  assumes "slots_inv now s0" "0 \<le> own"
  shows "slots_inv now (snd (ACQUIRE_WORKFLOW_SLOT now token own waiter s0))"
proof -
  define s where "s = drop_lapsed_waiters now (drop_expired_members now (slots_at now s0))"
  have inv: "slots_inv now s" unfolding s_def by (simp add: slots_inv_drop slots_inv_at assms(1))
  define limit where "limit = effective_cap (map snd (fst (sl_limits s))) own"
  define s1 where "s1 = (if waiter = '''' then s else leave_waiters waiter s)"
  have s1: "sl_members s1 = sl_members s" "sl_limits s1 = sl_limits s" "slots_inv now s1" by (simp_all add: s1_def inv)
  let ?caps = "key_set token own (sl_limits s1)"
  have "slots_inv now (s1\<lparr>sl_members := key_expire now 180 (key_set token (now + 120) (sl_members s1)), sl_limits := key_expire now 180 ?caps\<rparr>)"
    if room: "\<not> (limit > 0 \<and> zcard (sl_members s) \<ge> limit)"
  proof (rule slots_inv_set [OF s1(3)])
    show "al_keys (fst ?caps) = insert token (al_keys (fst (sl_members s1)))" "distinct (map fst (fst ?caps))"
      using slots_inv_keys [OF s1(3)] by (simp_all add: key_set_def al_keys_update al_distinct_update)
    show "\<forall>(m, l) \<in> set (fst ?caps). l > 0 \<longrightarrow> zcard (key_set token (now + 120) (sl_members s1)) \<le> l"
    proof clarify
      fix m l assume "(m, l) \<in> set (fst ?caps)" "0 < l"
      then have l: "l \<in> set (own # map snd (fst (sl_limits s)))"
        using al_set_update [of token own "fst (sl_limits s)"] by (force simp: key_set_def s1)
      from effective_cap_bound [OF assms(2) l \<open>0 < l\<close>] room
      show "zcard (key_set token (now + 120) (sl_members s1)) \<le> l"
        by (simp add: zcard_key_set s1 flip: limit_def)
    qed
  qed
  then show ?thesis
    by (auto simp: ACQUIRE_WORKFLOW_SLOT_def Let_def inv simp flip: s_def limit_def s1_def)
qed

text \<open>A token is lost to the scripts when it has no deadline or its deadline has passed.\<close>

definition slot_lost :: "int \<Rightarrow> string \<Rightarrow> slots \<Rightarrow> bool" where
  "slot_lost now token s = (case map_of (fst (sl_members (slots_at now s))) token of None \<Rightarrow> True | Some d \<Rightarrow> d \<le> now)"

definition pruned :: "int \<Rightarrow> slots \<Rightarrow> slots" where
  "pruned now s = drop_expired_members now (slots_at now s)"

lemma pruned_inv: "slots_inv now s \<Longrightarrow> slots_inv now (pruned now s)"
  by (simp add: pruned_def slots_inv_drop slots_inv_at)

lemma pruned_members: "fst (sl_members (pruned now s)) = filter (\<lambda>(m, v). \<not> v \<le> now) (fst (sl_members (slots_at now s)))"
  by (simp add: pruned_def drop_expired_members_def key_del_upto_def mk_key_def no_key_def)

lemma slot_kept: "\<not> slot_lost now token s \<Longrightarrow> token \<in> al_keys (fst (sl_members (pruned now s)))"
  by (force simp: slot_lost_def pruned_members dest: map_of_SomeD split: option.splits)

lemma renew_unfold:
  "RENEW_WORKFLOW_SLOT now token own s0 =
     (let s1 = pruned now s0; limit = effective_cap (map snd (fst (sl_limits s1))) own;
          caps = (if slot_lost now token s0 then key_set token own (sl_limits s1) else sl_limits s1)
      in if slot_lost now token s0 \<and> limit > 0 then (0, s1)
         else (if limit > 0 then 2 else 1,
               s1\<lparr>sl_members := key_expire now 180 (key_set token (now + 120) (sl_members s1)), sl_limits := key_expire now 180 caps\<rparr>))"
  by (simp add: RENEW_WORKFLOW_SLOT_def slot_lost_def pruned_def Let_def)

lemma reconcile_unfold:
  "RECONCILE_WORKFLOW_SLOT now token refreshed waiter s0 =
     (let s1 = pruned now s0;
          limit = effective_cap (map snd (filter (\<lambda>(m, l). m \<noteq> token) (fst (sl_limits s1)))) refreshed
      in if slot_lost now token s0 then (- 1, s1)
         else if limit > 0 \<and> zcard (sl_members s1) > limit
         then (0, join_waiters now waiter (s1\<lparr>sl_members := key_del token (sl_members s1), sl_limits := key_del token (sl_limits s1)\<rparr>))
         else (if limit > 0 then 2 else 1, s1\<lparr>sl_limits := key_set token refreshed (sl_limits s1)\<rparr>))"
  by (simp add: RECONCILE_WORKFLOW_SLOT_def slot_lost_def pruned_def Let_def)

lemma release_inv:
  assumes "slots_inv now s0"
  shows "slots_inv now (snd (RELEASE_WORKFLOW_SLOT now token s0))"
  using slots_inv_del [OF slots_inv_at [OF assms, of now], of token]
  by (simp add: RELEASE_WORKFLOW_SLOT_def Let_def)

lemma renew_inv:
  assumes "slots_inv now s0" "0 \<le> own"
  shows "slots_inv now (snd (RENEW_WORKFLOW_SLOT now token own s0))"
proof -
  define s1 where "s1 = pruned now s0"
  have inv: "slots_inv now s1" by (simp add: s1_def pruned_inv assms(1))
  define limit where "limit = effective_cap (map snd (fst (sl_limits s1))) own"
  define caps where "caps = (if slot_lost now token s0 then key_set token own (sl_limits s1) else sl_limits s1)"
  have "slots_inv now (s1\<lparr>sl_members := key_expire now 180 (key_set token (now + 120) (sl_members s1)), sl_limits := key_expire now 180 caps\<rparr>)"
    if nocap: "\<not> (slot_lost now token s0 \<and> limit > 0)"
  proof (rule slots_inv_set [OF inv])
    show "al_keys (fst caps) = insert token (al_keys (fst (sl_members s1)))" "distinct (map fst (fst caps))"
      using slots_inv_keys [OF inv] slot_kept [of now token s0]
      by (auto simp: caps_def key_set_def al_keys_update al_distinct_update insert_absorb s1_def simp del: image_eqI)
    show "\<forall>(m, l) \<in> set (fst caps). l > 0 \<longrightarrow> zcard (key_set token (now + 120) (sl_members s1)) \<le> l"
    proof (cases "slot_lost now token s0")
      case True
      have "\<not> 0 < l" if "(m, l) \<in> set (fst caps)" for m l
      proof
        assume "0 < l"
        have "l \<in> set (own # map snd (fst (sl_limits s1)))"
          using that al_set_update [of token own "fst (sl_limits s1)"] True by (force simp: caps_def key_set_def)
        from effective_cap_bound(1) [OF assms(2) this \<open>0 < l\<close>] nocap True show False by (simp flip: limit_def)
      qed
      then show ?thesis by blast
    next
      case False
      then have "zcard (key_set token (now + 120) (sl_members s1)) = zcard (sl_members s1)"
        using slot_kept [of now token s0] by (simp add: zcard_key_set s1_def)
      with False show ?thesis using slots_inv_caps [OF inv] by (auto simp: caps_def)
    qed
  qed
  then show ?thesis by (auto simp: renew_unfold Let_def inv simp flip: s1_def limit_def caps_def)
qed

lemma al_set_update_other:
  "distinct (map fst al) \<Longrightarrow> set (AList.update k v al) = insert (k, v) {(m, l) \<in> set al. m \<noteq> k}"
  by (induction al) force+

lemma slots_inv_set_cap:
  assumes "slots_inv now s" "token \<in> al_keys (fst (sl_members s))"
    and "\<forall>(m, l) \<in> set (AList.update token own (fst (sl_limits s))). l > 0 \<longrightarrow> zcard (sl_members s) \<le> l"
  shows "slots_inv now (s\<lparr>sl_limits := key_set token own (sl_limits s)\<rparr>)"
  using assms by (simp add: slots_inv_def reservations_inv_def key_set_def al_keys_update al_distinct_update insert_absorb)

lemma reconcile_inv:
  assumes "slots_inv now s0" "0 \<le> refreshed"
  shows "slots_inv now (snd (RECONCILE_WORKFLOW_SLOT now token refreshed waiter s0))"
proof -
  define s1 where "s1 = pruned now s0"
  have inv: "slots_inv now s1" by (simp add: s1_def pruned_inv assms(1))
  let ?others = "filter (\<lambda>(m, l). m \<noteq> token) (fst (sl_limits s1))"
  define limit where "limit = effective_cap (map snd ?others) refreshed"
  have "slots_inv now (s1\<lparr>sl_limits := key_set token refreshed (sl_limits s1)\<rparr>)"
    if ok: "\<not> slot_lost now token s0" "\<not> (limit > 0 \<and> zcard (sl_members s1) > limit)"
  proof (rule slots_inv_set_cap [OF inv])
    show "token \<in> al_keys (fst (sl_members s1))" unfolding s1_def by (rule slot_kept [OF ok(1)])
    have d: "distinct (map fst (fst (sl_limits s1)))" using slots_inv_keys [OF inv] by simp
    have u: "set (AList.update token refreshed (fst (sl_limits s1))) \<subseteq> insert (token, refreshed) (set ?others)"
      using al_set_update_other [OF d] by fastforce
    show "\<forall>(m, l) \<in> set (AList.update token refreshed (fst (sl_limits s1))). l > 0 \<longrightarrow> zcard (sl_members s1) \<le> l"
    proof clarify
      fix m l assume "(m, l) \<in> set (AList.update token refreshed (fst (sl_limits s1)))" "0 < l"
      then have "l \<in> set (refreshed # map snd ?others)" using u by force
      from effective_cap_bound [OF assms(2) this \<open>0 < l\<close>] ok(2)
      show "zcard (sl_members s1) \<le> l" by (simp flip: limit_def)
    qed
  qed
  then show ?thesis using slots_inv_del [OF inv, of token]
    by (auto simp: reconcile_unfold Let_def inv simp flip: s1_def limit_def)
qed

subsection \<open>Sessions\<close>

definition CONFIRMED_LEASE_MS :: int where "CONFIRMED_LEASE_MS = 119000"
definition STOP_MARGIN_MS :: int where "STOP_MARGIN_MS = 30000"

text \<open>
  The local variables of one call of \<open>withRepositoryWorkflowSlot\<close>. \<open>ses_renewing\<close> is a renewal in flight whose
  script has run: when it was requested and what the script returned.
\<close>

record session =
  ownLimit :: int
  ses_waiter :: string
  confirmedDeadline :: int
  ses_aborted :: bool
  ses_finished :: bool
  ses_released :: bool
  ses_renewing :: "(int \<times> int) option"

record slot_system =
  sys_time :: int
  sys_slots :: slots
  sys_sessions :: "string \<rightharpoonup> session"

definition redis_now :: "slot_system \<Rightarrow> int" where
  "redis_now y = sys_time y div 1000"

definition checkOwnership :: "int \<Rightarrow> session \<Rightarrow> session" where
  "checkOwnership t ses = (if t \<ge> confirmedDeadline ses - STOP_MARGIN_MS then ses\<lparr>ses_aborted := True\<rparr> else ses)"

definition put_session :: "string \<Rightarrow> session \<Rightarrow> slot_system \<Rightarrow> slot_system" where
  "put_session token ses y = y\<lparr>sys_sessions := (sys_sessions y)(token \<mapsto> ses)\<rparr>"

definition admit_session :: "string \<Rightarrow> int option \<Rightarrow> string \<Rightarrow> int \<Rightarrow> slot_system \<Rightarrow> unit result \<times> slot_system" where
  "admit_session token limit waiter requestedAt y =
     (let own = (case limit of None \<Rightarrow> 0 | Some l \<Rightarrow> l)
      in case ACQUIRE_WORKFLOW_SLOT (redis_now y) token own waiter (sys_slots y) of
           (acquired, s) \<Rightarrow>
             (if acquired \<noteq> 1 \<and> acquired \<noteq> 2 then (Throw ''Repository workflow capacity is currently full'', y\<lparr>sys_slots := s\<rparr>)
              else (Return (), put_session token
                      \<lparr>ownLimit = own, ses_waiter = waiter, confirmedDeadline = requestedAt + CONFIRMED_LEASE_MS, ses_aborted = False,
                       ses_finished = False, ses_released = False, ses_renewing = None\<rparr> (y\<lparr>sys_slots := s\<rparr>))))"

text \<open>The heartbeat: the request and the script, then the reply.\<close>

definition renew_session :: "string \<Rightarrow> int \<Rightarrow> session \<Rightarrow> slot_system \<Rightarrow> slot_system" where
  "renew_session token requestedAt ses y =
     (if ses_finished ses \<or> ses_aborted ses \<or> ses_renewing ses \<noteq> None then y
      else if ses_aborted (checkOwnership requestedAt ses) then put_session token (checkOwnership requestedAt ses) y
      else case RENEW_WORKFLOW_SLOT (redis_now y) token (ownLimit ses) (sys_slots y) of
             (renewed, s) \<Rightarrow> put_session token (ses\<lparr>ses_renewing := Some (requestedAt, renewed)\<rparr>) (y\<lparr>sys_slots := s\<rparr>))"

definition renewal_reply :: "int \<Rightarrow> session \<Rightarrow> session" where
  "renewal_reply t ses =
     (case ses_renewing ses of
        None \<Rightarrow> ses
      | Some (requestedAt, renewed) \<Rightarrow>
          (let ses1 = ses\<lparr>ses_renewing := None\<rparr>
           in if ses_finished ses \<or> ses_aborted ses then ses1
              else if ses_aborted (checkOwnership t ses1) then checkOwnership t ses1
              else if renewed \<noteq> 1 \<and> renewed \<noteq> 2 then ses1\<lparr>ses_aborted := True\<rparr>
              else ses1\<lparr>confirmedDeadline := requestedAt + CONFIRMED_LEASE_MS\<rparr>))"

text \<open>A renewal whose request failed; \<open>onLeaseError\<close> only reports it.\<close>

definition renewal_failed :: "session \<Rightarrow> session" where
  "renewal_failed ses = ses\<lparr>ses_renewing := None\<rparr>"

definition stop_session :: "session \<Rightarrow> session" where
  "stop_session ses = ses\<lparr>ses_finished := True\<rparr>"

text \<open>\<open>reaches\<close> is whether the release script ran; an error of Redis is only reported.\<close>

definition release_session :: "string \<Rightarrow> bool \<Rightarrow> session \<Rightarrow> slot_system \<Rightarrow> (int \<times> string list) option \<times> slot_system" where
  "release_session token reaches ses y =
     (if ses_released ses then (None, y)
      else let ses1 = stop_session ses\<lparr>ses_released := True\<rparr>
           in if reaches
              then (case RELEASE_WORKFLOW_SLOT (redis_now y) token (sys_slots y) of
                      (woken, s) \<Rightarrow> (woken, put_session token ses1 (y\<lparr>sys_slots := s\<rparr>)))
              else (None, put_session token ses1 y))"

text \<open>\<open>release\<close> after the execution: ownership must have covered it.\<close>

definition releaseAfterExecution :: "string \<Rightarrow> bool \<Rightarrow> session \<Rightarrow> slot_system \<Rightarrow> unit result \<times> slot_system" where
  "releaseAfterExecution token reaches ses y =
     (let ses1 = (if \<not> ses_released ses then checkOwnership (sys_time y) ses else ses);
          y1 = snd (release_session token reaches ses1 y)
      in (if ses_aborted ses1 then Throw ''Repository workflow capacity lease lost'' else Return (), y1))"

definition reconcile_session :: "string \<Rightarrow> int option \<Rightarrow> session \<Rightarrow> slot_system \<Rightarrow> unit result \<times> slot_system" where
  "reconcile_session token limit ses y =
     (let ses1 = checkOwnership (sys_time y) ses; refreshed = (case limit of None \<Rightarrow> 0 | Some l \<Rightarrow> l)
      in if ses_released ses then (Return (), y)
         else if ses_aborted ses1 then (Throw ''Repository workflow capacity lease lost'', put_session token ses1 y)
         else case RECONCILE_WORKFLOW_SLOT (redis_now y) token refreshed (ses_waiter ses) (sys_slots y) of
                (r, s) \<Rightarrow>
                  (let ses2 = ses1\<lparr>ownLimit := refreshed\<rparr>; y1 = y\<lparr>sys_slots := s\<rparr>
                   in if r = 0 then (Throw ''Repository workflow capacity is currently full'',
                                     put_session token (stop_session ses2\<lparr>ses_released := True\<rparr>) y1)
                      else if r \<noteq> 1 \<and> r \<noteq> 2
                      then (Throw ''Repository workflow capacity lease lost'', put_session token (ses2\<lparr>ses_aborted := True\<rparr>) y1)
                      else (Return (), put_session token ses2 y1)))"

text \<open>Any number of workers, in any order. A worker that crashed takes no more steps.\<close>

inductive slot_run :: "slot_system \<Rightarrow> bool" where
  start: "0 \<le> t \<Longrightarrow> slot_run \<lparr>sys_time = t, sys_slots = no_slots, sys_sessions = Map.empty\<rparr>"
| pass: "slot_run y \<Longrightarrow> sys_time y \<le> t \<Longrightarrow> slot_run (y\<lparr>sys_time := t\<rparr>)"
| admit: "slot_run y \<Longrightarrow> sys_sessions y token = None \<Longrightarrow> requestedAt \<le> sys_time y \<Longrightarrow>
    (\<And>l. limit = Some l \<Longrightarrow> 0 < l) \<Longrightarrow> slot_run (snd (admit_session token limit waiter requestedAt y))"
| renew: "slot_run y \<Longrightarrow> sys_sessions y token = Some ses \<Longrightarrow> requestedAt \<le> sys_time y \<Longrightarrow>
    slot_run (renew_session token requestedAt ses y)"
| reply: "slot_run y \<Longrightarrow> sys_sessions y token = Some ses \<Longrightarrow> slot_run (put_session token (renewal_reply (sys_time y) ses) y)"
| failed: "slot_run y \<Longrightarrow> sys_sessions y token = Some ses \<Longrightarrow> slot_run (put_session token (renewal_failed ses) y)"
| watchdog: "slot_run y \<Longrightarrow> sys_sessions y token = Some ses \<Longrightarrow> slot_run (put_session token (ses\<lparr>ses_aborted := True\<rparr>) y)"
| reconcile: "slot_run y \<Longrightarrow> sys_sessions y token = Some ses \<Longrightarrow> (\<And>l. limit = Some l \<Longrightarrow> 0 < l) \<Longrightarrow>
    slot_run (snd (reconcile_session token limit ses y))"
| release: "slot_run y \<Longrightarrow> sys_sessions y token = Some ses \<Longrightarrow> slot_run (snd (releaseAfterExecution token reaches ses y))"
| finish: "slot_run y \<Longrightarrow> sys_sessions y token = Some ses \<Longrightarrow> slot_run (snd (release_session token reaches ses y))"
| check: "slot_run y \<Longrightarrow> sys_sessions y token = Some ses \<Longrightarrow> slot_run (put_session token (checkOwnership (sys_time y) ses) y)"
| forget: "slot_run y \<Longrightarrow> slot_run (y\<lparr>sys_slots := forgetRepositoryWorkflowWaiter (redis_now y) waiter (sys_slots y)\<rparr>)"

subsection \<open>Every owned run is counted\<close>

text \<open>What a step leaves of the entry of a token it is not about.\<close>

definition frame :: "int \<Rightarrow> string \<Rightarrow> slots \<Rightarrow> slots \<Rightarrow> bool" where
  "frame now token s s' \<longleftrightarrow>
     (\<forall>d. map_of (fst (sl_members s')) token = Some d \<longrightarrow>
        map_of (fst (sl_members s)) token = Some d \<and> map_of (fst (sl_limits s')) token = map_of (fst (sl_limits s)) token)
     \<and> (\<forall>d. map_of (fst (sl_members s)) token = Some d \<longrightarrow> now < d \<longrightarrow> map_of (fst (sl_members s')) token = Some d)"

lemma frame_refl: "sl_members s' = sl_members s \<Longrightarrow> sl_limits s' = sl_limits s \<Longrightarrow> frame now token s s'"
  by (simp add: frame_def)

lemma frame_trans: "frame now token s s' \<Longrightarrow> frame now token s' s'' \<Longrightarrow> frame now token s s''"
  unfolding frame_def by metis

lemma fst_mk_key [simp]: "fst (mk_key c e) = c"
  by (simp add: mk_key_def no_key_def)

lemma map_of_filter_key: "map_of (filter (\<lambda>(m, v). P m) al) k = (if P k then map_of al k else None)"
  by (induction al) auto

lemma frame_at: "slots_inv now' s \<Longrightarrow> frame now token s (slots_at now s)"
  by (auto simp: frame_def slots_at_def key_at_def no_key_def slots_inv_def reservations_inv_def dest!: map_of_SomeD split: option.splits)

lemma frame_drop:
  assumes "slots_inv now' s"
  shows "frame now token s (drop_expired_members now s)"
proof -
  let ?m = "fst (sl_members s)" and ?gone = "members_upto now (sl_members s)"
  have d: "distinct (map fst ?m)" using assms by (simp add: slots_inv_def reservations_inv_def)
  have "map_of (fst (sl_members (drop_expired_members now s))) token = (if token \<notin> set ?gone then map_of ?m token else None)"
    using filter_value_by_key [OF d, of now "snd (sl_members s)"]
    by (simp add: drop_expired_members_def key_del_upto_def map_of_filter_key)
  moreover have "map_of (fst (sl_limits (drop_expired_members now s))) token
      = (if token \<notin> set ?gone then map_of (fst (sl_limits s)) token else None)"
    using map_of_filter_key [of "\<lambda>m. m \<notin> set ?gone" "fst (sl_limits s)" token]
    by (simp add: drop_expired_members_def key_del_all_def)
  moreover have "now < v \<Longrightarrow> map_of ?m token = Some v \<Longrightarrow> token \<notin> set ?gone" for v
    using d by (auto simp: members_upto_def dest!: map_of_SomeD dest: eq_key_imp_eq_value)
  ultimately show ?thesis by (auto simp: frame_def)
qed

lemma frame_pruned: "slots_inv now' s \<Longrightarrow> frame now token s (pruned now s)"
  unfolding pruned_def by (rule frame_trans [OF frame_at frame_drop [OF slots_inv_at]])

lemma map_of_key_del: "map_of (fst (key_del m k)) token = (if token = m then None else map_of (fst k) token)"
  by (simp add: key_del_def AList.delete_conv')

lemma map_of_key_set: "map_of (fst (key_set m v k)) token = (if token = m then Some v else map_of (fst k) token)"
  by (simp add: key_set_def AList.update_conv')

lemma fst_key_expire [simp]: "fst (key_expire now n k) = fst k"
  by (simp add: key_expire_def)

lemmas frame_simps = frame_def map_of_key_del map_of_key_set

lemma frame_acquire:
  assumes "slots_inv now' s" "token \<noteq> u"
  shows "frame now token s (snd (ACQUIRE_WORKFLOW_SLOT now u own waiter s))"
  by (rule frame_trans [OF frame_pruned [OF assms(1)]])
    (use assms(2) in \<open>simp add: ACQUIRE_WORKFLOW_SLOT_def Let_def pruned_def frame_simps\<close>)

lemma frame_release:
  assumes "slots_inv now' s" "token \<noteq> u"
  shows "frame now token s (snd (RELEASE_WORKFLOW_SLOT now u s))"
  by (rule frame_trans [OF frame_at [OF assms(1)]])
    (use assms(2) in \<open>simp add: RELEASE_WORKFLOW_SLOT_def Let_def frame_simps\<close>)

lemma frame_renew:
  assumes "slots_inv now' s" "token \<noteq> u"
  shows "frame now token s (snd (RENEW_WORKFLOW_SLOT now u own s))"
  by (rule frame_trans [OF frame_pruned [OF assms(1)]])
    (use assms(2) in \<open>simp add: renew_unfold Let_def frame_simps\<close>)

lemma frame_reconcile:
  assumes "slots_inv now' s" "token \<noteq> u"
  shows "frame now token s (snd (RECONCILE_WORKFLOW_SLOT now u refreshed waiter s))"
  by (rule frame_trans [OF frame_pruned [OF assms(1)]])
    (use assms(2) in \<open>simp add: reconcile_unfold Let_def frame_simps\<close>)

text \<open>
  Until when a session is promised to be counted: its confirmed deadline, or the one a renewal in
  flight will confirm. While that time has not come, its member is in Redis with a deadline no earlier, and
  while its member is in Redis its cap is the session's.
\<close>

definition promise :: "session \<Rightarrow> int" where
  "promise ses =
     (case ses_renewing ses of
        Some (requestedAt, renewed) \<Rightarrow>
          (if renewed = 1 \<or> renewed = 2 then max (confirmedDeadline ses) (requestedAt + CONFIRMED_LEASE_MS) else confirmedDeadline ses)
      | None \<Rightarrow> confirmedDeadline ses)"

definition session_inv :: "int \<Rightarrow> slots \<Rightarrow> string \<Rightarrow> session \<Rightarrow> bool" where
  "session_inv t s token ses \<longleftrightarrow> 0 \<le> ownLimit ses \<and>
     (\<not> ses_finished ses \<longrightarrow>
       (t < promise ses \<longrightarrow> (\<exists>d. map_of (fst (sl_members s)) token = Some d \<and> promise ses \<le> 1000 * d))
       \<and> (\<forall>d. map_of (fst (sl_members s)) token = Some d \<longrightarrow> map_of (fst (sl_limits s)) token = Some (ownLimit ses)))"

definition system_inv :: "slot_system \<Rightarrow> bool" where
  "system_inv y \<longleftrightarrow> slots_inv (redis_now y) (sys_slots y)
     \<and> (\<forall>token ses. sys_sessions y token = Some ses \<longrightarrow> session_inv (sys_time y) (sys_slots y) token ses)"

lemma session_inv_frame:
  assumes "session_inv t s token ses" "frame (t div 1000) token s s'"
  shows "session_inv t s' token ses"
proof -
  have "t div 1000 < d" if "t < p" "p \<le> 1000 * d" for p d :: int using that by linarith
  with assms show ?thesis unfolding session_inv_def frame_def by metis
qed

lemma session_inv_update:
  assumes "session_inv t s token ses" "ownLimit ses' = ownLimit ses"
    and "\<not> ses_finished ses' \<Longrightarrow> \<not> ses_finished ses \<and> (t < promise ses' \<longrightarrow> promise ses' \<le> promise ses)"
  shows "session_inv t s token ses'"
  using assms unfolding session_inv_def by (metis order_less_le_trans order_trans)

lemma checkOwnership_simps [simp]:
  "ownLimit (checkOwnership t ses) = ownLimit ses" "ses_finished (checkOwnership t ses) = ses_finished ses"
  "promise (checkOwnership t ses) = promise ses" "ses_waiter (checkOwnership t ses) = ses_waiter ses"
  "ses_released (checkOwnership t ses) = ses_released ses" "ses_renewing (checkOwnership t ses) = ses_renewing ses"
  by (simp_all add: checkOwnership_def promise_def split: option.split)

lemma system_inv_put:
  assumes "system_inv y" "sys_sessions y token = Some ses" "ownLimit ses' = ownLimit ses"
    and "\<not> ses_finished ses' \<Longrightarrow> \<not> ses_finished ses \<and> promise ses' \<le> promise ses"
  shows "system_inv (put_session token ses' y)"
  using assms session_inv_update [of "sys_time y" "sys_slots y" token ses ses']
  by (auto simp: system_inv_def put_session_def redis_now_def)

text \<open>A step on the slots that leaves every other token's entry.\<close>

lemma system_inv_slots:
  assumes "system_inv y" "slots_inv (redis_now y) s"
    and "\<And>u. u \<noteq> token \<Longrightarrow> frame (redis_now y) u (sys_slots y) s"
    and "session_inv (sys_time y) s token ses'"
  shows "system_inv (put_session token ses' (y\<lparr>sys_slots := s\<rparr>))"
  using assms session_inv_frame [of "sys_time y" "sys_slots y"]
  by (auto simp: system_inv_def put_session_def redis_now_def)

lemma session_inv_finished: "0 \<le> ownLimit ses \<Longrightarrow> ses_finished ses \<Longrightarrow> session_inv t s token ses"
  by (simp add: session_inv_def)

lemma confirmed_before_deadline:
  assumes "requestedAt \<le> t"
  shows "requestedAt + CONFIRMED_LEASE_MS \<le> 1000 * (t div 1000 + 120)"
proof -
  have "t mod 1000 < 1000" by simp
  with assms mult_div_mod_eq [of 1000 t] show ?thesis unfolding CONFIRMED_LEASE_MS_def distrib_left by linarith
qed

lemma acquire_session:
  assumes "ACQUIRE_WORKFLOW_SLOT now token own waiter s = (r, s')" "r = 1 \<or> r = 2"
  shows "map_of (fst (sl_members s')) token = Some (now + 120)" "map_of (fst (sl_limits s')) token = Some own"
  using assms by (auto simp: ACQUIRE_WORKFLOW_SLOT_def Let_def map_of_key_set split: if_splits)

lemma system_inv_admit:
  assumes "system_inv y" "requestedAt \<le> sys_time y" "\<And>l. limit = Some l \<Longrightarrow> 0 < l" "sys_sessions y token = None"
  shows "system_inv (snd (admit_session token limit waiter requestedAt y))"
proof -
  define own where "own = (case limit of None \<Rightarrow> 0 | Some l \<Rightarrow> l)"
  have own: "0 \<le> own" using assms(3) by (cases limit) (auto simp: own_def less_imp_le)
  obtain r s where a: "ACQUIRE_WORKFLOW_SLOT (redis_now y) token own waiter (sys_slots y) = (r, s)" by fastforce
  have inv: "slots_inv (redis_now y) (sys_slots y)" using assms(1) by (simp add: system_inv_def)
  have s: "slots_inv (redis_now y) s" using acquire_inv [OF inv own, of token waiter] a by simp
  have f: "u \<noteq> token \<Longrightarrow> frame (redis_now y) u (sys_slots y) s" for u
    using frame_acquire [OF inv, of u token "redis_now y" own waiter] a by simp
  show ?thesis
  proof (cases "r = 1 \<or> r = 2")
    case True
    have "session_inv (sys_time y) s token \<lparr>ownLimit = own, ses_waiter = waiter, confirmedDeadline = requestedAt + CONFIRMED_LEASE_MS,
        ses_aborted = False, ses_finished = False, ses_released = False, ses_renewing = None\<rparr>"
      using acquire_session [OF a True] own confirmed_before_deadline [OF assms(2)]
      by (simp add: session_inv_def promise_def redis_now_def)
    from system_inv_slots [OF assms(1) s f this] a True show ?thesis
      by (auto simp: admit_session_def Let_def simp flip: own_def)
  next
    case False
    have "sys_sessions y u = Some ses \<Longrightarrow> u \<noteq> token" for u ses using assms(4) by auto
    with False a assms(1) s f session_inv_frame [of "sys_time y" "sys_slots y"] show ?thesis
      by (auto simp: admit_session_def Let_def system_inv_def redis_now_def simp flip: own_def)
  qed
qed

lemma renew_session_entry:
  assumes "RENEW_WORKFLOW_SLOT now token own s = (r, s')" "slots_inv now s"
    and "\<And>d. map_of (fst (sl_members s)) token = Some d \<Longrightarrow> map_of (fst (sl_limits s)) token = Some own"
  shows "r = 1 \<or> r = 2 \<Longrightarrow> map_of (fst (sl_members s')) token = Some (now + 120) \<and> map_of (fst (sl_limits s')) token = Some own"
    and "\<not> (r = 1 \<or> r = 2) \<Longrightarrow> s' = pruned now s"
proof -
  have "map_of (fst (sl_limits (pruned now s))) token = Some own" if kept: "\<not> slot_lost now token s"
  proof -
    obtain d where "map_of (fst (sl_members (pruned now s))) token = Some d"
      using slot_kept [OF kept] by (metis map_of_eq_None_iff not_None_eq)
    with frame_pruned [OF assms(2), of now token]
    have "map_of (fst (sl_members s)) token = Some d"
      "map_of (fst (sl_limits (pruned now s))) token = map_of (fst (sl_limits s)) token"
      unfolding frame_def by blast+
    with assms(3) show ?thesis by metis
  qed
  then show "r = 1 \<or> r = 2 \<Longrightarrow> map_of (fst (sl_members s')) token = Some (now + 120) \<and> map_of (fst (sl_limits s')) token = Some own"
    using assms(1) by (auto simp: renew_unfold Let_def map_of_key_set split: if_splits)
  show "\<not> (r = 1 \<or> r = 2) \<Longrightarrow> s' = pruned now s"
    using assms(1) by (auto simp: renew_unfold Let_def split: if_splits)
qed

lemma promise_not_after: "promise (ses\<lparr>ses_renewing := None\<rparr>) \<le> promise ses"
  by (simp add: promise_def split: option.split)

lemma promise_reply: "promise (renewal_reply t ses) \<le> promise ses"
proof (cases "ses_renewing ses")
  case (Some r)
  obtain requestedAt renewed where "ses_renewing ses = Some (requestedAt, renewed)" using Some by (cases r) simp
  then show ?thesis using promise_not_after [of ses]
    by (auto simp: renewal_reply_def Let_def promise_def [of "_\<lparr>confirmedDeadline := _\<rparr>"] promise_def [of "_\<lparr>ses_aborted := _\<rparr>"] promise_def [of ses])
qed (simp add: renewal_reply_def)

lemma promised_bound:
  assumes "session_inv t s token ses" "\<not> ses_finished ses" "slots_inv (t div 1000) s"
  shows "promise ses \<le> 1000 * (t div 1000 + 120)"
proof (cases "t < promise ses")
  case True
  then obtain d where d: "map_of (fst (sl_members s)) token = Some d" "promise ses \<le> 1000 * d"
    using assms(1,2) unfolding session_inv_def by blast
  have "d \<le> t div 1000 + 120" using assms(3) map_of_SomeD [OF d(1)] by (auto simp: slots_inv_def)
  from d(2) mult_left_mono [OF this, of 1000] show ?thesis by simp
next
  case False
  have "t mod 1000 < 1000" by simp
  with False mult_div_mod_eq [of 1000 t] show ?thesis unfolding distrib_left by linarith
qed

lemma system_inv_renew:
  assumes "system_inv y" "sys_sessions y token = Some ses" "requestedAt \<le> sys_time y"
  shows "system_inv (renew_session token requestedAt ses y)"
proof (cases "ses_finished ses \<or> ses_aborted ses \<or> ses_renewing ses \<noteq> None \<or> ses_aborted (checkOwnership requestedAt ses)")
  case True
  with assms system_inv_put [OF assms(1,2), of "checkOwnership requestedAt ses"] show ?thesis
    by (auto simp: renew_session_def)
next
  case False
  obtain r s where e: "RENEW_WORKFLOW_SLOT (redis_now y) token (ownLimit ses) (sys_slots y) = (r, s)" by fastforce
  let ?ses = "ses\<lparr>ses_renewing := Some (requestedAt, r)\<rparr>"
  have inv: "slots_inv (redis_now y) (sys_slots y)" and si: "session_inv (sys_time y) (sys_slots y) token ses"
    using assms(1,2) by (auto simp: system_inv_def)
  have own: "0 \<le> ownLimit ses" and lim: "map_of (fst (sl_members (sys_slots y))) token = Some d \<Longrightarrow>
      map_of (fst (sl_limits (sys_slots y))) token = Some (ownLimit ses)" for d
    using si False by (simp_all add: session_inv_def)
  have s: "slots_inv (redis_now y) s" using renew_inv [OF inv own, of token] e by simp
  have f: "u \<noteq> token \<Longrightarrow> frame (redis_now y) u (sys_slots y) s" for u
    using frame_renew [OF inv, of u token "redis_now y" "ownLimit ses"] e by simp
  have p: "promise ses = confirmedDeadline ses" using False by (cases "ses_renewing ses") (auto simp: promise_def)
  have "session_inv (sys_time y) s token ?ses"
  proof (cases "r = 1 \<or> r = 2")
    case True
    have "promise ?ses \<le> 1000 * (redis_now y + 120)"
      using True p promised_bound [OF si] inv False confirmed_before_deadline [OF assms(3)]
      by (auto simp: promise_def redis_now_def)
    with renew_session_entry(1) [OF e inv lim True] own show ?thesis
      by (simp add: session_inv_def)
  next
    case r: False
    have "promise ?ses = promise ses" using r p by (simp add: promise_def)
    with session_inv_update [OF si, of ?ses] have "session_inv (sys_time y) (sys_slots y) token ?ses" by simp
    with session_inv_frame frame_pruned [OF inv] renew_session_entry(2) [OF e inv lim r] show ?thesis
      by (auto simp: redis_now_def)
  qed
  from system_inv_slots [OF assms(1) s f this] False e show ?thesis by (simp add: renew_session_def)
qed

lemma lost_gone: "slot_lost now token s \<Longrightarrow> slots_inv now' s \<Longrightarrow> map_of (fst (sl_members (pruned now s))) token = None"
proof -
  assume l: "slot_lost now token s" and i: "slots_inv now' s"
  have d: "distinct (map fst (fst (sl_members (slots_at now s))))"
    using slots_inv_at [OF i, of now] by (simp add: slots_inv_def reservations_inv_def)
  show ?thesis
  proof (rule ccontr)
    assume "map_of (fst (sl_members (pruned now s))) token \<noteq> None"
    then obtain v where "(token, v) \<in> set (fst (sl_members (slots_at now s)))" "now < v"
      by (auto simp: pruned_members dest!: map_of_SomeD)
    with l d show False by (simp add: slot_lost_def)
  qed
qed

lemma system_inv_reconcile:
  assumes "system_inv y" "sys_sessions y token = Some ses" "\<And>l. limit = Some l \<Longrightarrow> 0 < l"
  shows "system_inv (snd (reconcile_session token limit ses y))"
proof -
  define refreshed where "refreshed = (case limit of None \<Rightarrow> 0 | Some l \<Rightarrow> l)"
  have own: "0 \<le> refreshed" using assms(3) by (cases limit) (auto simp: refreshed_def less_imp_le)
  obtain r s where e: "RECONCILE_WORKFLOW_SLOT (redis_now y) token refreshed (ses_waiter ses) (sys_slots y) = (r, s)" by fastforce
  have inv: "slots_inv (redis_now y) (sys_slots y)" and si: "session_inv (sys_time y) (sys_slots y) token ses"
    using assms(1,2) by (auto simp: system_inv_def)
  have s: "slots_inv (redis_now y) s" using reconcile_inv [OF inv own, of token "ses_waiter ses"] e by simp
  have f: "u \<noteq> token \<Longrightarrow> frame (redis_now y) u (sys_slots y) s" for u
    using frame_reconcile [OF inv, of u token "redis_now y" refreshed "ses_waiter ses"] e by simp
  let ?ses = "checkOwnership (sys_time y) ses\<lparr>ownLimit := refreshed\<rparr>"
  have p: "promise (?ses\<lparr>ses_aborted := b\<rparr>) = promise ses" "promise ?ses = promise ses" for b
    by (simp_all add: promise_def checkOwnership_def split: option.split)
  have sp: "session_inv (sys_time y) (pruned (redis_now y) (sys_slots y)) token ses"
    using session_inv_frame [OF si] frame_pruned [OF inv] by (simp add: redis_now_def)
  have lost: "session_inv (sys_time y) s token (?ses\<lparr>ses_aborted := True\<rparr>)" if "slot_lost (redis_now y) token (sys_slots y)"
    using that e sp own lost_gone [OF that inv] p(1) [of True] by (auto simp: reconcile_unfold Let_def session_inv_def)
  have kept: "session_inv (sys_time y) s token ?ses" if "r = 1 \<or> r = 2"
    using that e sp own p(2) by (auto simp: reconcile_unfold Let_def session_inv_def map_of_key_set split: if_splits)
  have gone: "slot_lost (redis_now y) token (sys_slots y)" if "r \<noteq> 0" "r \<noteq> 1" "r \<noteq> 2"
    using that e by (auto simp: reconcile_unfold Let_def split: if_splits)
  have fin: "session_inv (sys_time y) s token (stop_session ?ses\<lparr>ses_released := True\<rparr>)"
    using own by (simp add: session_inv_finished stop_session_def)
  have put: "system_inv (put_session token ses' (y\<lparr>sys_slots := s\<rparr>))" if "session_inv (sys_time y) s token ses'" for ses'
    by (rule system_inv_slots [OF assms(1) s f that])
  show ?thesis
    using put [OF fin] put [OF kept] put [OF lost [OF gone]] e assms(1) system_inv_put [OF assms(1,2), of "checkOwnership (sys_time y) ses"]
    by (simp add: reconcile_session_def Let_def flip: refreshed_def)
qed

lemma system_inv_release:
  assumes "system_inv y" "0 \<le> ownLimit ses"
  shows "system_inv (snd (release_session token reaches ses y))"
proof -
  obtain w s where e: "RELEASE_WORKFLOW_SLOT (redis_now y) token (sys_slots y) = (w, s)" by fastforce
  have inv: "slots_inv (redis_now y) (sys_slots y)" using assms(1) by (simp add: system_inv_def)
  have s: "slots_inv (redis_now y) s" using release_inv [OF inv, of token] e by simp
  have f: "u \<noteq> token \<Longrightarrow> frame (redis_now y) u (sys_slots y) s" for u
    using frame_release [OF inv, of u token "redis_now y"] e by simp
  let ?ses = "stop_session ses\<lparr>ses_released := True\<rparr>"
  have fin: "session_inv t x token ?ses" for t x using assms(2) by (simp add: session_inv_finished stop_session_def)
  have "system_inv (put_session token ?ses (y\<lparr>sys_slots := s\<rparr>))"
    by (rule system_inv_slots [OF assms(1) s f fin])
  moreover have "system_inv (put_session token ?ses y)"
    using assms(1) fin by (auto simp: system_inv_def put_session_def redis_now_def)
  ultimately show ?thesis using assms(1) e
    by (simp add: release_session_def Let_def)
qed

lemma system_inv_time: "system_inv y \<Longrightarrow> sys_time y \<le> t \<Longrightarrow> system_inv (y\<lparr>sys_time := t\<rparr>)"
  unfolding system_inv_def redis_now_def session_inv_def
  by (auto intro: slots_inv_later zdiv_mono1)

lemma slot_run_inv: "slot_run y \<Longrightarrow> system_inv y"
proof (induction rule: slot_run.induct)
  case (start t)
  then show ?case by (simp add: system_inv_def slots_inv_no_slots)
next
  case (forget y waiter)
  have f: "frame (redis_now y) u (sys_slots y) (forgetRepositoryWorkflowWaiter (redis_now y) waiter (sys_slots y))" for u
    using forget.IH unfolding forgetRepositoryWorkflowWaiter_def system_inv_def
    by (intro frame_trans [OF frame_at frame_refl]) auto
  have "slots_inv (redis_now y) (forgetRepositoryWorkflowWaiter (redis_now y) waiter (sys_slots y))"
    using forget.IH by (simp add: forgetRepositoryWorkflowWaiter_def system_inv_def slots_inv_at)
  with forget.IH f session_inv_frame [of "sys_time y" "sys_slots y"] show ?case by (auto simp: system_inv_def redis_now_def)
next
  case (release y token ses reaches)
  then have "0 \<le> ownLimit ses" by (auto simp: system_inv_def session_inv_def)
  with release.IH show ?case by (auto simp: releaseAfterExecution_def Let_def intro!: system_inv_release)
next
  case (finish y token ses reaches)
  then have "0 \<le> ownLimit ses" by (auto simp: system_inv_def session_inv_def)
  with finish.IH show ?case by (rule system_inv_release)
next
  case (reply y token ses)
  have "ownLimit (renewal_reply (sys_time y) ses) = ownLimit ses" "ses_finished (renewal_reply (sys_time y) ses) = ses_finished ses"
    by (simp_all add: renewal_reply_def Let_def split: option.split)
  with reply promise_reply show ?case by (auto intro: system_inv_put)
next
  case (failed y token ses)
  with promise_not_after [of ses] show ?case by (auto simp: renewal_failed_def intro: system_inv_put)
next
  case (watchdog y token ses)
  have "promise (ses\<lparr>ses_aborted := True\<rparr>) = promise ses" by (simp add: promise_def split: option.split)
  with watchdog show ?case by (auto intro: system_inv_put)
qed (auto intro: system_inv_time system_inv_admit system_inv_renew system_inv_reconcile system_inv_put)

subsection \<open>Properties\<close>

text \<open>
  A run that may still be working: its slot is not given up and the last confirmed deadline has not come. This
  includes the last thirty seconds, in which an aborted run is torn down.
\<close>

definition may_run :: "slot_system \<Rightarrow> string \<Rightarrow> bool" where
  "may_run y token =
     (case sys_sessions y token of None \<Rightarrow> False | Some ses \<Rightarrow> \<not> ses_finished ses \<and> sys_time y < confirmedDeadline ses)"

lemma may_run_entry:
  assumes "system_inv y" "may_run y token"
  obtains ses d where "sys_sessions y token = Some ses" "map_of (fst (sl_members (sys_slots y))) token = Some d"
    "map_of (fst (sl_limits (sys_slots y))) token = Some (ownLimit ses)" "redis_now y < d"
proof -
  obtain ses where ses: "sys_sessions y token = Some ses" "\<not> ses_finished ses" "sys_time y < confirmedDeadline ses"
    using assms(2) by (auto simp: may_run_def split: option.splits)
  have si: "session_inv (sys_time y) (sys_slots y) token ses" using assms(1) ses(1) by (simp add: system_inv_def)
  have p: "confirmedDeadline ses \<le> promise ses" by (simp add: promise_def split: option.split)
  with si ses(2,3) obtain d where d: "map_of (fst (sl_members (sys_slots y))) token = Some d" "promise ses \<le> 1000 * d"
    unfolding session_inv_def by force
  have "sys_time y < 1000 * d" using ses(3) p d(2) by simp
  then have "redis_now y < d" unfolding redis_now_def by linarith
  with that ses(1) d(1) si ses(2) show ?thesis by (simp add: session_inv_def)
qed

text \<open>
  C1: However the workers of a repository interleave, the runs that may still be working never exceed the
  cap of any one of them: admissions, heartbeats with late or lost replies, reconciliations, releases that do
  not reach Redis and crashed workers included.
\<close>

theorem running_never_exceeds_any_cap:
  assumes "slot_run y" "may_run y token" "sys_sessions y token = Some ses" "0 < ownLimit ses"
  shows "finite {u. may_run y u} \<and> int (card {u. may_run y u}) \<le> ownLimit ses"
proof -
  let ?m = "fst (sl_members (sys_slots y))"
  have inv: "system_inv y" by (rule slot_run_inv [OF assms(1)])
  have sub: "{u. may_run y u} \<subseteq> set (map fst ?m)"
  proof
    fix u assume "u \<in> {u. may_run y u}"
    then obtain d where "map_of ?m u = Some d" by (auto elim: may_run_entry [OF inv])
    then show "u \<in> set (map fst ?m)" using map_of_eq_None_iff [of ?m u] by simp
  qed
  have "card {u. may_run y u} \<le> length ?m"
    using card_mono [OF _ sub] card_length [of "map fst ?m"] by simp
  moreover have "int (length ?m) \<le> ownLimit ses"
  proof -
    obtain ses' where "sys_sessions y token = Some ses'" "map_of (fst (sl_limits (sys_slots y))) token = Some (ownLimit ses')"
      by (rule may_run_entry [OF inv assms(2)])
    with assms(3) have l: "(token, ownLimit ses) \<in> set (fst (sl_limits (sys_slots y)))" by (simp add: map_of_SomeD)
    have "slots_inv (redis_now y) (sys_slots y)" using inv by (simp add: system_inv_def)
    from slots_inv_caps [OF this l assms(4)] show ?thesis by (simp add: zcard_def)
  qed
  ultimately show ?thesis using finite_subset [OF sub] by simp
qed

definition sample_slots :: slot_system where
  "sample_slots = snd (admit_session ''a'' (Some 1) ''j1'' 1000 \<lparr>sys_time = 1500, sys_slots = no_slots, sys_sessions = Map.empty\<rparr>)"

theorem running_never_exceeds_any_cap_witness:
  "may_run (snd (admit_session ''b'' None ''j2'' 1500 sample_slots)) ''a''
   \<and> card {u. may_run (snd (admit_session ''b'' None ''j2'' 1500 sample_slots)) u} \<le> 1"
proof -
  let ?y = "snd (admit_session ''b'' None ''j2'' 1500 sample_slots)"
  have "slot_run sample_slots" unfolding sample_slots_def by (rule slot_run.admit [OF slot_run.start]) simp_all
  moreover have "sys_sessions sample_slots ''b'' = None" by code_simp
  moreover have "1500 \<le> sys_time sample_slots" by code_simp
  ultimately have r: "slot_run ?y" by (rule slot_run.admit) simp
  have m: "may_run ?y ''a''" by code_simp
  have "map_option ownLimit (sys_sessions ?y ''a'') = Some 1" by code_simp
  then obtain ses where "sys_sessions ?y ''a'' = Some ses" "ownLimit ses = 1" by auto
  from running_never_exceeds_any_cap [OF r m this(1)] this(2) m show ?thesis by simp
qed

text \<open>
  C28: A released slot is offered to those who waited longest: the reply names at least one free place and at
  most ten, never more than the smallest cap in force leaves, and no waiter left out of the candidates has
  waited longer than a candidate.
\<close>

theorem release_offers_longest_waiting:
  assumes "RELEASE_WORKFLOW_SLOT now token s = (Some (free, candidates), s')" "\<forall>(m, l) \<in> set (fst (sl_limits s)). 0 \<le> l"
  shows "1 \<le> free \<and> free \<le> 10 \<and> candidates \<noteq> [] \<and> int (length candidates) \<le> free + 5
    \<and> (\<forall>(m, l) \<in> set (fst (sl_limits s')). 0 < l \<longrightarrow> zcard (sl_members s') + free \<le> l)
    \<and> (\<forall>(w, since) \<in> set (fst (sl_waiters s')). w \<notin> set candidates \<longrightarrow>
         (\<forall>c \<in> set candidates. \<exists>earlier \<le> since. (c, earlier) \<in> set (fst (sl_waiters s'))))"
proof -
  define s1 where "s1 = slots_at now s"
  define own where "own = (case map_of (fst (sl_limits s1)) token of Some l \<Rightarrow> l | None \<Rightarrow> 0)"
  define limit where "limit = effective_cap (map snd (fst (sl_limits s'))) own"
  have s': "s' = drop_lapsed_waiters now (s1\<lparr>sl_members := key_del token (sl_members s1), sl_limits := key_del token (sl_limits s1)\<rparr>)"
    using assms(1) by (simp add: RELEASE_WORKFLOW_SLOT_def Let_def s1_def split: if_splits)
  have free: "free = (if limit > 0 then min 10 (limit - zcard (sl_members s')) else 10)" "0 < free"
    and c: "candidates = zrange (nat (free + 4)) (sl_waiters s')" "candidates \<noteq> []"
    using assms(1) by (auto simp: RELEASE_WORKFLOW_SLOT_def Let_def s' limit_def own_def s1_def split: if_splits)
  have "0 \<le> own" using assms(2)
    by (auto simp: own_def s1_def slots_at_def key_at_def no_key_def dest!: map_of_SomeD split: option.splits)
  then have "limit \<le> l \<and> 0 < limit" if "(m, l) \<in> set (fst (sl_limits s'))" "0 < l" for m l
    using effective_cap_bound [of own l "map snd (fst (sl_limits s'))"] that by (force simp: limit_def)
  then have caps: "\<forall>(m, l) \<in> set (fst (sl_limits s')). 0 < l \<longrightarrow> zcard (sl_members s') + free \<le> l"
    using free(1) by fastforce
  let ?ws = "sort (map (\<lambda>(m, v). (v, m)) (fst (sl_waiters s')))" and ?n = "Suc (nat (free + 4))"
  have len: "int (length candidates) \<le> free + 5" using free(2) by (simp add: c(1) zrange_def)
  have ord: "\<exists>earlier \<le> since. (x, earlier) \<in> set (fst (sl_waiters s'))"
    if w: "(w, since) \<in> set (fst (sl_waiters s'))" "w \<notin> set candidates" and x: "x \<in> set candidates" for w since x
  proof -
    have "(since, w) \<in> set ?ws" using w(1) by force
    moreover have "(since, w) \<notin> set (take ?n ?ws)" using w(2) unfolding c(1) zrange_def by force
    ultimately have after: "(since, w) \<in> set (drop ?n ?ws)" by (metis Un_iff append_take_drop_id set_append)
    obtain e where e: "(e, x) \<in> set (take ?n ?ws)" using x by (auto simp: c(1) zrange_def)
    have "sorted (take ?n ?ws @ drop ?n ?ws)" by simp
    then have "(e, x) \<le> (since, w)" using e after unfolding sorted_append by blast
    then have "e \<le> since" by (auto simp: less_eq_prod_def)
    moreover have "(e, x) \<in> set ?ws" using e by (rule in_set_takeD)
    then have "(x, e) \<in> set (fst (sl_waiters s'))" by auto
    ultimately show ?thesis by blast
  qed
  show ?thesis using free c(2) caps len ord by auto
qed

definition sample_waiting :: slots where
  "sample_waiting = sys_slots (snd (admit_session ''b'' None ''j2'' 1500 sample_slots))"

theorem release_offers_longest_waiting_witness:
  "fst (RELEASE_WORKFLOW_SLOT 2 ''a'' sample_waiting) = Some (1, [''j2'']) \<and> int (length [''j2'']) \<le> 1 + 5"
proof -
  let ?r = "RELEASE_WORKFLOW_SLOT 2 ''a'' sample_waiting"
  have f: "fst ?r = Some (1, [''j2''])" by code_simp
  then have r: "?r = (Some (1, [''j2'']), snd ?r)" by (simp add: prod_eq_iff)
  have n: "\<forall>(m, l) \<in> set (fst (sl_limits sample_waiting)). 0 \<le> l" by code_simp
  from f release_offers_longest_waiting [OF r n] show ?thesis by blast
qed

end
