(* ===== verification/Agent_Admission.thy ===== *)
theory Agent_Admission
  imports Prelude
begin

section \<open>Physical admission of agent containers\<close>

text \<open>
  \<^verbatim>\<open>packages/core/src/agents/agentRunAdmission.ts\<close> bounds the agent containers of an instance
  by its entitlement. A reservation is a record in a Redis hash that never expires by itself: an expired
  one is fenced (its state becomes \<open>recovering\<close>), its container is removed, and only then is
  it released. One Lua script does every operation on the hash and on the configuration; its branches are
  the functions \<open>script_acquire\<close>, \dots, \<open>script_renew\<close>. \<open>prepareAdmittedAgent\<close> is a process with
  the local variables of the record \<open>admission\<close>; its calls are the steps of \<open>admission_run\<close>,
  which interleaves any number of processes, crashes included. Docker is the set of containers that
  exist; a created container has a fresh id, and removal ends with the container absent or throws.
\<close>

subsection \<open>The entitlement\<close>

record AdmissionConfig =
  ac_instance :: string
  ac_limit :: int
  ac_generation :: int

record admission_variables =
  PROPR_FLEET_CONTROL_SECRET :: "string option"
  PROPR_AGENT_RUN_LIMIT :: "string option"
  WORKER_CONCURRENCY :: "string option"
  PROPR_INSTANCE_ID :: "string option"
  PROPR_AGENT_RUN_GENERATION :: "string option"

definition truthy_string :: "string option \<Rightarrow> bool" where
  "truthy_string v = (case v of None \<Rightarrow> False | Some s \<Rightarrow> s \<noteq> '''')"

text \<open>\<open>Number.isSafeInteger\<close>.\<close>

fun safe_integer :: "jsnum \<Rightarrow> int option" where
  "safe_integer (Fin r) = (if r = of_int (floor r) \<and> \<bar>r\<bar> \<le> 9007199254740991 then Some (floor r) else None)"
| "safe_integer _ = None"

definition entitlement :: "bool \<Rightarrow> string option \<Rightarrow> int result" where
  "entitlement hosted raw =
     (case (case raw of
              None \<Rightarrow> None
            | Some s \<Rightarrow> (if js_trim s = '''' then None else safe_integer (js_number s))) of
        None \<Rightarrow> Throw ''Invalid physical agent-run entitlement; Hosted requires WORKER_CONCURRENCY=2, 6 or 12''
      | Some limit \<Rightarrow>
          (if limit < 1 \<or> hosted \<and> limit \<notin> {2, 6, 12}
           then Throw ''Invalid physical agent-run entitlement; Hosted requires WORKER_CONCURRENCY=2, 6 or 12''
           else Return limit))"

definition generation_of :: "string option \<Rightarrow> int result" where
  "generation_of raw =
     (case raw of
        None \<Rightarrow> Return 0
      | Some s \<Rightarrow>
          (case safe_integer (js_number s) of
             Some g \<Rightarrow> (if g < 0 \<or> js_trim s = '''' then Throw ''Invalid PROPR_AGENT_RUN_GENERATION; expected a nonnegative safe integer''
                       else Return g)
           | None \<Rightarrow> Throw ''Invalid PROPR_AGENT_RUN_GENERATION; expected a nonnegative safe integer''))"

definition resolveAgentRunAdmission :: "admission_variables \<Rightarrow> AdmissionConfig option result" where
  "resolveAgentRunAdmission env =
     (let hosted = truthy_string (PROPR_FLEET_CONTROL_SECRET env)
      in if \<not> hosted \<and> PROPR_AGENT_RUN_LIMIT env = None then Return None
         else and_then (entitlement hosted (if hosted then WORKER_CONCURRENCY env else PROPR_AGENT_RUN_LIMIT env)) (\<lambda>limit.
              let inst = map_option js_trim (PROPR_INSTANCE_ID env)
              in if \<not> truthy_string inst then Throw ''Agent-run admission requires PROPR_INSTANCE_ID''
                 else and_then (generation_of (PROPR_AGENT_RUN_GENERATION env)) (\<lambda>generation.
                      Return (Some \<lparr>ac_instance = the inst, ac_limit = limit, ac_generation = generation\<rparr>))))"

subsection \<open>The script\<close>

text \<open>The identity string is JSON of these fields; a generation of zero is left out of it.\<close>

record identity =
  id_limit :: int
  id_daemon :: string
  id_generation :: int

datatype holder_state = Reserved | Running | Recovering

record holder =
  h_deadline :: int
  h_state :: holder_state
  h_id :: "string option"

record admission_store =
  holders :: "(string \<times> holder) list"
  config :: "identity option"

definition script_acquire :: "int \<Rightarrow> string \<Rightarrow> int \<Rightarrow> identity \<Rightarrow> int \<Rightarrow> admission_store \<Rightarrow> int result \<times> admission_store" where
  "script_acquire now token lease ident limit s =
     (case config s of
        None \<Rightarrow> (Return (- 1), s)
      | Some c \<Rightarrow>
          (if c \<noteq> ident then (Throw ''Agent admission configuration/daemon mismatch; drain before reconfiguration'', s)
           else if list_ex (\<lambda>(t, h). h_state h = Recovering) (holders s) then (Return 0, s)
           else if int (length (holders s)) \<ge> limit then (Return 0, s)
           else (Return 1, s\<lparr>holders := AList.update token \<lparr>h_deadline = now + lease, h_state = Reserved, h_id = None\<rparr> (holders s)\<rparr>)))"

definition script_initialize :: "identity \<Rightarrow> admission_store \<Rightarrow> admission_store" where
  "script_initialize ident s = (case config s of None \<Rightarrow> s\<lparr>config := Some ident\<rparr> | Some _ \<Rightarrow> s)"

definition fence_all :: "admission_store \<Rightarrow> admission_store" where
  "fence_all s = s\<lparr>holders := map (\<lambda>(t, h). (t, h\<lparr>h_state := Recovering\<rparr>)) (holders s)\<rparr>"

definition due :: "int \<Rightarrow> holder \<Rightarrow> bool" where
  "due now h = (h_deadline h \<le> now \<or> h_state h = Recovering)"

definition script_expired ::
  "int \<Rightarrow> identity \<Rightarrow> admission_store \<Rightarrow> (string \<times> string option) list result \<times> admission_store" where
  "script_expired now ident s =
     (let changed = (case config s of None \<Rightarrow> False | Some c \<Rightarrow> c \<noteq> ident);
          refused = (case config s of None \<Rightarrow> False | Some c \<Rightarrow> id_daemon c \<noteq> id_daemon ident \<or> id_generation ident \<le> id_generation c);
          s1 = (if changed then (fence_all s)\<lparr>config := Some ident\<rparr> else s)
      in if changed \<and> refused
         then (Throw ''Agent admission configuration/daemon mismatch; stale generation or unsupported daemon change'', s)
         else if config s = None \<and> holders s \<noteq> []
         then (Throw ''Agent admission configuration missing; drain before recovery'', s)
         else (Return (map (\<lambda>(t, h). (t, h_id h)) (filter (\<lambda>(t, h). due now h) (holders s1))),
               s1\<lparr>holders := map (\<lambda>(t, h). (t, if due now h then h\<lparr>h_state := Recovering\<rparr> else h)) (holders s1)\<rparr>))"

definition script_release :: "string \<Rightarrow> admission_store \<Rightarrow> bool \<times> admission_store" where
  "script_release token s =
     (case map_of (holders s) token of
        None \<Rightarrow> (False, s)
      | Some h \<Rightarrow> (if h_state h \<noteq> Recovering then (False, s) else (True, s\<lparr>holders := AList.delete token (holders s)\<rparr>)))"

definition script_fence :: "int \<Rightarrow> int \<Rightarrow> string \<Rightarrow> admission_store \<Rightarrow> bool \<times> admission_store" where
  "script_fence now lease token s =
     (case map_of (holders s) token of
        None \<Rightarrow> (False, s)
      | Some h \<Rightarrow> (True, s\<lparr>holders := AList.update token (h\<lparr>h_state := Recovering, h_deadline := now + lease\<rparr>) (holders s)\<rparr>))"

definition script_attach :: "int \<Rightarrow> int \<Rightarrow> string \<Rightarrow> string \<Rightarrow> admission_store \<Rightarrow> bool \<times> admission_store" where
  "script_attach now lease token cid s =
     (case map_of (holders s) token of
        None \<Rightarrow> (False, s)
      | Some h \<Rightarrow>
          (if h_state h = Recovering \<or> h_deadline h \<le> now \<or> h_id h \<noteq> None then (False, s)
           else (True, s\<lparr>holders := AList.update token
                     (h\<lparr>h_id := Some cid, h_state := Running, h_deadline := now + lease\<rparr>) (holders s)\<rparr>)))"

definition script_renew :: "int \<Rightarrow> int \<Rightarrow> string \<Rightarrow> admission_store \<Rightarrow> bool \<times> admission_store" where
  "script_renew now lease token s =
     (case map_of (holders s) token of
        None \<Rightarrow> (False, s)
      | Some h \<Rightarrow>
          (if h_state h = Recovering \<or> h_deadline h \<le> now then (False, s)
           else (True, s\<lparr>holders := AList.update token (h\<lparr>h_deadline := now + lease\<rparr>) (holders s)\<rparr>)))"

definition agentAdmissionMetrics :: "int \<Rightarrow> (string \<times> int) list \<Rightarrow> admission_store \<Rightarrow> nat \<times> nat \<times> nat \<times> nat" where
  "agentAdmissionMetrics now waiting s =
     (let count = (\<lambda>st. length (filter (\<lambda>(t, h). h_state h = st) (holders s)))
      in (length (filter (\<lambda>(t, e). \<not> e \<le> now) waiting), count Reserved, count Running, count Recovering))"

subsection \<open>Processes\<close>

text \<open>
  The local variables of \<open>prepareAdmittedAgent\<close>. \<open>a_work\<close> is what is left of the reply of \<open>expired\<close>: a token and the
  container that is still to be removed before the token is released. \<open>a_fenced\<close> and \<open>a_removed\<close> are the
  steps of \<open>finish\<close> that succeeded.
\<close>

record admission =
  a_ident :: identity
  a_acquired :: bool
  a_container :: "string option"
  a_attached :: bool
  a_work :: "(string \<times> string option) list"
  a_closed :: bool
  a_fenced :: bool
  a_removed :: bool

record admission_system =
  ad_time :: int
  ad_store :: admission_store
  ad_containers :: "string set"
  ad_procs :: "string \<rightharpoonup> admission"

definition new_admission :: "identity \<Rightarrow> admission" where
  "new_admission ident = \<lparr>a_ident = ident, a_acquired = False, a_container = None, a_attached = False, a_work = [],
     a_closed = False, a_fenced = False, a_removed = False\<rparr>"

definition put_proc :: "string \<Rightarrow> admission \<Rightarrow> admission_system \<Rightarrow> admission_system" where
  "put_proc token p y = y\<lparr>ad_procs := (ad_procs y)(token \<mapsto> p)\<rparr>"

definition leaseMs :: int where "leaseMs = 30000"

definition recover_expired :: "string \<Rightarrow> admission \<Rightarrow> admission_system \<Rightarrow> unit result \<times> admission_system" where
  "recover_expired token p y =
     (case script_expired (ad_time y) (a_ident p) (ad_store y) of
        (Inl err, s) \<Rightarrow> (Throw err, y\<lparr>ad_store := s\<rparr>)
      | (Inr expired, s) \<Rightarrow> (Return (), put_proc token (p\<lparr>a_work := expired\<rparr>) (y\<lparr>ad_store := s\<rparr>)))"

definition recover_remove :: "string \<Rightarrow> admission \<Rightarrow> admission_system \<Rightarrow> admission_system" where
  "recover_remove token p y =
     (case a_work p of
        (t, Some i) # rest \<Rightarrow> put_proc token (p\<lparr>a_work := (t, None) # rest\<rparr>) (y\<lparr>ad_containers := ad_containers y - {i}\<rparr>)
      | _ \<Rightarrow> y)"

definition recover_release :: "string \<Rightarrow> admission \<Rightarrow> admission_system \<Rightarrow> admission_system" where
  "recover_release token p y =
     (case a_work p of
        (t, None) # rest \<Rightarrow> put_proc token (p\<lparr>a_work := rest\<rparr>) (y\<lparr>ad_store := snd (script_release t (ad_store y))\<rparr>)
      | _ \<Rightarrow> y)"

text \<open>The reply of \<open>acquire\<close>: admitted, not configured (the caller initializes), or full.\<close>

definition acquire_slot :: "string \<Rightarrow> admission \<Rightarrow> admission_system \<Rightarrow> int result \<times> admission_system" where
  "acquire_slot token p y =
     (case script_acquire (ad_time y) token leaseMs (a_ident p) (id_limit (a_ident p)) (ad_store y) of
        (r, s) \<Rightarrow> (r, put_proc token (if r = Return 1 then p\<lparr>a_acquired := True\<rparr> else p) (y\<lparr>ad_store := s\<rparr>)))"

definition initialize_config :: "admission \<Rightarrow> admission_system \<Rightarrow> admission_system" where
  "initialize_config p y = y\<lparr>ad_store := script_initialize (a_ident p) (ad_store y)\<rparr>"

definition create_container :: "string \<Rightarrow> string \<Rightarrow> admission \<Rightarrow> admission_system \<Rightarrow> admission_system" where
  "create_container token i p y = put_proc token (p\<lparr>a_container := Some i\<rparr>) (y\<lparr>ad_containers := insert i (ad_containers y)\<rparr>)"

definition attach_container :: "string \<Rightarrow> string \<Rightarrow> admission \<Rightarrow> admission_system \<Rightarrow> unit result \<times> admission_system" where
  "attach_container token i p y =
     (case script_attach (ad_time y) leaseMs token i (ad_store y) of
        (ok, s) \<Rightarrow> (if ok then Return () else Throw ''Agent admission lost before container start'',
                    put_proc token (if ok then p\<lparr>a_attached := True\<rparr> else p) (y\<lparr>ad_store := s\<rparr>)))"

definition renew_lease :: "string \<Rightarrow> admission_system \<Rightarrow> unit result \<times> admission_system" where
  "renew_lease token y =
     (case script_renew (ad_time y) leaseMs token (ad_store y) of
        (ok, s) \<Rightarrow> (if ok then Return () else Throw ''Agent admission ownership lost'', y\<lparr>ad_store := s\<rparr>))"

definition remove_container :: "string \<Rightarrow> admission_system \<Rightarrow> admission_system" where
  "remove_container i y = y\<lparr>ad_containers := ad_containers y - {i}\<rparr>"

text \<open>\<open>finish\<close>: fence, remove, release. \<open>reaches\<close> is whether Redis answered the fence.\<close>

definition finish_fence :: "string \<Rightarrow> bool \<Rightarrow> admission \<Rightarrow> admission_system \<Rightarrow> admission_system" where
  "finish_fence token reaches p y =
     (if a_closed p then y
      else put_proc token (p\<lparr>a_closed := True, a_fenced := reaches\<rparr>)
             (if a_acquired p \<and> reaches then y\<lparr>ad_store := snd (script_fence (ad_time y) leaseMs token (ad_store y))\<rparr> else y))"

definition finish_remove :: "string \<Rightarrow> admission \<Rightarrow> admission_system \<Rightarrow> admission_system" where
  "finish_remove token p y =
     put_proc token (p\<lparr>a_removed := True\<rparr>) (case a_container p of None \<Rightarrow> y | Some i \<Rightarrow> remove_container i y)"

definition finish_release :: "string \<Rightarrow> admission \<Rightarrow> admission_system \<Rightarrow> admission_system" where
  "finish_release token p y =
     (if a_acquired p then y\<lparr>ad_store := snd (script_release token (ad_store y))\<rparr> else y)"

text \<open>
  Any number of processes in any order; \<open>bound\<close> is the largest entitlement any of them is
  configured with. A removed container may be started no more, so a process that stalls after
  \<open>attach\<close> does no harm. The renewal that fails removes the container (\<open>stop\<close>).
\<close>

inductive admission_run :: "int \<Rightarrow> admission_system \<Rightarrow> bool" for bound where
  start: "0 \<le> bound \<Longrightarrow> admission_run bound \<lparr>ad_time = t, ad_store = \<lparr>holders = [], config = None\<rparr>, ad_containers = {}, ad_procs = Map.empty\<rparr>"
| pass: "admission_run bound y \<Longrightarrow> ad_time y \<le> t \<Longrightarrow> admission_run bound (y\<lparr>ad_time := t\<rparr>)"
| launch: "admission_run bound y \<Longrightarrow> ad_procs y token = None \<Longrightarrow> id_limit ident \<le> bound \<Longrightarrow> 0 \<le> id_limit ident \<Longrightarrow>
    admission_run bound (put_proc token (new_admission ident) y)"
| expired: "admission_run bound y \<Longrightarrow> ad_procs y token = Some p \<Longrightarrow> \<not> a_closed p \<Longrightarrow> \<not> a_acquired p \<Longrightarrow> a_work p = [] \<Longrightarrow>
    admission_run bound (snd (recover_expired token p y))"
| remove: "admission_run bound y \<Longrightarrow> ad_procs y token = Some p \<Longrightarrow> admission_run bound (recover_remove token p y)"
| release: "admission_run bound y \<Longrightarrow> ad_procs y token = Some p \<Longrightarrow> admission_run bound (recover_release token p y)"
| initialize: "admission_run bound y \<Longrightarrow> ad_procs y token = Some p \<Longrightarrow> \<not> a_closed p \<Longrightarrow> \<not> a_acquired p \<Longrightarrow>
    admission_run bound (initialize_config p y)"
| acquire: "admission_run bound y \<Longrightarrow> ad_procs y token = Some p \<Longrightarrow> \<not> a_closed p \<Longrightarrow> \<not> a_acquired p \<Longrightarrow> a_work p = [] \<Longrightarrow>
    admission_run bound (snd (acquire_slot token p y))"
| create: "admission_run bound y \<Longrightarrow> ad_procs y token = Some p \<Longrightarrow> \<not> a_closed p \<Longrightarrow> a_acquired p \<Longrightarrow> a_container p = None \<Longrightarrow>
    i \<notin> ad_containers y \<Longrightarrow> (\<And>u q. ad_procs y u = Some q \<Longrightarrow> a_container q \<noteq> Some i) \<Longrightarrow>
    admission_run bound (create_container token i p y)"
| attach: "admission_run bound y \<Longrightarrow> ad_procs y token = Some p \<Longrightarrow> \<not> a_closed p \<Longrightarrow> a_container p = Some i \<Longrightarrow> \<not> a_attached p \<Longrightarrow>
    admission_run bound (snd (attach_container token i p y))"
| renew: "admission_run bound y \<Longrightarrow> ad_procs y token = Some p \<Longrightarrow> a_acquired p \<Longrightarrow> admission_run bound (snd (renew_lease token y))"
| stop: "admission_run bound y \<Longrightarrow> ad_procs y token = Some p \<Longrightarrow> a_container p = Some i \<Longrightarrow> admission_run bound (remove_container i y)"
| fence: "admission_run bound y \<Longrightarrow> ad_procs y token = Some p \<Longrightarrow> admission_run bound (finish_fence token reaches p y)"
| finish_remove: "admission_run bound y \<Longrightarrow> ad_procs y token = Some p \<Longrightarrow> a_closed p \<Longrightarrow> admission_run bound (finish_remove token p y)"
| finish_release: "admission_run bound y \<Longrightarrow> ad_procs y token = Some p \<Longrightarrow> a_closed p \<Longrightarrow> a_fenced p \<Longrightarrow> a_removed p \<Longrightarrow>
    admission_run bound (finish_release token p y)"

subsection \<open>The invariant\<close>

text \<open>
  The reservations are read as a map \<open>H\<close>. A reservation belongs to a process that acquired it and names that
  process's container; a process's container that was attached and still exists is named by its reservation;
  the steps of \<open>finish\<close> have their effect; no two processes have the same container; and what is left to
  recover is fenced, with its container gone or still listed.
\<close>

definition registered :: "(string \<rightharpoonup> admission) \<Rightarrow> (string \<rightharpoonup> holder) \<Rightarrow> bool" where
  "registered procs H \<longleftrightarrow>
     (\<forall>t h. H t = Some h \<longrightarrow> (\<exists>p. procs t = Some p \<and> a_acquired p \<and> (\<forall>i. h_id h = Some i \<longrightarrow> a_container p = Some i)))"

definition contained :: "(string \<rightharpoonup> admission) \<Rightarrow> string set \<Rightarrow> (string \<rightharpoonup> holder) \<Rightarrow> bool" where
  "contained procs cs H \<longleftrightarrow>
     (\<forall>t p i. procs t = Some p \<longrightarrow> a_attached p \<longrightarrow> a_container p = Some i \<longrightarrow> i \<in> cs \<longrightarrow> (\<exists>h. H t = Some h \<and> h_id h = Some i))"

definition finished_ok :: "(string \<rightharpoonup> admission) \<Rightarrow> string set \<Rightarrow> (string \<rightharpoonup> holder) \<Rightarrow> bool" where
  "finished_ok procs cs H \<longleftrightarrow>
     (\<forall>t p. procs t = Some p \<longrightarrow>
        (a_container p \<noteq> None \<longrightarrow> a_acquired p) \<and> (a_attached p \<longrightarrow> a_container p \<noteq> None)
        \<and> (a_removed p \<longrightarrow> a_closed p \<and> (\<forall>i. a_container p = Some i \<longrightarrow> i \<notin> cs))
        \<and> (a_closed p \<longrightarrow> a_fenced p \<longrightarrow> (\<forall>h. H t = Some h \<longrightarrow> h_state h = Recovering)))"

definition own_containers :: "(string \<rightharpoonup> admission) \<Rightarrow> bool" where
  "own_containers procs \<longleftrightarrow>
     (\<forall>t u p q i. procs t = Some p \<longrightarrow> procs u = Some q \<longrightarrow> a_container p = Some i \<longrightarrow> a_container q = Some i \<longrightarrow> t = u)"

definition recoverable :: "(string \<rightharpoonup> admission) \<Rightarrow> string set \<Rightarrow> (string \<rightharpoonup> holder) \<Rightarrow> string \<times> string option \<Rightarrow> bool" where
  "recoverable procs cs H w \<longleftrightarrow>
     (\<exists>p. procs (fst w) = Some p \<and> a_acquired p)
     \<and> (\<forall>h. H (fst w) = Some h \<longrightarrow> h_state h = Recovering \<and> (\<forall>i. h_id h = Some i \<longrightarrow> snd w = Some i \<or> snd w = None \<and> i \<notin> cs))"

definition work_ok :: "(string \<rightharpoonup> admission) \<Rightarrow> string set \<Rightarrow> (string \<rightharpoonup> holder) \<Rightarrow> bool" where
  "work_ok procs cs H \<longleftrightarrow> (\<forall>u q. procs u = Some q \<longrightarrow> (\<forall>w \<in> set (a_work q). recoverable procs cs H w))"

definition linked :: "(string \<rightharpoonup> admission) \<Rightarrow> string set \<Rightarrow> (string \<rightharpoonup> holder) \<Rightarrow> bool" where
  "linked procs cs H \<longleftrightarrow> registered procs H \<and> contained procs cs H \<and> finished_ok procs cs H \<and> own_containers procs \<and> work_ok procs cs H"

lemmas linked_defs = registered_def contained_def finished_ok_def own_containers_def work_ok_def recoverable_def

text \<open>Steps that change deadlines or fence reservations, and steps that remove containers.\<close>

definition evolves :: "(string \<rightharpoonup> holder) \<Rightarrow> (string \<rightharpoonup> holder) \<Rightarrow> bool" where
  "evolves H H' \<longleftrightarrow> (\<forall>t h'. H' t = Some h' \<longrightarrow> (\<exists>h. H t = Some h \<and> h_id h = h_id h' \<and> (h_state h = Recovering \<longrightarrow> h_state h' = Recovering)))
     \<and> (\<forall>t h. H t = Some h \<longrightarrow> (\<exists>h'. H' t = Some h' \<and> h_id h' = h_id h))"

lemma linked_evolves:
  assumes "linked procs cs H" "evolves H H'"
  shows "linked procs cs H'"
proof -
  have older: "\<exists>h. H t = Some h \<and> h_id h = h_id h' \<and> (h_state h = Recovering \<longrightarrow> h_state h' = Recovering)" if "H' t = Some h'" for t h'
    using assms(2) that unfolding evolves_def by blast
  have newer: "\<exists>h'. H' t = Some h' \<and> h_id h' = h_id h" if "H t = Some h" for t h
    using assms(2) that unfolding evolves_def by blast
  have "registered procs H'" using assms(1) older unfolding linked_def registered_def by metis
  moreover have "contained procs cs H'" using assms(1) newer unfolding linked_def contained_def by metis
  moreover have "finished_ok procs cs H'" using assms(1) older unfolding linked_def finished_ok_def by metis
  moreover have "work_ok procs cs H'" using assms(1) older unfolding linked_def work_ok_def recoverable_def by metis
  ultimately show ?thesis using assms(1) by (simp add: linked_def)
qed

lemma linked_remove:
  assumes "linked procs cs H"
  shows "linked procs (cs - {i}) H"
proof -
  have "contained procs (cs - {i}) H" using assms unfolding linked_def contained_def by blast
  moreover have "finished_ok procs (cs - {i}) H" using assms unfolding linked_def finished_ok_def by blast
  moreover have "work_ok procs (cs - {i}) H" using assms unfolding linked_def work_ok_def recoverable_def by blast
  ultimately show ?thesis using assms by (simp add: linked_def)
qed

lemma linked_release:
  assumes "linked procs cs H"
    and "\<And>p i. procs t = Some p \<Longrightarrow> a_attached p \<Longrightarrow> a_container p = Some i \<Longrightarrow> i \<in> cs \<Longrightarrow> False"
  shows "linked procs cs (H(t := None))"
proof -
  have "contained procs cs (H(t := None))"
    using assms unfolding linked_def contained_def by (auto; metis)
  then show ?thesis using assms(1) unfolding linked_def linked_defs by auto
qed

text \<open>One process changes.\<close>

lemma all_procs_upd:
  "(\<forall>u q. (m(t \<mapsto> p)) u = Some q \<longrightarrow> P u q) \<longleftrightarrow> P t p \<and> (\<forall>u q. u \<noteq> t \<longrightarrow> m u = Some q \<longrightarrow> P u q)"
  by auto

lemma linkedD:
  assumes "linked procs cs H"
  shows "registered procs H" "contained procs cs H" "finished_ok procs cs H" "own_containers procs" "work_ok procs cs H"
  using assms by (simp_all add: linked_def)

lemma work_ok_upd:
  assumes "work_ok procs cs H" "\<And>w. recoverable procs cs H w \<Longrightarrow> recoverable (procs(t \<mapsto> p')) cs' H' w"
    and "\<forall>w \<in> set (a_work p'). recoverable procs cs H w"
  shows "work_ok (procs(t \<mapsto> p')) cs' H'"
  using assms unfolding work_ok_def all_procs_upd by blast

lemma linked_upd:
  assumes "linked procs cs H" "procs t = Some p"
    and same: "a_container p' = a_container p" "a_acquired p' = a_acquired p" "a_attached p' = a_attached p"
    and fin: "a_removed p' \<Longrightarrow> a_closed p' \<and> (\<forall>i. a_container p = Some i \<longrightarrow> i \<notin> cs)"
      "a_closed p' \<Longrightarrow> a_fenced p' \<Longrightarrow> \<forall>h. H t = Some h \<longrightarrow> h_state h = Recovering"
    and work: "\<forall>w \<in> set (a_work p'). recoverable procs cs H w"
  shows "linked (procs(t \<mapsto> p')) cs H"
proof -
  note l = linkedD [OF assms(1)]
  have "registered (procs(t \<mapsto> p')) H" using l(1) assms(2) same unfolding registered_def by force
  moreover have "contained (procs(t \<mapsto> p')) cs H" using l(2) assms(2) same unfolding contained_def by (simp add: fun_upd_def)
  moreover have "finished_ok (procs(t \<mapsto> p')) cs H" using l(3) assms(2) same fin unfolding finished_ok_def by (simp add: fun_upd_def)
  moreover have "own_containers (procs(t \<mapsto> p'))" using l(4) assms(2) same unfolding own_containers_def by (simp add: fun_upd_def) blast
  moreover have "work_ok (procs(t \<mapsto> p')) cs H"
    by (rule work_ok_upd [OF l(5) _ work]) (use assms(2) same in \<open>auto simp: recoverable_def\<close>)
  ultimately show ?thesis by (simp add: linked_def)
qed

lemma linked_acquire:
  assumes "linked procs cs H" "procs t = Some p" "\<not> a_acquired p" "\<not> a_closed p" "h_id h = None"
  shows "linked (procs(t \<mapsto> p\<lparr>a_acquired := True\<rparr>)) cs (H(t \<mapsto> h))"
proof -
  note l = linkedD [OF assms(1)]
  let ?procs = "procs(t \<mapsto> p\<lparr>a_acquired := True\<rparr>)"
  have nc: "a_container p = None" using l(3) assms(2,3) unfolding finished_ok_def by blast
  have "registered ?procs (H(t \<mapsto> h))" using l(1) assms unfolding registered_def by auto
  moreover have "contained ?procs cs (H(t \<mapsto> h))" using l(2) nc unfolding contained_def by auto
  moreover have "finished_ok ?procs cs (H(t \<mapsto> h))"
    using l(3) assms unfolding finished_ok_def by auto
  moreover have "own_containers ?procs" using l(4) nc unfolding own_containers_def by simp
  moreover have "work_ok ?procs cs (H(t \<mapsto> h))"
    by (rule work_ok_upd [OF l(5)])
      (use l(5) assms(2,3) in \<open>auto simp: recoverable_def work_ok_def\<close>)
  ultimately show ?thesis by (simp add: linked_def)
qed

lemma linked_create:
  assumes "linked procs cs H" "procs t = Some p" "a_acquired p" "\<not> a_closed p" "a_container p = None"
    and fresh: "\<forall>u q. procs u = Some q \<longrightarrow> a_container q \<noteq> Some i"
  shows "linked (procs(t \<mapsto> p\<lparr>a_container := Some i\<rparr>)) (insert i cs) H"
proof -
  note l = linkedD [OF assms(1)]
  let ?procs = "procs(t \<mapsto> p\<lparr>a_container := Some i\<rparr>)"
  have na: "\<not> a_attached p" "\<not> a_removed p" using l(3) assms(2,4,5) unfolding finished_ok_def by blast+
  have nid: "\<forall>u h. H u = Some h \<longrightarrow> h_id h \<noteq> Some i" using l(1) fresh unfolding registered_def by blast
  have "registered ?procs H" using l(1) assms(2,3,5) unfolding registered_def by fastforce
  moreover have "contained ?procs (insert i cs) H" using l(2) na(1) fresh unfolding contained_def by auto
  moreover have "finished_ok ?procs (insert i cs) H"
    using l(3) assms(2-4) na fresh unfolding finished_ok_def all_procs_upd by auto
  moreover have "own_containers ?procs" using l(4) fresh unfolding own_containers_def by auto
  moreover have "work_ok ?procs (insert i cs) H"
    by (rule work_ok_upd [OF l(5)]) (use l(5) assms(2,3) nid in \<open>auto simp: recoverable_def work_ok_def\<close>)
  ultimately show ?thesis by (simp add: linked_def)
qed

lemma linked_attach:
  assumes "linked procs cs H" "procs t = Some p" "a_container p = Some i" "H t = Some h" "h_state h \<noteq> Recovering"
    and "h_id h' = Some i" "\<not> a_closed p"
  shows "linked (procs(t \<mapsto> p\<lparr>a_attached := True\<rparr>)) cs (H(t \<mapsto> h'))"
proof -
  note l = linkedD [OF assms(1)]
  let ?procs = "procs(t \<mapsto> p\<lparr>a_attached := True\<rparr>)"
  have a: "a_acquired p" using l(3) assms(2,3) unfolding finished_ok_def by blast
  have "registered ?procs (H(t \<mapsto> h'))" using l(1) a assms(2,3,6) unfolding registered_def by auto
  moreover have "contained ?procs cs (H(t \<mapsto> h'))" using l(2) assms(3,6) unfolding contained_def by auto
  moreover have "finished_ok ?procs cs (H(t \<mapsto> h'))" using l(3) assms(2,3,7) a unfolding finished_ok_def by auto
  moreover have "own_containers ?procs" using l(4) assms(2) unfolding own_containers_def by (simp add: fun_upd_def) blast
  moreover have "work_ok ?procs cs (H(t \<mapsto> h'))"
    by (rule work_ok_upd [OF l(5)])
      (use l(5) assms(2,4,5) a in \<open>auto simp: recoverable_def work_ok_def\<close>)
  ultimately show ?thesis by (simp add: linked_def)
qed

text \<open>The reservations that are not fenced.\<close>

definition active :: "(string \<times> holder) list \<Rightarrow> nat" where
  "active hs = length (filter (\<lambda>(t, h). h_state h \<noteq> Recovering) hs)"

definition admission_inv :: "int \<Rightarrow> admission_system \<Rightarrow> bool" where
  "admission_inv bound y \<longleftrightarrow>
     distinct (map fst (holders (ad_store y))) \<and> int (length (holders (ad_store y))) \<le> bound
     \<and> linked (ad_procs y) (ad_containers y) (map_of (holders (ad_store y)))
     \<and> (case config (ad_store y) of
          None \<Rightarrow> holders (ad_store y) = []
        | Some c \<Rightarrow> int (active (holders (ad_store y))) \<le> id_limit c)
     \<and> (\<forall>t p. ad_procs y t = Some p \<longrightarrow> 0 \<le> id_limit (a_ident p) \<and> id_limit (a_ident p) \<le> bound)"

lemma active_update:
  "map_of hs t = Some h \<Longrightarrow> (h_state h' \<noteq> Recovering \<longrightarrow> h_state h \<noteq> Recovering) \<Longrightarrow> active (AList.update t h' hs) \<le> active hs"
  by (induction hs) (auto simp: active_def split: if_splits)

lemma active_delete: "active (AList.delete t hs) \<le> active hs"
  by (induction hs) (auto simp: active_def)

lemma active_le: "active hs \<le> length hs"
  by (simp add: active_def)

lemma active_map:
  "(\<And>h. h_state (f h) \<noteq> Recovering \<Longrightarrow> h_state h \<noteq> Recovering) \<Longrightarrow> active (map (\<lambda>(t, h). (t, f h)) hs) \<le> active hs"
  by (induction hs) (auto simp: active_def)

lemma evolves_update:
  "H t = Some h \<Longrightarrow> h_id h' = h_id h \<Longrightarrow> (h_state h = Recovering \<Longrightarrow> h_state h' = Recovering) \<Longrightarrow> evolves H (H(t \<mapsto> h'))"
  by (auto simp: evolves_def)

lemma evolves_map:
  assumes "\<And>h. h_id (f h) = h_id h \<and> (h_state h = Recovering \<longrightarrow> h_state (f h) = Recovering)"
  shows "evolves H (map_option f \<circ> H)"
  using assms by (auto simp: evolves_def)

lemma expired_effect:
  assumes "script_expired now ident s = (Return work, s')"
  obtains f where "holders s' = map (\<lambda>(t, h). (t, f h)) (holders s)"
    "\<And>h. h_id (f h) = h_id h \<and> (h_state h = Recovering \<longrightarrow> h_state (f h) = Recovering)"
    "\<And>t x. (t, x) \<in> set work \<Longrightarrow> \<exists>h. (t, h) \<in> set (holders s) \<and> x = h_id h \<and> h_state (f h) = Recovering"
    "config s' = config s \<or> config s' = Some ident \<and> (\<forall>h. h_state (f h) = Recovering)"
proof -
  define g where "g = (\<lambda>h :: holder. if (case config s of None \<Rightarrow> False | Some c \<Rightarrow> c \<noteq> ident) then h\<lparr>h_state := Recovering\<rparr> else h)"
  define f where "f = (\<lambda>h. if due now (g h) then (g h)\<lparr>h_state := Recovering\<rparr> else g h)"
  have g: "h_id (g h) = h_id h" "h_state h = Recovering \<Longrightarrow> h_state (g h) = Recovering" for h by (simp_all add: g_def)
  show ?thesis
  proof (rule that [of f])
    show "holders s' = map (\<lambda>(t, h). (t, f h)) (holders s)"
      using assms by (auto simp: script_expired_def Let_def fence_all_def f_def g_def split: if_splits option.splits)
    show "h_id (f h) = h_id h \<and> (h_state h = Recovering \<longrightarrow> h_state (f h) = Recovering)" for h
      by (simp add: f_def g)
    have "work = map (\<lambda>(t, h). (t, h_id h)) (filter (\<lambda>(t, h). due now h) (map (\<lambda>(t, h). (t, g h)) (holders s)))"
      using assms by (auto simp: script_expired_def Let_def fence_all_def g_def split: if_splits option.splits)
    then show "\<exists>h. (t, h) \<in> set (holders s) \<and> x = h_id h \<and> h_state (f h) = Recovering" if "(t, x) \<in> set work" for t x
      using that by (auto simp: f_def g(1))
    show "config s' = config s \<or> config s' = Some ident \<and> (\<forall>h. h_state (f h) = Recovering)"
      using assms by (auto simp: script_expired_def Let_def f_def g_def split: if_splits option.splits)
  qed
qed

lemma inv_expired:
  assumes "admission_inv bound y" "ad_procs y token = Some p"
  shows "admission_inv bound (snd (recover_expired token p y))"
proof (cases "script_expired (ad_time y) (a_ident p) (ad_store y)")
  case (Pair r s')
  show ?thesis
  proof (cases r)
    case (Inl err)
    then have "s' = ad_store y" using Pair by (auto simp: script_expired_def Let_def split: if_splits)
    with Pair Inl assms(1) show ?thesis by (simp add: recover_expired_def)
  next
    case (Inr work)
    let ?s = "ad_store y" and ?H = "map_of (holders (ad_store y))"
    obtain f where f: "holders s' = map (\<lambda>(t, h). (t, f h)) (holders ?s)"
      "\<And>h. h_id (f h) = h_id h \<and> (h_state h = Recovering \<longrightarrow> h_state (f h) = Recovering)"
      "\<And>t x. (t, x) \<in> set work \<Longrightarrow> \<exists>h. (t, h) \<in> set (holders ?s) \<and> x = h_id h \<and> h_state (f h) = Recovering"
      "config s' = config ?s \<or> config s' = Some (a_ident p) \<and> (\<forall>h. h_state (f h) = Recovering)"
      by (rule expired_effect [OF Pair [unfolded Inr]]) blast
    have d: "distinct (map fst (holders ?s))" and l: "linked (ad_procs y) (ad_containers y) ?H"
      using assms(1) by (simp_all add: admission_inv_def)
    have H': "map_of (holders s') = map_option f \<circ> ?H" unfolding f(1) by (rule map_of_map)
    have l': "linked (ad_procs y) (ad_containers y) (map_of (holders s'))"
      unfolding H' by (rule linked_evolves [OF l evolves_map [OF f(2)]])
    have work: "\<forall>w \<in> set work. recoverable (ad_procs y) (ad_containers y) (map_of (holders s')) w"
    proof
      fix w assume "w \<in> set work"
      then obtain h where h: "(fst w, h) \<in> set (holders ?s)" "snd w = h_id h" "h_state (f h) = Recovering"
        using f(3) [of "fst w" "snd w"] by auto
      then have "?H (fst w) = Some h" using d by simp
      moreover have "\<exists>q. ad_procs y (fst w) = Some q \<and> a_acquired q"
        using linkedD(1) [OF l] calculation unfolding registered_def by blast
      ultimately show "recoverable (ad_procs y) (ad_containers y) (map_of (holders s')) w"
        using h(2,3) f(2) [of h] by (simp add: recoverable_def H')
    qed
    have "linked ((ad_procs y)(token \<mapsto> p\<lparr>a_work := work\<rparr>)) (ad_containers y) (map_of (holders s'))"
      by (rule linked_upd [OF l' assms(2)]) (use linkedD(3) [OF l'] assms(2) work in \<open>auto simp: finished_ok_def\<close>)
    moreover have "distinct (map fst (holders s'))" using d by (simp add: f(1) comp_def case_prod_unfold)
    moreover have "case config s' of None \<Rightarrow> holders s' = [] | Some c \<Rightarrow> int (active (holders s')) \<le> id_limit c"
      using f(4)
    proof
      assume "config s' = config ?s"
      moreover have "active (holders s') \<le> active (holders ?s)" unfolding f(1) by (rule active_map) (use f(2) in auto)
      ultimately show ?thesis using assms(1) by (auto simp: admission_inv_def f(1) split: option.splits)
    next
      assume c: "config s' = Some (a_ident p) \<and> (\<forall>h. h_state (f h) = Recovering)"
      then have "active (holders s') = 0" by (simp add: active_def f(1) case_prod_unfold)
      with c assms show ?thesis by (simp add: admission_inv_def)
    qed
    moreover have "length (holders s') = length (holders ?s)" by (simp add: f(1))
    ultimately show ?thesis using assms Pair Inr
      by (auto simp: admission_inv_def recover_expired_def put_proc_def split: option.splits)
  qed
qed

text \<open>Steps that keep the configuration and do not add reservations.\<close>

lemma inv_step:
  assumes "admission_inv bound y" "config s' = config (ad_store y)"
    and "distinct (map fst (holders s'))" "length (holders s') \<le> length (holders (ad_store y))"
    and "active (holders s') \<le> active (holders (ad_store y))"
    and "linked procs cs (map_of (holders s'))"
    and "\<forall>t p. procs t = Some p \<longrightarrow> (\<exists>u q. ad_procs y u = Some q \<and> a_ident p = a_ident q)"
  shows "admission_inv bound (y\<lparr>ad_store := s', ad_containers := cs, ad_procs := procs\<rparr>)"
  using assms by (auto simp: admission_inv_def split: option.splits) (metis)+

lemma release_effect:
  "map_of (holders (snd (script_release t s))) = (map_of (holders s))(t := None)
   \<or> snd (script_release t s) = s"
  "config (snd (script_release t s)) = config s"
  "distinct (map fst (holders s)) \<Longrightarrow> distinct (map fst (holders (snd (script_release t s))))"
  "length (holders (snd (script_release t s))) \<le> length (holders s)"
  "active (holders (snd (script_release t s))) \<le> active (holders s)"
  by (auto simp: script_release_def AList.delete_conv' distinct_delete active_delete AList.length_delete_le split: option.splits)

text \<open>A reservation of the store changes in place, or is released.\<close>

lemma inv_update:
  assumes "admission_inv bound y" "map_of (holders (ad_store y)) t = Some h"
    and "h_state h' \<noteq> Recovering \<longrightarrow> h_state h \<noteq> Recovering"
    and "linked procs cs ((map_of (holders (ad_store y)))(t \<mapsto> h'))"
    and "\<forall>u p. procs u = Some p \<longrightarrow> (\<exists>v q. ad_procs y v = Some q \<and> a_ident p = a_ident q)"
  shows "admission_inv bound (y\<lparr>ad_store := (ad_store y)\<lparr>holders := AList.update t h' (holders (ad_store y))\<rparr>, ad_containers := cs, ad_procs := procs\<rparr>)"
proof (rule inv_step [OF assms(1)])
  let ?hs = "holders (ad_store y)"
  have "t \<in> al_keys ?hs" using assms(2) map_of_eq_None_iff [of ?hs t] by simp
  then show "length (holders ((ad_store y)\<lparr>holders := AList.update t h' ?hs\<rparr>)) \<le> length ?hs"
    by (simp add: al_length_update)
  show "distinct (map fst (holders ((ad_store y)\<lparr>holders := AList.update t h' ?hs\<rparr>)))"
    using assms(1) by (simp add: admission_inv_def al_distinct_update)
  show "active (holders ((ad_store y)\<lparr>holders := AList.update t h' ?hs\<rparr>)) \<le> active ?hs"
    using active_update [OF assms(2,3)] by simp
qed (use assms(4,5) in \<open>simp_all add: AList.update_conv'\<close>)

lemma inv_linked: "admission_inv bound y \<Longrightarrow> linked (ad_procs y) (ad_containers y) (map_of (holders (ad_store y)))"
  by (simp add: admission_inv_def)

lemma inv_procs:
  assumes "admission_inv bound y" "linked procs cs (map_of (holders (ad_store y)))"
    and "\<forall>u p. procs u = Some p \<longrightarrow> (\<exists>v q. ad_procs y v = Some q \<and> a_ident p = a_ident q)"
  shows "admission_inv bound (y\<lparr>ad_containers := cs, ad_procs := procs\<rparr>)"
  using inv_step [OF assms(1), of "ad_store y" procs cs] assms by (simp add: admission_inv_def)

lemma inv_release:
  assumes "admission_inv bound y" "linked procs cs (map_of (holders (ad_store y)))"
    and "\<And>p i. procs t = Some p \<Longrightarrow> a_attached p \<Longrightarrow> a_container p = Some i \<Longrightarrow> i \<in> cs \<Longrightarrow> False"
    and "\<forall>u p. procs u = Some p \<longrightarrow> (\<exists>v q. ad_procs y v = Some q \<and> a_ident p = a_ident q)"
  shows "admission_inv bound (y\<lparr>ad_store := snd (script_release t (ad_store y)), ad_containers := cs, ad_procs := procs\<rparr>)"
proof (rule inv_step [OF assms(1)])
  show "linked procs cs (map_of (holders (snd (script_release t (ad_store y)))))"
    using release_effect(1) [of t "ad_store y"] assms(2) linked_release [OF assms(2), of t] assms(3) by fastforce
qed (use assms release_effect in \<open>simp_all add: admission_inv_def\<close>)

lemma same_idents: "ad_procs y t = Some p \<Longrightarrow> a_ident p' = a_ident p \<Longrightarrow>
    \<forall>u q'. ((ad_procs y)(t \<mapsto> p')) u = Some q' \<longrightarrow> (\<exists>v q. ad_procs y v = Some q \<and> a_ident q' = a_ident q)"
  by (auto split: if_splits)

lemma inv_recover_remove:
  assumes "admission_inv bound y" "ad_procs y token = Some p"
  shows "admission_inv bound (recover_remove token p y)"
proof (cases "\<exists>t i rest. a_work p = (t, Some i) # rest")
  case True
  then obtain t i rest where w: "a_work p = (t, Some i) # rest" by blast
  note l = linked_remove [OF inv_linked [OF assms(1)], of i]
  let ?p = "p\<lparr>a_work := (t, None) # rest\<rparr>"
  have r: "\<forall>x \<in> set (a_work p). recoverable (ad_procs y) (ad_containers y - {i}) (map_of (holders (ad_store y))) x"
    using linkedD(5) [OF l] assms(2) by (simp add: work_ok_def)
  then have "\<forall>x \<in> set (a_work ?p). recoverable (ad_procs y) (ad_containers y - {i}) (map_of (holders (ad_store y))) x"
    using w by (auto simp: recoverable_def)
  then have "linked ((ad_procs y)(token \<mapsto> ?p)) (ad_containers y - {i}) (map_of (holders (ad_store y)))"
    by (intro linked_upd [OF l assms(2)]) (use linkedD(3) [OF l] assms(2) in \<open>auto simp: finished_ok_def\<close>)
  from inv_procs [OF assms(1) this same_idents [OF assms(2)]] w show ?thesis by (simp add: recover_remove_def put_proc_def fun_upd_def)
qed (use assms in \<open>auto simp: recover_remove_def split: list.splits prod.splits option.splits\<close>)

lemma inv_recover_release:
  assumes "admission_inv bound y" "ad_procs y token = Some p"
  shows "admission_inv bound (recover_release token p y)"
proof (cases "\<exists>t rest. a_work p = (t, None) # rest")
  case True
  then obtain t rest where w: "a_work p = (t, None) # rest" by blast
  note l = inv_linked [OF assms(1)]
  let ?p = "p\<lparr>a_work := rest\<rparr>" and ?H = "map_of (holders (ad_store y))"
  have r: "recoverable (ad_procs y) (ad_containers y) ?H (t, None)" "\<forall>x \<in> set rest. recoverable (ad_procs y) (ad_containers y) ?H x"
    using linkedD(5) [OF l] assms(2) w by (auto simp: work_ok_def)
  have l': "linked ((ad_procs y)(token \<mapsto> ?p)) (ad_containers y) ?H"
    by (rule linked_upd [OF l assms(2)]) (use linkedD(3) [OF l] assms(2) r(2) in \<open>auto simp: finished_ok_def\<close>)
  have "admission_inv bound (y\<lparr>ad_store := snd (script_release t (ad_store y)), ad_containers := ad_containers y, ad_procs := (ad_procs y)(token \<mapsto> ?p)\<rparr>)"
  proof (rule inv_release [OF assms(1) l' _ same_idents [OF assms(2)]])
    fix q i assume q: "((ad_procs y)(token \<mapsto> ?p)) t = Some q" "a_attached q" "a_container q = Some i" "i \<in> ad_containers y"
    then obtain h where "?H t = Some h" "h_id h = Some i" using linkedD(2) [OF l'] unfolding contained_def by blast
    with r(1) q(4) show False by (simp add: recoverable_def)
  qed simp
  with w show ?thesis by (simp add: recover_release_def put_proc_def)
qed (use assms in \<open>auto simp: recover_release_def split: list.splits prod.splits option.splits\<close>)

lemma inv_acquire:
  assumes "admission_inv bound y" "ad_procs y token = Some p" "\<not> a_closed p" "\<not> a_acquired p"
  shows "admission_inv bound (snd (acquire_slot token p y))"
proof -
  let ?s = "ad_store y" and ?hs = "holders (ad_store y)"
  let ?h = "\<lparr>h_deadline = ad_time y + leaseMs, h_state = Reserved, h_id = None\<rparr>"
  obtain r s' where e: "script_acquire (ad_time y) token leaseMs (a_ident p) (id_limit (a_ident p)) ?s = (r, s')" by fastforce
  show ?thesis
  proof (cases "r = Return 1")
    case True
    then have c: "config ?s = Some (a_ident p)" "int (length ?hs) < id_limit (a_ident p)"
      and s': "s' = ?s\<lparr>holders := AList.update token ?h ?hs\<rparr>"
      using e by (auto simp: script_acquire_def split: option.splits if_splits)
    have "linked ((ad_procs y)(token \<mapsto> p\<lparr>a_acquired := True\<rparr>)) (ad_containers y) (map_of (AList.update token ?h ?hs))"
      using linked_acquire [OF inv_linked [OF assms(1)] assms(2,4,3), of ?h] by (simp add: AList.update_conv')
    moreover have "int (length (AList.update token ?h ?hs)) \<le> id_limit (a_ident p)"
      using c(2) by (simp add: al_length_update)
    moreover have "int (active (AList.update token ?h ?hs)) \<le> id_limit (a_ident p)"
      using calculation(2) active_le [of "AList.update token ?h ?hs"] by linarith
    moreover have "int (length (AList.update token ?h ?hs)) \<le> bound"
    proof -
      have "id_limit (a_ident p) \<le> bound" using assms(1,2) by (simp add: admission_inv_def)
      with calculation(2) show ?thesis by linarith
    qed
    ultimately show ?thesis using e True assms(1,2)
      by (auto simp: acquire_slot_def put_proc_def admission_inv_def s' c(1) al_distinct_update split: if_splits)
  next
    case False
    then have "s' = ?s" using e by (auto simp: script_acquire_def split: option.splits if_splits)
    moreover have "y\<lparr>ad_procs := (ad_procs y)(token \<mapsto> p)\<rparr> = y" using assms(2) by (simp add: fun_upd_idem)
    ultimately show ?thesis using e False assms(1) by (simp add: acquire_slot_def put_proc_def)
  qed
qed

lemma inv_attach:
  assumes "admission_inv bound y" "ad_procs y token = Some p" "\<not> a_closed p" "a_container p = Some i"
  shows "admission_inv bound (snd (attach_container token i p y))"
proof (cases "fst (script_attach (ad_time y) leaseMs token i (ad_store y))")
  case True
  then obtain h where h: "map_of (holders (ad_store y)) token = Some h" "h_state h \<noteq> Recovering"
    and s: "script_attach (ad_time y) leaseMs token i (ad_store y) = (True, (ad_store y)\<lparr>holders := AList.update token
       (h\<lparr>h_id := Some i, h_state := Running, h_deadline := ad_time y + leaseMs\<rparr>) (holders (ad_store y))\<rparr>)"
    by (auto simp: script_attach_def split: option.splits if_splits)
  let ?h = "h\<lparr>h_id := Some i, h_state := Running, h_deadline := ad_time y + leaseMs\<rparr>"
  have "linked ((ad_procs y)(token \<mapsto> p\<lparr>a_attached := True\<rparr>)) (ad_containers y) ((map_of (holders (ad_store y)))(token \<mapsto> ?h))"
    by (rule linked_attach [OF inv_linked [OF assms(1)] assms(2,4) h _ assms(3)]) simp
  from inv_update [OF assms(1) h(1) _ this same_idents [OF assms(2)]] h(2) show ?thesis
    by (simp add: attach_container_def s put_proc_def fun_upd_def)
next
  case False
  then have "script_attach (ad_time y) leaseMs token i (ad_store y) = (False, ad_store y)"
    by (auto simp: script_attach_def split: option.splits if_splits)
  moreover have "y\<lparr>ad_procs := (ad_procs y)(token \<mapsto> p)\<rparr> = y" using assms(2) by (simp add: fun_upd_idem)
  ultimately show ?thesis using assms(1) by (simp add: attach_container_def put_proc_def)
qed

lemma inv_renew:
  assumes "admission_inv bound y"
  shows "admission_inv bound (snd (renew_lease token y))"
proof (cases "fst (script_renew (ad_time y) leaseMs token (ad_store y))")
  case True
  then obtain h where h: "map_of (holders (ad_store y)) token = Some h"
    and s: "script_renew (ad_time y) leaseMs token (ad_store y) = (True, (ad_store y)\<lparr>holders := AList.update token
       (h\<lparr>h_deadline := ad_time y + leaseMs\<rparr>) (holders (ad_store y))\<rparr>)"
    by (auto simp: script_renew_def split: option.splits if_splits)
  have "linked (ad_procs y) (ad_containers y) ((map_of (holders (ad_store y)))(token \<mapsto> h\<lparr>h_deadline := ad_time y + leaseMs\<rparr>))"
    by (rule linked_evolves [OF inv_linked [OF assms] evolves_update [where H = "map_of (holders (ad_store y))", OF h]]) simp_all
  from inv_update [OF assms h _ this] show ?thesis by (fastforce simp: renew_lease_def s)
next
  case False
  then have "script_renew (ad_time y) leaseMs token (ad_store y) = (False, ad_store y)"
    by (auto simp: script_renew_def split: option.splits if_splits)
  with assms show ?thesis by (simp add: renew_lease_def)
qed

lemma inv_fence:
  assumes "admission_inv bound y" "ad_procs y token = Some p"
  shows "admission_inv bound (finish_fence token reaches p y)"
proof (cases "a_closed p")
  case False
  note l = inv_linked [OF assms(1)]
  let ?p = "p\<lparr>a_closed := True, a_fenced := reaches\<rparr>" and ?H = "map_of (holders (ad_store y))"
  have upd: "linked ((ad_procs y)(token \<mapsto> ?p)) (ad_containers y) H'"
    if l': "linked (ad_procs y) (ad_containers y) H'" and r: "reaches \<Longrightarrow> \<forall>h. H' token = Some h \<longrightarrow> h_state h = Recovering" for H'
    by (rule linked_upd [OF l' assms(2)])
      (use linkedD(3,5) [OF l'] assms(2) False r in \<open>auto simp: finished_ok_def work_ok_def\<close>)
  show ?thesis
  proof (cases "a_acquired p \<and> reaches \<and> ?H token \<noteq> None")
    case True
    then obtain h where h: "?H token = Some h" by blast
    let ?h = "h\<lparr>h_state := Recovering, h_deadline := ad_time y + leaseMs\<rparr>"
    have "linked (ad_procs y) (ad_containers y) (?H(token \<mapsto> ?h))"
      by (rule linked_evolves [OF l evolves_update [where H = "map_of (holders (ad_store y))", OF h]]) simp_all
    from inv_update [OF assms(1) h _ upd [OF this] same_idents [OF assms(2)]] True h False show ?thesis
      by (simp add: finish_fence_def script_fence_def put_proc_def fun_upd_def)
  next
    case none: False
    have "reaches \<Longrightarrow> ?H token = None"
      using none linkedD(1) [OF l] assms(2) unfolding registered_def by (metis not_None_eq option.inject)
    with upd [OF l] have "linked ((ad_procs y)(token \<mapsto> ?p)) (ad_containers y) ?H" by simp
    from inv_procs [OF assms(1) this same_idents [OF assms(2)]]
    have "admission_inv bound (put_proc token ?p y)" by (simp add: put_proc_def fun_upd_def)
    moreover have "reaches \<Longrightarrow> y\<lparr>ad_store := snd (script_fence (ad_time y) leaseMs token (ad_store y))\<rparr> = y"
      using \<open>reaches \<Longrightarrow> ?H token = None\<close> by (simp add: script_fence_def)
    ultimately show ?thesis using False by (cases reaches) (simp_all add: finish_fence_def)
  qed
qed (use assms in \<open>simp add: finish_fence_def\<close>)

lemma linked_launch:
  assumes "linked procs cs H" "procs t = None"
  shows "linked (procs(t \<mapsto> new_admission ident)) cs H"
proof -
  note l = linkedD [OF assms(1)]
  have "H t = None"
  proof (cases "H t")
    case (Some h)
    from l(1) [unfolded registered_def, rule_format, OF Some] assms(2) show ?thesis by auto
  qed
  then have "registered (procs(t \<mapsto> new_admission ident)) H" using l(1) unfolding registered_def by auto
  moreover have "contained (procs(t \<mapsto> new_admission ident)) cs H" using l(2) unfolding contained_def by (auto simp: new_admission_def)
  moreover have "finished_ok (procs(t \<mapsto> new_admission ident)) cs H"
    using l(3) unfolding finished_ok_def by (auto simp: new_admission_def)
  moreover have "own_containers (procs(t \<mapsto> new_admission ident))" using l(4) unfolding own_containers_def by (auto simp: new_admission_def)
  moreover have "work_ok (procs(t \<mapsto> new_admission ident)) cs H"
    by (rule work_ok_upd [OF l(5)]) (use assms(2) in \<open>auto simp: recoverable_def new_admission_def\<close>)
  ultimately show ?thesis by (simp add: linked_def)
qed

lemma inv_launch:
  "admission_inv bound y \<Longrightarrow> ad_procs y token = None \<Longrightarrow> 0 \<le> id_limit ident \<Longrightarrow> id_limit ident \<le> bound \<Longrightarrow>
     admission_inv bound (put_proc token (new_admission ident) y)"
  using linked_launch [of "ad_procs y" "ad_containers y" _ token ident]
  by (auto simp: admission_inv_def put_proc_def new_admission_def split: option.splits)

lemma inv_initialize:
  "admission_inv bound y \<Longrightarrow> ad_procs y token = Some p \<Longrightarrow> admission_inv bound (initialize_config p y)"
  by (auto simp: admission_inv_def initialize_config_def script_initialize_def active_def split: option.splits)

lemma inv_create:
  assumes "admission_inv bound y" "ad_procs y token = Some p" "\<not> a_closed p" "a_acquired p" "a_container p = None"
    and "\<And>u q. ad_procs y u = Some q \<Longrightarrow> a_container q \<noteq> Some i"
  shows "admission_inv bound (create_container token i p y)"
proof -
  have "linked ((ad_procs y)(token \<mapsto> p\<lparr>a_container := Some i\<rparr>)) (insert i (ad_containers y)) (map_of (holders (ad_store y)))"
    by (rule linked_create [OF inv_linked [OF assms(1)] assms(2,4,3,5)]) (use assms(6) in blast)
  from inv_procs [OF assms(1) this same_idents [OF assms(2)]] show ?thesis
    by (simp add: create_container_def put_proc_def fun_upd_def)
qed

lemma inv_stop: "admission_inv bound y \<Longrightarrow> admission_inv bound (remove_container i y)"
  using linked_remove [of "ad_procs y" "ad_containers y" "map_of (holders (ad_store y))" i]
  by (simp add: admission_inv_def remove_container_def split: option.splits)

lemma inv_finish_remove:
  assumes "admission_inv bound y" "ad_procs y token = Some p" "a_closed p"
  shows "admission_inv bound (finish_remove token p y)"
proof -
  define y1 where "y1 = (case a_container p of None \<Rightarrow> y | Some i \<Rightarrow> remove_container i y)"
  have inv: "admission_inv bound y1" using assms(1) by (simp add: y1_def inv_stop split: option.split)
  have p: "ad_procs y1 token = Some p" and gone: "\<forall>i. a_container p = Some i \<longrightarrow> i \<notin> ad_containers y1"
    using assms by (auto simp: y1_def remove_container_def split: option.splits)
  note l = inv_linked [OF inv]
  have "linked ((ad_procs y1)(token \<mapsto> p\<lparr>a_removed := True\<rparr>)) (ad_containers y1) (map_of (holders (ad_store y1)))"
    by (rule linked_upd [OF l p]) (use linkedD(3,5) [OF l] p assms(3) gone in \<open>auto simp: finished_ok_def work_ok_def\<close>)
  from inv_procs [OF inv this same_idents [OF p]] show ?thesis
    by (simp add: finish_remove_def put_proc_def fun_upd_def flip: y1_def)
qed

lemma inv_finish_release:
  assumes "admission_inv bound y" "ad_procs y token = Some p" "a_removed p"
  shows "admission_inv bound (finish_release token p y)"
proof -
  note l = inv_linked [OF assms(1)]
  have "admission_inv bound (y\<lparr>ad_store := snd (script_release token (ad_store y)), ad_containers := ad_containers y, ad_procs := ad_procs y\<rparr>)"
  proof (rule inv_release [OF assms(1) l])
    show False if "ad_procs y token = Some q" "a_container q = Some i" "i \<in> ad_containers y" for q i
      using that assms(2,3) linkedD(3) [OF l] unfolding finished_ok_def by auto
  qed auto
  with assms(1) show ?thesis by (simp add: finish_release_def)
qed

lemma admission_run_inv: "admission_run bound y \<Longrightarrow> admission_inv bound y"
proof (induction rule: admission_run.induct)
  case (start t)
  then show ?case by (auto simp: admission_inv_def linked_def linked_defs)
next
  case (pass y t)
  then show ?case by (simp add: admission_inv_def split: option.splits)
next
  case (create y token p i)
  then show ?case by (intro inv_create) auto
qed (simp_all add: inv_launch inv_expired inv_recover_remove inv_recover_release inv_initialize inv_acquire inv_attach
    inv_renew inv_stop inv_fence inv_finish_remove inv_finish_release)

subsection \<open>Properties\<close>

text \<open>The agent containers that may execute: their process was told to start them and they still exist.\<close>

definition live_agents :: "admission_system \<Rightarrow> string set" where
  "live_agents y = {i. \<exists>t p. ad_procs y t = Some p \<and> a_attached p \<and> a_container p = Some i \<and> i \<in> ad_containers y}"

definition named_by :: "(string \<times> holder) list \<Rightarrow> string set" where
  "named_by hs = {i. \<exists>t h. (t, h) \<in> set hs \<and> h_id h = Some i}"

lemma card_named_by: "finite (named_by hs) \<and> card (named_by hs) \<le> length hs"
proof -
  have s: "named_by hs \<subseteq> (\<lambda>(t, h). the (h_id h)) ` set hs" by (force simp: named_by_def)
  then have "card (named_by hs) \<le> card ((\<lambda>(t, h). the (h_id h)) ` set hs)" by (intro card_mono) simp_all
  also have "\<dots> \<le> length hs" using card_image_le [of "set hs" "\<lambda>(t, h). the (h_id h)"] card_length [of hs] by simp
  finally show ?thesis using finite_subset [OF s] by simp
qed

text \<open>
  C2: However the processes of an instance interleave, crash and recover each other, and however its
  entitlement is reconfigured, every agent container that may execute is named by a reservation; there are never
  more of them than the largest entitlement configured, and those whose reservation is not being
  recovered never exceed the entitlement in force.
\<close>

theorem agents_within_entitlement:
  assumes "admission_run bound y"
  shows "live_agents y \<subseteq> named_by (holders (ad_store y))
      \<and> finite (live_agents y) \<and> int (card (live_agents y)) \<le> bound
      \<and> (\<forall>c. config (ad_store y) = Some c \<longrightarrow>
           int (card (live_agents y \<inter> named_by (filter (\<lambda>(t, h). h_state h \<noteq> Recovering) (holders (ad_store y))))) \<le> id_limit c)"
proof -
  let ?hs = "holders (ad_store y)"
  have inv: "admission_inv bound y" by (rule admission_run_inv [OF assms])
  note contained = linkedD(2) [OF inv_linked [OF inv], unfolded contained_def, rule_format]
  have sub: "live_agents y \<subseteq> named_by ?hs"
  proof
    fix i assume "i \<in> live_agents y"
    then obtain t p where "ad_procs y t = Some p" "a_attached p" "a_container p = Some i" "i \<in> ad_containers y"
      by (auto simp: live_agents_def)
    from contained [OF this] show "i \<in> named_by ?hs" by (auto simp: named_by_def dest: map_of_SomeD)
  qed
  have "card (live_agents y) \<le> length ?hs"
    using card_mono [OF _ sub] card_named_by [of ?hs] by linarith
  moreover have "int (card (live_agents y \<inter> named_by (filter (\<lambda>(t, h). h_state h \<noteq> Recovering) ?hs))) \<le> id_limit c"
    if "config (ad_store y) = Some c" for c
  proof -
    let ?fs = "filter (\<lambda>(t, h). h_state h \<noteq> Recovering) ?hs"
    have "card (live_agents y \<inter> named_by ?fs) \<le> card (named_by ?fs)" using card_named_by [of ?fs] by (intro card_mono) auto
    also have "\<dots> \<le> active ?hs" using card_named_by [of ?fs] by (simp add: active_def)
    finally show ?thesis using inv that by (simp add: admission_inv_def)
  qed
  ultimately show ?thesis
    using inv sub finite_subset [OF sub] card_named_by [of ?hs] by (force simp: admission_inv_def)
qed

definition sample_ident :: identity where
  "sample_ident = \<lparr>id_limit = 1, id_daemon = ''d'', id_generation = 0\<rparr>"

definition sample_admitted :: admission_system where
  "sample_admitted = snd (acquire_slot ''t'' (new_admission sample_ident) (initialize_config (new_admission sample_ident)
     (put_proc ''t'' (new_admission sample_ident)
        \<lparr>ad_time = 0, ad_store = \<lparr>holders = [], config = None\<rparr>, ad_containers = {}, ad_procs = Map.empty\<rparr>)))"

lemma sample_admitted_unfold:
  "ad_procs sample_admitted = [''t'' \<mapsto> (new_admission sample_ident)\<lparr>a_acquired := True\<rparr>]" "ad_containers sample_admitted = {}"
  "ad_store sample_admitted = \<lparr>holders = [(''t'', \<lparr>h_deadline = 30000, h_state = Reserved, h_id = None\<rparr>)], config = Some sample_ident\<rparr>"
  "ad_time sample_admitted = 0"
  by (simp_all add: sample_admitted_def acquire_slot_def initialize_config_def put_proc_def script_acquire_def script_initialize_def
      sample_ident_def leaseMs_def new_admission_def)

lemma sample_admitted_run: "admission_run 1 sample_admitted"
  unfolding sample_admitted_def
  by (intro admission_run.acquire admission_run.initialize [where token = "''t''"] admission_run.launch admission_run.start)
    (simp_all add: put_proc_def initialize_config_def new_admission_def sample_ident_def)

theorem agents_within_entitlement_witness:
  "\<exists>y. admission_run 1 y \<and> live_agents y = {''c''} \<and> card (live_agents y) \<le> 1 \<and> live_agents y \<subseteq> named_by (holders (ad_store y))"
proof -
  let ?p = "(new_admission sample_ident)\<lparr>a_acquired := True\<rparr>"
  let ?y1 = "create_container ''t'' ''c'' ?p sample_admitted"
  let ?y2 = "snd (attach_container ''t'' ''c'' (?p\<lparr>a_container := Some ''c''\<rparr>) ?y1)"
  have y1: "admission_run 1 ?y1"
    by (rule admission_run.create [OF sample_admitted_run]) (auto simp: sample_admitted_unfold new_admission_def split: if_splits)
  have y2: "admission_run 1 ?y2"
    by (rule admission_run.attach [OF y1]) (simp_all add: create_container_def put_proc_def new_admission_def)
  have "live_agents ?y2 = {''c''}"
    by (auto simp: live_agents_def attach_container_def create_container_def put_proc_def script_attach_def sample_admitted_unfold
        leaseMs_def new_admission_def)
  with y2 agents_within_entitlement [OF y2] show ?thesis by fastforce
qed

end
