(* ===== verification/Ultrafix_Epoch.thy ===== *)
theory Ultrafix_Epoch
  imports Prelude
begin

section \<open>The automatic-work epoch of Ultrafix\<close>

text \<open>
  \<^verbatim>\<open>src/jobs/ultrafixAutomaticWorkEpoch.ts\<close> fences the automatic work on a pull request: every
  write of a loop's state or of its deferred continuation names the epoch it belongs to, and a takeover raises the
  epoch, so that what was queued before can no longer act. The Redis keys of one pull request are the record
  \<open>uf_store\<close>; the epoch, the state, the deferred record, the retry obligation
  (\<^verbatim>\<open>src/jobs/ultrafixDeferredContinuationStore.ts\<close>) and the takeover markers by comment
  revision, each with the second at which it expires. The serialized state is an abstract text \<open>'t\<close>
  that the scripts compare but do not interpret, except for what \<open>decode\<close> reads of it, an argument that
  stands for \<open>JSON.parse\<close> and \<open>cjson.decode\<close>.
\<close>

record ('t, 'd, 'r) uf_store =
  uf_epoch :: "nat option"
  uf_state :: "'t option"
  uf_deferred :: "'d option"
  uf_retry :: "'r option"
  uf_takeover :: "string \<rightharpoonup> (nat \<times> bool) \<times> int"

text \<open>What a stored text decodes to: an object with its \<open>active === true\<close> and its numeric \<open>workEpoch\<close>, some other JSON
  value, or not JSON at all.\<close>

datatype decoded = Object bool "nat option" | Null_value | Scalar | Malformed

definition ULTRAFIX_DEFERRED_KEY_PREFIX :: string where "ULTRAFIX_DEFERRED_KEY_PREFIX = ''ultrafix:deferred''"
definition AUTOMATIC_WORK_EPOCH_KEY_PREFIX :: string where "AUTOMATIC_WORK_EPOCH_KEY_PREFIX = ''ultrafix:automatic-work-epoch''"
definition MANUAL_TAKEOVER_KEY_PREFIX :: string where "MANUAL_TAKEOVER_KEY_PREFIX = ''ultrafix:manual-takeover''"
definition MANUAL_TAKEOVER_TTL_SECONDS :: int where "MANUAL_TAKEOVER_TTL_SECONDS = 24 * 60 * 60"

record UltrafixManualTakeover =
  mt_workEpoch :: nat
  hadAutomaticWork :: bool

record UltrafixManualTakeoverIdentity =
  mt_owner :: string
  mt_repo :: string
  mt_pr :: nat
  sourceCommentId :: nat
  sourceCommentRevision :: string

definition getUltrafixDeferredKey :: "string \<Rightarrow> string \<Rightarrow> nat \<Rightarrow> string" where
  "getUltrafixDeferredKey owner repo pr = ULTRAFIX_DEFERRED_KEY_PREFIX @ '':'' @ owner @ '':'' @ repo @ '':'' @ show_nat pr"

definition getUltrafixAutomaticWorkEpochKey :: "string \<Rightarrow> string \<Rightarrow> nat \<Rightarrow> string" where
  "getUltrafixAutomaticWorkEpochKey owner repo pr =
     AUTOMATIC_WORK_EPOCH_KEY_PREFIX @ '':'' @ owner @ '':'' @ repo @ '':'' @ show_nat pr"

definition getUltrafixManualTakeoverKey :: "UltrafixManualTakeoverIdentity \<Rightarrow> string" where
  "getUltrafixManualTakeoverKey identity =
     MANUAL_TAKEOVER_KEY_PREFIX @ '':'' @ mt_owner identity @ '':'' @ mt_repo identity @ '':'' @ show_nat (mt_pr identity)
       @ '':'' @ show_nat (sourceCommentId identity) @ '':'' @ sourceCommentRevision identity"

subsection \<open>The scripts\<close>

definition current_epoch :: "('t, 'd, 'r) uf_store \<Rightarrow> nat" where
  "current_epoch s = (case uf_epoch s of None \<Rightarrow> 0 | Some e \<Rightarrow> e)"

definition SAVE_DEFERRED_IF_CURRENT_SCRIPT :: "nat \<Rightarrow> 'd \<Rightarrow> ('t, 'd, 'r) uf_store \<Rightarrow> nat \<times> ('t, 'd, 'r) uf_store" where
  "SAVE_DEFERRED_IF_CURRENT_SCRIPT e d s = (if current_epoch s \<noteq> e then (0, s) else (1, s\<lparr>uf_deferred := Some d\<rparr>))"

definition CLEAR_DEFERRED_IF_CURRENT_SCRIPT :: "nat \<Rightarrow> ('t, 'd, 'r) uf_store \<Rightarrow> nat \<times> ('t, 'd, 'r) uf_store" where
  "CLEAR_DEFERRED_IF_CURRENT_SCRIPT e s = (if current_epoch s \<noteq> e then (0, s) else (1, s\<lparr>uf_deferred := None\<rparr>))"

definition SAVE_STATE_IF_CURRENT_SCRIPT :: "nat \<Rightarrow> 't \<Rightarrow> ('t, 'd, 'r) uf_store \<Rightarrow> nat \<times> ('t, 'd, 'r) uf_store" where
  "SAVE_STATE_IF_CURRENT_SCRIPT e t s = (if current_epoch s \<noteq> e then (0, s) else (1, s\<lparr>uf_state := Some t\<rparr>))"

definition CLEAR_STATE_IF_CURRENT_SCRIPT :: "nat \<Rightarrow> ('t, 'd, 'r) uf_store \<Rightarrow> nat \<times> ('t, 'd, 'r) uf_store" where
  "CLEAR_STATE_IF_CURRENT_SCRIPT e s = (if current_epoch s \<noteq> e then (0, s) else (1, s\<lparr>uf_state := None\<rparr>))"

definition REPLACE_STATE_IF_UNCHANGED_SCRIPT :: "nat \<Rightarrow> 't \<Rightarrow> 't \<Rightarrow> ('t, 'd, 'r) uf_store \<Rightarrow> nat \<times> ('t, 'd, 'r) uf_store" where
  "REPLACE_STATE_IF_UNCHANGED_SCRIPT e expected t s =
     (if current_epoch s \<noteq> e then (0, s)
      else if uf_state s \<noteq> Some expected then (0, s)
      else (1, s\<lparr>uf_state := Some t\<rparr>))"

definition CLEAR_STATE_IF_UNCHANGED_SCRIPT :: "nat \<Rightarrow> 't \<Rightarrow> ('t, 'd, 'r) uf_store \<Rightarrow> nat \<times> ('t, 'd, 'r) uf_store" where
  "CLEAR_STATE_IF_UNCHANGED_SCRIPT e expected s =
     (if current_epoch s \<noteq> e then (0, s)
      else if uf_state s \<noteq> Some expected then (0, s)
      else (1, s\<lparr>uf_state := None\<rparr>))"

definition incr_epoch :: "('t, 'd, 'r) uf_store \<Rightarrow> ('t, 'd, 'r) uf_store" where
  "incr_epoch s = s\<lparr>uf_epoch := Some (current_epoch s + 1)\<rparr>"

definition RESERVE_EPOCH_AND_REPLACE_STATE_SCRIPT :: "nat \<Rightarrow> 't \<Rightarrow> 't \<Rightarrow> ('t, 'd, 'r) uf_store \<Rightarrow> nat \<times> ('t, 'd, 'r) uf_store" where
  "RESERVE_EPOCH_AND_REPLACE_STATE_SCRIPT e expected t s =
     (if current_epoch s \<noteq> e then (0, s)
      else if uf_state s \<noteq> Some expected then (0, s)
      else (current_epoch (incr_epoch s), (incr_epoch s)\<lparr>uf_deferred := None, uf_state := Some t\<rparr>))"

definition RESTORE_DEFERRED_IF_UNCHANGED_SCRIPT :: "nat \<Rightarrow> 't \<Rightarrow> 'd \<Rightarrow> ('t, 'd, 'r) uf_store \<Rightarrow> nat \<times> ('t, 'd, 'r) uf_store" where
  "RESTORE_DEFERRED_IF_UNCHANGED_SCRIPT e expected d s =
     (if current_epoch s \<noteq> e then (0, s)
      else if uf_state s \<noteq> Some expected then (0, s)
      else if uf_deferred s \<noteq> None then (0, s)
      else (1, s\<lparr>uf_deferred := Some d\<rparr>))"

definition INVALIDATE_AUTOMATIC_WORK_SCRIPT :: "('t, 'd, 'r) uf_store \<Rightarrow> nat \<times> ('t, 'd, 'r) uf_store" where
  "INVALIDATE_AUTOMATIC_WORK_SCRIPT s = (current_epoch (incr_epoch s), (incr_epoch s)\<lparr>uf_deferred := None\<rparr>)"

definition takeover_at :: "int \<Rightarrow> string \<Rightarrow> ('t, 'd, 'r) uf_store \<Rightarrow> (nat \<times> bool) option" where
  "takeover_at now key s = (case uf_takeover s key of None \<Rightarrow> None | Some (v, e) \<Rightarrow> (if now < e then Some v else None))"

definition had_automatic_work :: "('t \<Rightarrow> decoded) \<Rightarrow> ('t, 'd, 'r) uf_store \<Rightarrow> bool" where
  "had_automatic_work decode s =
     (if uf_deferred s \<noteq> None then True
      else case uf_state s of
             None \<Rightarrow> False
           | Some raw \<Rightarrow>
               (case decode raw of
                  Object active e \<Rightarrow> active \<and> (case e of None \<Rightarrow> 0 | Some n \<Rightarrow> n) = current_epoch s
                | _ \<Rightarrow> current_epoch s = 0))"

definition INVALIDATE_AUTOMATIC_WORK_ONCE_SCRIPT ::
  "('t \<Rightarrow> decoded) \<Rightarrow> int \<Rightarrow> string \<Rightarrow> int \<Rightarrow> ('t, 'd, 'r) uf_store \<Rightarrow> (nat \<times> bool) \<times> ('t, 'd, 'r) uf_store" where
  "INVALIDATE_AUTOMATIC_WORK_ONCE_SCRIPT decode now key ttl s =
     (case takeover_at now key s of
        Some existing \<Rightarrow> (existing, s)
      | None \<Rightarrow>
          (let had = had_automatic_work decode s; s1 = (incr_epoch s)\<lparr>uf_deferred := None\<rparr>
           in ((current_epoch s1, had), s1\<lparr>uf_takeover := (uf_takeover s1)(key \<mapsto> ((current_epoch s1, had), now + ttl))\<rparr>)))"

subsection \<open>The functions\<close>

definition getUltrafixAutomaticWorkEpoch :: "('t, 'd, 'r) uf_store \<Rightarrow> nat" where
  "getUltrafixAutomaticWorkEpoch s = (case uf_epoch s of None \<Rightarrow> 0 | Some e \<Rightarrow> e)"

definition hasUltrafixAutomaticWork :: "('t \<Rightarrow> decoded) \<Rightarrow> ('t, 'd, 'r) uf_store \<Rightarrow> bool" where
  "hasUltrafixAutomaticWork decode s =
     (let currentEpoch = getUltrafixAutomaticWorkEpoch s
      in if uf_deferred s \<noteq> None then True
         else case uf_state s of
                None \<Rightarrow> False
              | Some rawState \<Rightarrow>
                  (case decode rawState of
                     Object active e \<Rightarrow> active \<and> (case e of None \<Rightarrow> 0 | Some n \<Rightarrow> n) = currentEpoch
                   | Scalar \<Rightarrow> False
                   | _ \<Rightarrow> currentEpoch = 0))"

definition isUltrafixAutomaticWorkCurrent :: "nat option \<Rightarrow> ('t, 'd, 'r) uf_store \<Rightarrow> bool" where
  "isUltrafixAutomaticWorkCurrent workEpoch s = (getUltrafixAutomaticWorkEpoch s = (case workEpoch of None \<Rightarrow> 0 | Some e \<Rightarrow> e))"

definition invalidateUltrafixAutomaticWork :: "('t, 'd, 'r) uf_store \<Rightarrow> nat \<times> ('t, 'd, 'r) uf_store" where
  "invalidateUltrafixAutomaticWork s = INVALIDATE_AUTOMATIC_WORK_SCRIPT s"

definition invalidateUltrafixAutomaticWorkForComment ::
  "('t \<Rightarrow> decoded) \<Rightarrow> int \<Rightarrow> UltrafixManualTakeoverIdentity \<Rightarrow> ('t, 'd, 'r) uf_store \<Rightarrow> UltrafixManualTakeover \<times> ('t, 'd, 'r) uf_store" where
  "invalidateUltrafixAutomaticWorkForComment decode now identity s =
     (case INVALIDATE_AUTOMATIC_WORK_ONCE_SCRIPT decode now (getUltrafixManualTakeoverKey identity) MANUAL_TAKEOVER_TTL_SECONDS s of
        ((e, had), s') \<Rightarrow> (\<lparr>mt_workEpoch = e, hadAutomaticWork = had\<rparr>, s'))"

definition succeeded :: "nat \<times> 's \<Rightarrow> bool \<times> 's" where
  "succeeded r = (fst r = 1, snd r)"

definition saveDeferredContinuationIfCurrent :: "nat \<Rightarrow> 'd \<Rightarrow> ('t, 'd, 'r) uf_store \<Rightarrow> bool \<times> ('t, 'd, 'r) uf_store" where
  "saveDeferredContinuationIfCurrent workEpoch d s = succeeded (SAVE_DEFERRED_IF_CURRENT_SCRIPT workEpoch d s)"

definition clearDeferredContinuationIfCurrent :: "nat \<Rightarrow> ('t, 'd, 'r) uf_store \<Rightarrow> bool \<times> ('t, 'd, 'r) uf_store" where
  "clearDeferredContinuationIfCurrent workEpoch s = succeeded (CLEAR_DEFERRED_IF_CURRENT_SCRIPT workEpoch s)"

definition saveUltrafixStateIfCurrent :: "nat \<Rightarrow> 't \<Rightarrow> ('t, 'd, 'r) uf_store \<Rightarrow> bool \<times> ('t, 'd, 'r) uf_store" where
  "saveUltrafixStateIfCurrent workEpoch t s = succeeded (SAVE_STATE_IF_CURRENT_SCRIPT workEpoch t s)"

definition clearUltrafixStateIfCurrent :: "nat \<Rightarrow> ('t, 'd, 'r) uf_store \<Rightarrow> bool \<times> ('t, 'd, 'r) uf_store" where
  "clearUltrafixStateIfCurrent workEpoch s = succeeded (CLEAR_STATE_IF_CURRENT_SCRIPT workEpoch s)"

definition replaceUltrafixStateIfUnchanged :: "nat \<Rightarrow> 't \<Rightarrow> 't \<Rightarrow> ('t, 'd, 'r) uf_store \<Rightarrow> bool \<times> ('t, 'd, 'r) uf_store" where
  "replaceUltrafixStateIfUnchanged workEpoch rawState t s = succeeded (REPLACE_STATE_IF_UNCHANGED_SCRIPT workEpoch rawState t s)"

definition reserveEpochAndReplaceStateIfUnchanged ::
  "nat \<Rightarrow> 't \<Rightarrow> (nat \<Rightarrow> 't) \<Rightarrow> ('t, 'd, 'r) uf_store \<Rightarrow> nat option \<times> ('t, 'd, 'r) uf_store" where
  "reserveEpochAndReplaceStateIfUnchanged workEpoch rawState serializeState s =
     (let reservedEpoch = workEpoch + 1
      in case RESERVE_EPOCH_AND_REPLACE_STATE_SCRIPT workEpoch rawState (serializeState reservedEpoch) s of
           (e, s') \<Rightarrow> (if e = reservedEpoch then Some reservedEpoch else None, s'))"

definition restoreDeferredContinuationIfUnchanged :: "nat \<Rightarrow> 't \<Rightarrow> 'd \<Rightarrow> ('t, 'd, 'r) uf_store \<Rightarrow> bool \<times> ('t, 'd, 'r) uf_store" where
  "restoreDeferredContinuationIfUnchanged workEpoch rawState d s = succeeded (RESTORE_DEFERRED_IF_UNCHANGED_SCRIPT workEpoch rawState d s)"

definition clearUltrafixStateIfUnchanged :: "nat \<Rightarrow> 't \<Rightarrow> ('t, 'd, 'r) uf_store \<Rightarrow> bool \<times> ('t, 'd, 'r) uf_store" where
  "clearUltrafixStateIfUnchanged workEpoch rawState s = succeeded (CLEAR_STATE_IF_UNCHANGED_SCRIPT workEpoch rawState s)"

text \<open>
  The commit of a started loop (\<^verbatim>\<open>ultrafixDeferredContinuationStore.ts\<close>): the resume index it prunes
  afterwards is not part of the store.
\<close>

definition COMMIT_STARTED_LOOP_STATE_SCRIPT :: "nat \<Rightarrow> 't \<Rightarrow> ('t, 'd, 'r) uf_store \<Rightarrow> nat \<times> ('t, 'd, 'r) uf_store" where
  "COMMIT_STARTED_LOOP_STATE_SCRIPT e t s =
     (if current_epoch s \<noteq> e then (0, s) else (1, s\<lparr>uf_state := Some t, uf_retry := None\<rparr>))"

definition commitStartedLoopState :: "nat \<Rightarrow> 't \<Rightarrow> ('t, 'd, 'r) uf_store \<Rightarrow> bool \<times> ('t, 'd, 'r) uf_store" where
  "commitStartedLoopState workEpoch t s = succeeded (COMMIT_STARTED_LOOP_STATE_SCRIPT workEpoch t s)"

lemmas epoch_scripts = SAVE_DEFERRED_IF_CURRENT_SCRIPT_def CLEAR_DEFERRED_IF_CURRENT_SCRIPT_def SAVE_STATE_IF_CURRENT_SCRIPT_def
  CLEAR_STATE_IF_CURRENT_SCRIPT_def REPLACE_STATE_IF_UNCHANGED_SCRIPT_def CLEAR_STATE_IF_UNCHANGED_SCRIPT_def
  RESERVE_EPOCH_AND_REPLACE_STATE_SCRIPT_def RESTORE_DEFERRED_IF_UNCHANGED_SCRIPT_def INVALIDATE_AUTOMATIC_WORK_SCRIPT_def
  INVALIDATE_AUTOMATIC_WORK_ONCE_SCRIPT_def COMMIT_STARTED_LOOP_STATE_SCRIPT_def

lemmas epoch_functions = saveDeferredContinuationIfCurrent_def clearDeferredContinuationIfCurrent_def saveUltrafixStateIfCurrent_def
  clearUltrafixStateIfCurrent_def replaceUltrafixStateIfUnchanged_def reserveEpochAndReplaceStateIfUnchanged_def
  restoreDeferredContinuationIfUnchanged_def clearUltrafixStateIfUnchanged_def commitStartedLoopState_def
  invalidateUltrafixAutomaticWork_def invalidateUltrafixAutomaticWorkForComment_def succeeded_def

subsection \<open>Fenced writers\<close>

text \<open>
  The contract of a write that names its epoch: a writer of another epoch writes nothing and is told so, and
  a writer never lowers the epoch. What follows for a run of any such writers is proved once.
\<close>

locale fenced_writer =
  fixes epoch_of :: "'s \<Rightarrow> nat" and attempt :: "'w \<Rightarrow> 's \<Rightarrow> bool \<times> 's" and named :: "'w \<Rightarrow> nat option"
  assumes stale_refused: "named w = Some e \<Longrightarrow> e \<noteq> epoch_of s \<Longrightarrow> attempt w s = (False, s)"
    and epoch_mono: "epoch_of s \<le> epoch_of (snd (attempt w s))"
begin

lemma run_epoch_mono: "epoch_of s \<le> epoch_of (fold (\<lambda>w s. snd (attempt w s)) ws s)"
proof (induction ws arbitrary: s)
  case (Cons w ws)
  from order_trans [OF epoch_mono Cons] show ?case by simp
qed simp

lemma fenced_forever:
  assumes "named w = Some e" "e < epoch_of s"
  shows "attempt w (fold (\<lambda>w s. snd (attempt w s)) ws s) = (False, fold (\<lambda>w s. snd (attempt w s)) ws s)"
  using assms run_epoch_mono [of s ws] by (intro stale_refused) auto

lemma stale_run_changes_nothing:
  "\<forall>w \<in> set ws. \<exists>e. named w = Some e \<and> e < epoch_of s \<Longrightarrow> fold (\<lambda>w s. snd (attempt w s)) ws s = s"
proof (induction ws)
  case (Cons w ws)
  then obtain e where "named w = Some e" "e < epoch_of s" by auto
  with stale_refused [of w e s] Cons show ?case by simp
qed simp

end

datatype ('t, 'd) uf_write =
    Save_deferred nat 'd
  | Clear_deferred nat
  | Save_state nat 't
  | Clear_state nat
  | Replace_state nat 't 't
  | Reserve_epoch nat 't "nat \<Rightarrow> 't"
  | Restore_deferred nat 't 'd
  | Clear_unchanged nat 't
  | Commit_started nat 't
  | Invalidate
  | Invalidate_for int UltrafixManualTakeoverIdentity

fun write_epoch :: "('t, 'd) uf_write \<Rightarrow> nat option" where
  "write_epoch (Save_deferred e d) = Some e"
| "write_epoch (Clear_deferred e) = Some e"
| "write_epoch (Save_state e t) = Some e"
| "write_epoch (Clear_state e) = Some e"
| "write_epoch (Replace_state e r t) = Some e"
| "write_epoch (Reserve_epoch e r f) = Some e"
| "write_epoch (Restore_deferred e r d) = Some e"
| "write_epoch (Clear_unchanged e r) = Some e"
| "write_epoch (Commit_started e t) = Some e"
| "write_epoch Invalidate = None"
| "write_epoch (Invalidate_for now identity) = None"

fun do_write :: "('t \<Rightarrow> decoded) \<Rightarrow> ('t, 'd) uf_write \<Rightarrow> ('t, 'd, 'r) uf_store \<Rightarrow> bool \<times> ('t, 'd, 'r) uf_store" where
  "do_write decode (Save_deferred e d) s = saveDeferredContinuationIfCurrent e d s"
| "do_write decode (Clear_deferred e) s = clearDeferredContinuationIfCurrent e s"
| "do_write decode (Save_state e t) s = saveUltrafixStateIfCurrent e t s"
| "do_write decode (Clear_state e) s = clearUltrafixStateIfCurrent e s"
| "do_write decode (Replace_state e r t) s = replaceUltrafixStateIfUnchanged e r t s"
| "do_write decode (Reserve_epoch e r f) s = map_prod (\<lambda>x. x \<noteq> None) (\<lambda>s. s) (reserveEpochAndReplaceStateIfUnchanged e r f s)"
| "do_write decode (Restore_deferred e r d) s = restoreDeferredContinuationIfUnchanged e r d s"
| "do_write decode (Clear_unchanged e r) s = clearUltrafixStateIfUnchanged e r s"
| "do_write decode (Commit_started e t) s = commitStartedLoopState e t s"
| "do_write decode Invalidate s = (True, snd (invalidateUltrafixAutomaticWork s))"
| "do_write decode (Invalidate_for now identity) s = (True, snd (invalidateUltrafixAutomaticWorkForComment decode now identity s))"

lemma current_epoch_simps [simp]:
  "current_epoch (incr_epoch s) = Suc (current_epoch s)" "current_epoch (s\<lparr>uf_deferred := d\<rparr>) = current_epoch s"
  "current_epoch (s\<lparr>uf_state := t\<rparr>) = current_epoch s" "current_epoch (s\<lparr>uf_retry := r\<rparr>) = current_epoch s"
  "current_epoch (s\<lparr>uf_takeover := m\<rparr>) = current_epoch s"
  by (simp_all add: current_epoch_def incr_epoch_def)

interpretation uf_writers: fenced_writer current_epoch "do_write decode" write_epoch for decode
proof
  show "write_epoch w = Some e \<Longrightarrow> e \<noteq> current_epoch s \<Longrightarrow> do_write decode w s = (False, s)" for w e s
    by (cases w) (auto simp: epoch_functions epoch_scripts Let_def)
  show "current_epoch s \<le> current_epoch (snd (do_write decode w s))" for w s
    by (cases w) (auto simp: epoch_functions epoch_scripts Let_def split: option.split)
qed

subsection \<open>Properties\<close>

text \<open>
  C16: A takeover ends the automatic work that came before it: the deferred continuation is gone, and
  whatever is written afterwards by whomever, a write that names an epoch from before the takeover is refused
  and changes nothing.
\<close>

theorem takeover_fences_older_work:
  assumes "s' = snd (invalidateUltrafixAutomaticWork s)
       \<or> takeover_at now (getUltrafixManualTakeoverKey identity) s = None
         \<and> s' = snd (invalidateUltrafixAutomaticWorkForComment decode now identity s)"
    and "write_epoch w = Some e" "e \<le> current_epoch s"
  shows "uf_deferred s' = None
     \<and> do_write decode w (fold (\<lambda>w s. snd (do_write decode w s)) ws s') = (False, fold (\<lambda>w s. snd (do_write decode w s)) ws s')"
proof -
  have "current_epoch s' = Suc (current_epoch s)" "uf_deferred s' = None"
    using assms(1) by (auto simp: epoch_functions epoch_scripts Let_def split: option.split)
  with uf_writers.fenced_forever [OF assms(2), of s' decode ws] assms(3) show ?thesis by simp
qed

definition sample_uf :: "(nat, nat, nat) uf_store" where
  "sample_uf = \<lparr>uf_epoch = None, uf_state = Some 7, uf_deferred = Some 9, uf_retry = None, uf_takeover = Map.empty\<rparr>"

theorem takeover_fences_older_work_witness:
  "do_write (\<lambda>_. Malformed) (Save_state 0 8) (snd (invalidateUltrafixAutomaticWork sample_uf))
     = (False, snd (invalidateUltrafixAutomaticWork sample_uf))"
proof -
  let ?s = "snd (invalidateUltrafixAutomaticWork sample_uf)" and ?i = "undefined :: UltrafixManualTakeoverIdentity"
  have "?s = snd (invalidateUltrafixAutomaticWork sample_uf)
       \<or> takeover_at 0 (getUltrafixManualTakeoverKey ?i) sample_uf = None
         \<and> ?s = snd (invalidateUltrafixAutomaticWorkForComment (\<lambda>_. Malformed) 0 ?i sample_uf)" by simp
  from takeover_fences_older_work [OF this, of "Save_state 0 8" 0 "[]"] show ?thesis by simp
qed

lemma takeover_kept:
  assumes "uf_takeover s key = Some (v, expiry)" "\<forall>t i. Invalidate_for t i \<in> set ws \<longrightarrow> t < expiry"
  shows "uf_takeover (fold (\<lambda>w s. snd (do_write decode w s)) ws s) key = Some (v, expiry)"
  using assms
proof (induction ws arbitrary: s)
  case (Cons w ws)
  have "uf_takeover (snd (do_write decode w s)) key = Some (v, expiry)"
  proof (cases "\<exists>t i. w = Invalidate_for t i")
    case True
    then obtain t i where w: "w = Invalidate_for t i" by blast
    with Cons.prems have "getUltrafixManualTakeoverKey i = key \<Longrightarrow> takeover_at t (getUltrafixManualTakeoverKey i) s = Some v"
      by (auto simp: takeover_at_def)
    with w Cons.prems(1) show ?thesis
      by (auto simp: epoch_functions epoch_scripts Let_def incr_epoch_def split: option.split prod.split)
  next
    case False
    with Cons.prems(1) show ?thesis by (cases w) (auto simp: epoch_functions epoch_scripts Let_def incr_epoch_def)
  qed
  moreover have "\<forall>t i. Invalidate_for t i \<in> set ws \<longrightarrow> t < expiry" using Cons.prems(2) by simp
  ultimately show ?case using Cons.IH by simp
qed simp

lemma had_work_agrees:
  "(\<And>raw. uf_state s = Some raw \<Longrightarrow> decode raw \<noteq> Scalar) \<Longrightarrow> had_automatic_work decode s = hasUltrafixAutomaticWork decode s"
  by (auto simp: had_automatic_work_def hasUltrafixAutomaticWork_def getUltrafixAutomaticWorkEpoch_def current_epoch_def Let_def
      split: option.split decoded.split)

text \<open>
  A takeover by a comment revision happens once. Its answer whether there was automatic work agrees with
  \<open>hasUltrafixAutomaticWork\<close> just before; and for a day, after any writes and takeovers by anybody, asking again
  for the same revision gives the same answer and changes nothing.
\<close>

theorem manual_takeover_happens_once:
  assumes "takeover_at now (getUltrafixManualTakeoverKey identity) s = None" "\<And>raw. uf_state s = Some raw \<Longrightarrow> decode raw \<noteq> Scalar"
    and "invalidateUltrafixAutomaticWorkForComment decode now identity s = (r, s1)"
    and "\<forall>t i. Invalidate_for t i \<in> set ws \<longrightarrow> t < now + MANUAL_TAKEOVER_TTL_SECONDS"
    and "s2 = fold (\<lambda>w s. snd (do_write decode w s)) ws s1" "later < now + MANUAL_TAKEOVER_TTL_SECONDS"
  shows "hadAutomaticWork r = hasUltrafixAutomaticWork decode s \<and> mt_workEpoch r = current_epoch s + 1
     \<and> invalidateUltrafixAutomaticWorkForComment decode later identity s2 = (r, s2)"
proof -
  let ?key = "getUltrafixManualTakeoverKey identity"
  have r: "mt_workEpoch r = current_epoch s + 1" "hadAutomaticWork r = had_automatic_work decode s"
    and k: "uf_takeover s1 ?key = Some ((mt_workEpoch r, hadAutomaticWork r), now + MANUAL_TAKEOVER_TTL_SECONDS)"
    using assms(1,3) by (auto simp: invalidateUltrafixAutomaticWorkForComment_def INVALIDATE_AUTOMATIC_WORK_ONCE_SCRIPT_def Let_def)
  have "uf_takeover s2 ?key = Some ((mt_workEpoch r, hadAutomaticWork r), now + MANUAL_TAKEOVER_TTL_SECONDS)"
    unfolding assms(5) by (rule takeover_kept [OF k assms(4)])
  then have "takeover_at later ?key s2 = Some (mt_workEpoch r, hadAutomaticWork r)" using assms(6) by (simp add: takeover_at_def)
  then have "invalidateUltrafixAutomaticWorkForComment decode later identity s2 = (r, s2)"
    by (simp add: invalidateUltrafixAutomaticWorkForComment_def INVALIDATE_AUTOMATIC_WORK_ONCE_SCRIPT_def)
  with r had_work_agrees [OF assms(2)] show ?thesis by simp
qed

definition sample_comment :: UltrafixManualTakeoverIdentity where
  "sample_comment = \<lparr>mt_owner = ''o'', mt_repo = ''r'', mt_pr = 5, sourceCommentId = 11, sourceCommentRevision = ''v1''\<rparr>"

theorem manual_takeover_happens_once_witness:
  "invalidateUltrafixAutomaticWorkForComment (\<lambda>_. Malformed) 500 sample_comment
     (snd (invalidateUltrafixAutomaticWork (snd (invalidateUltrafixAutomaticWorkForComment (\<lambda>_. Malformed) 100 sample_comment sample_uf))))
   = (\<lparr>mt_workEpoch = 1, hadAutomaticWork = True\<rparr>,
      snd (invalidateUltrafixAutomaticWork (snd (invalidateUltrafixAutomaticWorkForComment (\<lambda>_. Malformed) 100 sample_comment sample_uf))))"
proof -
  let ?r = "invalidateUltrafixAutomaticWorkForComment (\<lambda>_. Malformed) 100 sample_comment sample_uf"
  have e: "?r = (\<lparr>mt_workEpoch = 1, hadAutomaticWork = True\<rparr>, snd ?r)"
    by (simp add: invalidateUltrafixAutomaticWorkForComment_def INVALIDATE_AUTOMATIC_WORK_ONCE_SCRIPT_def Let_def takeover_at_def
        sample_uf_def had_automatic_work_def current_epoch_def incr_epoch_def)
  have n: "takeover_at 100 (getUltrafixManualTakeoverKey sample_comment) sample_uf = None" by (simp add: takeover_at_def sample_uf_def)
  from manual_takeover_happens_once [OF n _ e, where ws = "[Invalidate]" and later = 500] show ?thesis
    by (simp add: MANUAL_TAKEOVER_TTL_SECONDS_def)
qed

end
