(* ===== verification/Ultrafix.thy ===== *)
theory Ultrafix
  imports Ultrafix_Epoch
begin

section \<open>Ultrafix loops\<close>

text \<open>
  An Ultrafix loop alternates reviews and fixes of a pull request until a review is clean and reaches the
  goal, or the cycles run out. This theory models the loop's state and decisions
  (\<^verbatim>\<open>src/jobs/ultrafixOrchestrationService.ts\<close>), the escalation of models
  (\<^verbatim>\<open>ultrafixEscalationPolicy.ts\<close>) and the readiness checks (\<^verbatim>\<open>ultrafixReadinessPolicy.ts\<close>).

  The stored text of a state is the state itself: the service writes \<open>JSON.stringify\<close> and reads \<open>JSON.parse\<close>. A field
  that older states lack is an option. Time stamps are milliseconds. The reason of a decision, a sentence in the
  code, is a value that carries the numbers of that sentence.
\<close>

datatype UltrafixAction = Review | Fix
datatype ReviewOutputStatus = Valid_with_blockers | Valid_clean | Invalid
datatype finding_status = Open | Selected | Addressed | Resolved
datatype completion = Succeeded_loop | Failed_loop

record UltrafixFindingLifecycle =
  fl_id :: string
  fl_sourceCommentId :: nat
  fl_title :: string
  fl_status :: finding_status
  firstSeenCycle :: int
  lastSeenCycle :: int

record EscalationModel =
  em_model :: string
  em_levels :: "string list"
  em_effort :: "string option"
  em_effortInModel :: bool

record UltrafixEscalationState =
  es_models :: "string list"
  es_patience :: nat
  es_maxReasoningLevels :: nat
  es_modelIndex :: nat
  es_current :: EscalationModel
  es_climbs :: nat
  es_bestScore :: "rat option"
  es_stalledReviews :: nat
  es_exhausted :: bool

record UltrafixLoopState =
  uf_owner :: string
  uf_repo :: string
  uf_pr :: nat
  goal :: rat
  maxCycles :: int
  pauseSeconds :: int
  reviewModel :: string
  cycleCount :: int
  reviewCount :: "int option"
  fixCount :: "int option"
  lastAction :: "UltrafixAction option"
  lastActionTimestamp :: "int option"
  uf_active :: bool
  workEpoch :: "nat option"
  uf_sourceCommentId :: "nat option"
  instructions :: "string option"
  userId :: "string option"
  completionStatus :: "completion option"
  completionReason :: "string option"
  finalScore :: "rat option"
  completedAt :: "int option"
  originalScope :: "string option"
  originalScopeCaptured :: "bool option"
  findingLifecycle :: "(string \<times> UltrafixFindingLifecycle) list option"
  escalation :: "UltrafixEscalationState option"
  escalationBestScore :: "rat option"
  failedStepStreak :: "(int \<times> nat) option"

record StartLoopOptions =
  so_owner :: string
  so_repo :: string
  so_pr :: nat
  so_goal :: "rat option"
  so_maxCycles :: "int option"
  so_pauseSeconds :: "int option"
  so_reviewModel :: "string option"
  so_workEpoch :: "nat option"
  so_sourceCommentId :: "nat option"
  so_instructions :: "string option"
  so_userId :: "string option"

definition DEFAULT_GOAL :: rat where "DEFAULT_GOAL = 7"
definition DEFAULT_MAX_CYCLES :: int where "DEFAULT_MAX_CYCLES = 5"
definition DEFAULT_PAUSE_SECONDS :: int where "DEFAULT_PAUSE_SECONDS = 60"

definition getUltrafixStateKey :: "string \<Rightarrow> string \<Rightarrow> nat \<Rightarrow> string" where
  "getUltrafixStateKey owner repo pr = ''ultrafix:state:'' @ owner @ '':'' @ repo @ '':'' @ show_nat pr"

definition or_default :: "'a option \<Rightarrow> 'a \<Rightarrow> 'a" where
  "or_default x d = (case x of None \<Rightarrow> d | Some v \<Rightarrow> v)"

definition if_nonempty :: "string option \<Rightarrow> string option" where
  "if_nonempty x = (if x = Some '''' then None else x)"

definition createDefaultState :: "StartLoopOptions \<Rightarrow> UltrafixLoopState" where
  "createDefaultState opts = \<lparr>uf_owner = so_owner opts, uf_repo = so_repo opts, uf_pr = so_pr opts,
     goal = or_default (so_goal opts) DEFAULT_GOAL, maxCycles = or_default (so_maxCycles opts) DEFAULT_MAX_CYCLES,
     pauseSeconds = or_default (so_pauseSeconds opts) DEFAULT_PAUSE_SECONDS, reviewModel = or_default (so_reviewModel opts) '''',
     cycleCount = 0, reviewCount = Some 0, fixCount = Some 0, lastAction = None, lastActionTimestamp = None, uf_active = True,
     workEpoch = Some (or_default (so_workEpoch opts) 0), uf_sourceCommentId = so_sourceCommentId opts,
     instructions = if_nonempty (so_instructions opts), userId = if_nonempty (so_userId opts),
     completionStatus = None, completionReason = None, finalScore = None, completedAt = None,
     originalScope = None, originalScopeCaptured = Some False, findingLifecycle = Some [], escalation = None,
     escalationBestScore = None, failedStepStreak = None\<rparr>"

definition getActionCounts :: "UltrafixLoopState \<Rightarrow> int \<times> int" where
  "getActionCounts st =
     (case (reviewCount st, fixCount st) of
        (Some r, Some f) \<Rightarrow> (r, f)
      | _ \<Rightarrow> (case lastAction st of
               Some Review \<Rightarrow> (cycleCount st + 1, cycleCount st)
             | Some Fix \<Rightarrow> (cycleCount st, cycleCount st)
             | None \<Rightarrow> (0, 0)))"

subsection \<open>Decisions\<close>

definition determineInitialAction :: "bool \<Rightarrow> UltrafixAction" where
  "determineInitialAction hasPendingReviews = (if hasPendingReviews then Fix else Review)"

definition hasReviewReachedGoal :: "ReviewOutputStatus \<Rightarrow> rat option \<Rightarrow> rat \<Rightarrow> bool \<Rightarrow> bool" where
  "hasReviewReachedGoal reviewStatus currentScore g isPartial =
     (\<not> isPartial \<and> reviewStatus = Valid_clean \<and> (case currentScore of None \<Rightarrow> False | Some s \<Rightarrow> g \<le> s))"

datatype decision_reason =
    Loop_inactive
  | No_previous_action
  | Clean_but_partial
  | Goal_reached "rat option" rat
  | Clean_below_goal "rat option" rat
  | Invalid_attempts_exhausted int
  | Invalid_retrying
  | Fixes_exhausted int int
  | Findings_remain
  | Reviews_exhausted int int
  | Review_after_fix

definition determineNextAction ::
  "UltrafixLoopState \<Rightarrow> rat option \<Rightarrow> ReviewOutputStatus \<Rightarrow> bool \<Rightarrow> UltrafixAction option \<times> decision_reason" where
  "determineNextAction st currentScore reviewStatus isPartial =
     (case getActionCounts st of (reviews, fixes) \<Rightarrow>
        if \<not> uf_active st then (None, Loop_inactive)
        else case lastAction st of
               None \<Rightarrow> (Some Review, No_previous_action)
             | Some Review \<Rightarrow>
                 (case reviewStatus of
                    Valid_clean \<Rightarrow>
                      (if isPartial then (None, Clean_but_partial)
                       else if hasReviewReachedGoal reviewStatus currentScore (goal st) isPartial
                       then (None, Goal_reached currentScore (goal st))
                       else (None, Clean_below_goal currentScore (goal st)))
                  | Invalid \<Rightarrow>
                      (if reviews \<ge> maxCycles st then (None, Invalid_attempts_exhausted (maxCycles st))
                       else (Some Review, Invalid_retrying))
                  | Valid_with_blockers \<Rightarrow>
                      (if fixes \<ge> maxCycles st then (None, Fixes_exhausted fixes (maxCycles st))
                       else (Some Fix, Findings_remain)))
             | Some Fix \<Rightarrow>
                 (if reviews \<ge> maxCycles st then (None, Reviews_exhausted reviews (maxCycles st))
                  else (Some Review, Review_after_fix)))"

subsection \<open>Persistence\<close>

type_synonym ('d, 'r) loop_store = "(UltrafixLoopState, 'd, 'r) uf_store"

definition saveState :: "UltrafixLoopState \<Rightarrow> ('d, 'r) loop_store \<Rightarrow> ('d, 'r) loop_store" where
  "saveState st s = s\<lparr>uf_state := Some st\<rparr>"

definition loadState :: "('d, 'r) loop_store \<Rightarrow> UltrafixLoopState option" where
  "loadState s = uf_state s"

definition clearState :: "('d, 'r) loop_store \<Rightarrow> ('d, 'r) loop_store" where
  "clearState s = s\<lparr>uf_state := None\<rparr>"

definition loadOwnedState :: "nat option \<Rightarrow> ('d, 'r) loop_store \<Rightarrow> UltrafixLoopState option" where
  "loadOwnedState we s =
     (case loadState s of
        None \<Rightarrow> None
      | Some st \<Rightarrow>
          (let st1 = st\<lparr>workEpoch := Some (or_default (workEpoch st) 0)\<rparr>
           in if we \<noteq> None \<and> workEpoch st1 \<noteq> we then None else Some st1))"

definition saveOwnedState :: "UltrafixLoopState \<Rightarrow> nat option \<Rightarrow> ('d, 'r) loop_store \<Rightarrow> bool \<times> ('d, 'r) loop_store" where
  "saveOwnedState st we s =
     (case we of
        None \<Rightarrow> (True, saveState st s)
      | Some e \<Rightarrow> (if workEpoch st \<noteq> Some e then (False, s) else saveUltrafixStateIfCurrent e st s))"

text \<open>Load, change and save under an epoch. \<open>mid\<close> is what others do to the store between the load and the save.\<close>

definition owned_update ::
  "(UltrafixLoopState \<Rightarrow> UltrafixLoopState) \<Rightarrow> nat option \<Rightarrow> (('d, 'r) loop_store \<Rightarrow> ('d, 'r) loop_store) \<Rightarrow> ('d, 'r) loop_store
     \<Rightarrow> UltrafixLoopState option \<times> ('d, 'r) loop_store" where
  "owned_update f we mid s =
     (case loadOwnedState we s of
        None \<Rightarrow> (None, s)
      | Some st \<Rightarrow> (case saveOwnedState (f st) we (mid s) of (saved, s') \<Rightarrow> (if saved then Some (f st) else None, s')))"

definition startLoop ::
  "int \<Rightarrow> StartLoopOptions \<Rightarrow> bool \<Rightarrow> ('d, 'r) loop_store \<Rightarrow> (UltrafixLoopState \<times> UltrafixAction) result \<times> ('d, 'r) loop_store" where
  "startLoop now opts hasPendingReviews s =
     (let initialAction = determineInitialAction hasPendingReviews;
          st = (createDefaultState opts)\<lparr>lastAction := Some initialAction, lastActionTimestamp := Some now\<rparr>
      in case (case so_workEpoch opts of None \<Rightarrow> saveOwnedState st None s | Some e \<Rightarrow> commitStartedLoopState e st s) of
           (saved, s') \<Rightarrow>
             (if \<not> saved then Throw ''Ultrafix startup was superseded before state commit'' else Return (st, initialAction), s'))"

definition address_selected :: "UltrafixFindingLifecycle \<Rightarrow> UltrafixFindingLifecycle" where
  "address_selected finding = (if fl_status finding = Selected then finding\<lparr>fl_status := Addressed\<rparr> else finding)"

definition record_action :: "int \<Rightarrow> UltrafixAction \<Rightarrow> UltrafixLoopState \<Rightarrow> UltrafixLoopState" where
  "record_action now action st =
     (case getActionCounts st of (reviews, fixes) \<Rightarrow>
        let r = reviews + (if action = Review then 1 else 0); f = fixes + (if action = Fix then 1 else 0)
        in st\<lparr>lastAction := Some action, lastActionTimestamp := Some now, reviewCount := Some r, fixCount := Some f,
              cycleCount := min r f,
              findingLifecycle := (if action = Fix then map_option (map (\<lambda>(k, x). (k, address_selected x))) (findingLifecycle st)
                                   else findingLifecycle st)\<rparr>)"

definition recordAction ::
  "int \<Rightarrow> UltrafixAction \<Rightarrow> nat option \<Rightarrow> (('d, 'r) loop_store \<Rightarrow> ('d, 'r) loop_store) \<Rightarrow> ('d, 'r) loop_store \<Rightarrow> UltrafixLoopState option \<times> ('d, 'r) loop_store" where
  "recordAction now action we mid s = owned_update (record_action now action) we mid s"

definition retainOriginalScope ::
  "string \<Rightarrow> nat option \<Rightarrow> (('d, 'r) loop_store \<Rightarrow> ('d, 'r) loop_store) \<Rightarrow> ('d, 'r) loop_store \<Rightarrow> string \<times> ('d, 'r) loop_store" where
  "retainOriginalScope scope we mid s =
     (case loadOwnedState we s of
        None \<Rightarrow> (scope, s)
      | Some st \<Rightarrow>
          (if originalScopeCaptured st = Some True then (or_default (originalScope st) '''', s)
           else let kept = (case originalScope st of Some (c # cs) \<Rightarrow> c # cs | _ \<Rightarrow> scope)
                in case saveOwnedState (st\<lparr>originalScope := Some kept, originalScopeCaptured := Some True\<rparr>) we (mid s) of
                     (saved, s') \<Rightarrow> (if saved then kept else scope, s')))"

record finding =
  fd_id :: string
  fd_sourceCommentId :: nat
  fd_title :: string

definition js_upper :: "string \<Rightarrow> string" where
  "js_upper s = map js_upper_char s"

definition finding_key :: "finding \<Rightarrow> string" where
  "finding_key f = show_nat (fd_sourceCommentId f) @ '':'' @ js_upper (fd_id f)"

definition finding_entry :: "int \<Rightarrow> finding \<Rightarrow> (string \<times> UltrafixFindingLifecycle) list \<Rightarrow> UltrafixFindingLifecycle" where
  "finding_entry cycle f lifecycle =
     (case map_of lifecycle (finding_key f) of
        Some x \<Rightarrow> x
      | None \<Rightarrow> \<lparr>fl_id = js_upper (fd_id f), fl_sourceCommentId = fd_sourceCommentId f, fl_title = fd_title f, fl_status = Open,
                  firstSeenCycle = cycle, lastSeenCycle = cycle\<rparr>)"

definition open_finding ::
  "int \<Rightarrow> finding \<Rightarrow> (string \<times> UltrafixFindingLifecycle) list \<Rightarrow> (string \<times> UltrafixFindingLifecycle) list" where
  "open_finding cycle f lifecycle =
     AList.update (finding_key f) ((finding_entry cycle f lifecycle)\<lparr>fl_title := fd_title f, fl_status := Open, lastSeenCycle := cycle\<rparr>) lifecycle"

definition select_finding ::
  "int \<Rightarrow> finding \<Rightarrow> (string \<times> UltrafixFindingLifecycle) list \<Rightarrow> (string \<times> UltrafixFindingLifecycle) list" where
  "select_finding cycle f lifecycle =
     AList.update (finding_key f) ((finding_entry cycle f lifecycle)\<lparr>fl_status := Selected, lastSeenCycle := cycle\<rparr>) lifecycle"

definition resolve_addressed :: "UltrafixFindingLifecycle \<Rightarrow> UltrafixFindingLifecycle" where
  "resolve_addressed finding = (if fl_status finding = Addressed then finding\<lparr>fl_status := Resolved\<rparr> else finding)"

definition record_findings :: "finding list \<Rightarrow> UltrafixLoopState \<Rightarrow> UltrafixLoopState" where
  "record_findings findings st =
     st\<lparr>findingLifecycle := Some (fold (open_finding (cycleCount st)) findings
          (map (\<lambda>(k, x). (k, resolve_addressed x)) (or_default (findingLifecycle st) [])))\<rparr>"

definition select_findings :: "finding list \<Rightarrow> UltrafixLoopState \<Rightarrow> UltrafixLoopState" where
  "select_findings findings st =
     st\<lparr>findingLifecycle := Some (fold (select_finding (cycleCount st)) findings (or_default (findingLifecycle st) []))\<rparr>"

definition recordReviewFindings ::
  "finding list \<Rightarrow> nat option \<Rightarrow> (('d, 'r) loop_store \<Rightarrow> ('d, 'r) loop_store) \<Rightarrow> ('d, 'r) loop_store \<Rightarrow> UltrafixLoopState option \<times> ('d, 'r) loop_store" where
  "recordReviewFindings findings we mid s = owned_update (record_findings findings) we mid s"

definition markFindingsSelected ::
  "finding list \<Rightarrow> nat option \<Rightarrow> (('d, 'r) loop_store \<Rightarrow> ('d, 'r) loop_store) \<Rightarrow> ('d, 'r) loop_store \<Rightarrow> UltrafixLoopState option \<times> ('d, 'r) loop_store" where
  "markFindingsSelected findings we mid s = owned_update (select_findings findings) we mid s"

definition stopLoop :: "(('d, 'r) loop_store \<Rightarrow> ('d, 'r) loop_store) \<Rightarrow> ('d, 'r) loop_store \<Rightarrow> UltrafixLoopState option \<times> ('d, 'r) loop_store" where
  "stopLoop mid s =
     (case loadState s of
        None \<Rightarrow> (None, s)
      | Some st \<Rightarrow> (Some (st\<lparr>uf_active := False\<rparr>), saveState (st\<lparr>uf_active := False\<rparr>) (mid s)))"

definition completeLoop ::
  "int \<Rightarrow> completion \<Rightarrow> string \<Rightarrow> rat option \<Rightarrow> nat option \<Rightarrow> (('d, 'r) loop_store \<Rightarrow> ('d, 'r) loop_store) \<Rightarrow> ('d, 'r) loop_store
     \<Rightarrow> UltrafixLoopState option \<times> ('d, 'r) loop_store" where
  "completeLoop now status reason score we mid s =
     owned_update (\<lambda>st. st\<lparr>uf_active := False, completionStatus := Some status, completionReason := Some reason,
                           finalScore := score, completedAt := Some now\<rparr>) we mid s"

subsection \<open>Readiness\<close>

definition requiresPassingChecks :: "UltrafixAction \<Rightarrow> bool" where
  "requiresPassingChecks nextAction = (nextAction = Review)"

definition isCooldownElapsed :: "UltrafixLoopState \<Rightarrow> int \<Rightarrow> bool" where
  "isCooldownElapsed st now = (case lastActionTimestamp st of None \<Rightarrow> True | Some t \<Rightarrow> now - t \<ge> pauseSeconds st * 1000)"

record queue_job =
  qj_owner :: "string option"
  qj_repo :: "string option"
  qj_pr :: "nat option"
  qj_ultrafixMeta :: jsval

definition hasFollowUpJobsForPR :: "string \<Rightarrow> string \<Rightarrow> nat \<Rightarrow> queue_job list \<Rightarrow> bool" where
  "hasFollowUpJobsForPR owner repo pr jobs =
     list_ex (\<lambda>j. qj_owner j = Some owner \<and> qj_repo j = Some repo \<and> qj_pr j = Some pr \<and> \<not> js_nullish (qj_ultrafixMeta j)) jobs"

definition hasPendingBatchedComments :: "nat \<Rightarrow> bool" where
  "hasPendingBatchedComments len = (len > 0)"

record UltrafixCheckStatus =
  check_count :: nat
  allPassing :: bool
  anyPending :: bool
  anyFailed :: bool
  blockingFailed :: "string list option"
  blockingPending :: "string list option"

definition areChecksReadyForUltrafix :: "UltrafixCheckStatus \<Rightarrow> bool" where
  "areChecksReadyForUltrafix status = allPassing status"

definition checkReadiness :: "bool \<Rightarrow> bool \<Rightarrow> bool \<Rightarrow> bool \<times> string list" where
  "checkReadiness allChecksPassing hasFollowUpJobs hasPendingComments =
     (let reasons = (if \<not> allChecksPassing then [''checks_not_passing''] else []) @ (if hasFollowUpJobs then [''follow_up_jobs_active''] else [])
            @ (if hasPendingComments then [''pending_comments_exist''] else [])
      in (length reasons = 0, reasons))"

subsection \<open>Escalation\<close>

text \<open>
  \<open>resolveAvailableModel\<close> (the agent registry, the configuration and the usage monitor) is an argument.
\<close>

fun find_index :: "'a \<Rightarrow> 'a list \<Rightarrow> nat option" where
  "find_index x [] = None"
| "find_index x (y # ys) = (if y = x then Some 0 else map_option Suc (find_index x ys))"

definition next_level :: "EscalationModel \<Rightarrow> string option" where
  "next_level current =
     (let i = (case em_effort current of
                 Some (c # cs) \<Rightarrow> (case find_index (c # cs) (em_levels current) of Some j \<Rightarrow> j + 1 | None \<Rightarrow> 0)
               | _ \<Rightarrow> 1)
      in if i < length (em_levels current) \<and> em_levels current ! i \<noteq> '''' then Some (em_levels current ! i) else None)"

definition replace_effort :: "string \<Rightarrow> string \<Rightarrow> string" where
  "replace_effort level m =
     (case find (\<lambda>l. suffix (''-'' @ l) m) [''low'', ''medium'', ''high''] of
        None \<Rightarrow> m
      | Some l \<Rightarrow> take (length m - (length l + 1)) m @ ''-'' @ level)"

fun next_model :: "(string \<Rightarrow> EscalationModel option) \<Rightarrow> nat \<Rightarrow> string list \<Rightarrow> (nat \<times> EscalationModel) option" where
  "next_model resolveAvailableModel i [] = None"
| "next_model resolveAvailableModel i (m # ms) =
     (case resolveAvailableModel m of None \<Rightarrow> next_model resolveAvailableModel (i + 1) ms | Some candidate \<Rightarrow> Some (i, candidate))"

definition advanceEscalation ::
  "(string \<Rightarrow> EscalationModel option) \<Rightarrow> rat \<Rightarrow> UltrafixEscalationState \<Rightarrow> UltrafixEscalationState" where
  "advanceEscalation resolveAvailableModel score st0 =
     (let st = st0\<lparr>es_exhausted := False\<rparr>
      in if (case es_bestScore st of None \<Rightarrow> True | Some b \<Rightarrow> b < score)
         then st\<lparr>es_bestScore := Some score, es_stalledReviews := 0\<rparr>
         else if es_stalledReviews st + 1 < es_patience st then st\<lparr>es_stalledReviews := es_stalledReviews st + 1\<rparr>
         else let st1 = st\<lparr>es_stalledReviews := 0\<rparr>; current = es_current st1
              in case (if es_climbs st1 < es_maxReasoningLevels st1 then next_level current else None) of
                   Some level \<Rightarrow>
                     st1\<lparr>es_current := current\<lparr>em_effort := Some level,
                            em_model := (if em_effortInModel current then replace_effort level (em_model current) else em_model current)\<rparr>,
                         es_climbs := es_climbs st1 + 1\<rparr>
                 | None \<Rightarrow>
                     (case next_model resolveAvailableModel (es_modelIndex st1 + 1) (drop (es_modelIndex st1 + 1) (es_models st1)) of
                        None \<Rightarrow> st1
                      | Some (i, candidate) \<Rightarrow> st1\<lparr>es_modelIndex := i, es_current := candidate, es_climbs := 0\<rparr>))"

subsection \<open>Circuit breakers of a stranded loop\<close>

text \<open>The decisions of \<^verbatim>\<open>ultrafixResumeClaim.ts\<close> on a loop whose step job failed for good.\<close>

definition MAX_FAILED_STEP_RECOVERIES :: nat where "MAX_FAILED_STEP_RECOVERIES = 2"

definition getNextStepNumber :: "UltrafixLoopState \<Rightarrow> UltrafixAction \<Rightarrow> int" where
  "getNextStepNumber st action = (case getActionCounts st of (reviews, fixes) \<Rightarrow> (if action = Review then reviews else fixes) + 1)"

definition getConsecutiveFailedSteps :: "UltrafixLoopState \<Rightarrow> nat" where
  "getConsecutiveFailedSteps st =
     (case failedStepStreak st of
        None \<Rightarrow> 0
      | Some (completedSteps, n) \<Rightarrow>
          (case getActionCounts st of (reviews, fixes) \<Rightarrow> if completedSteps = reviews + fixes then n else 0))"

definition recordFailedStepInState :: "UltrafixLoopState \<Rightarrow> UltrafixLoopState" where
  "recordFailedStepInState st =
     (case getActionCounts st of (reviews, fixes) \<Rightarrow>
        st\<lparr>failedStepStreak := Some (reviews + fixes, getConsecutiveFailedSteps st + 1)\<rparr>)"

datatype stranded_reason = Score_reaches_goal rat rat | Budget_spent int int int | Steps_keep_failing nat nat

datatype StrandedLoopRearmDecision = Skip_rearm | Complete_loop completion stranded_reason | Rearm

definition budget_breakers :: "UltrafixLoopState \<Rightarrow> StrandedLoopRearmDecision" where
  "budget_breakers st =
     (case getActionCounts st of (reviews, fixes) \<Rightarrow>
        let fixBudgetSpent = (lastAction st \<noteq> Some Fix \<and> fixes \<ge> maxCycles st)
        in if reviews \<ge> maxCycles st \<or> fixBudgetSpent
           then Complete_loop Failed_loop (Budget_spent reviews fixes (maxCycles st))
           else let failedSteps = getConsecutiveFailedSteps st
                in if failedSteps > MAX_FAILED_STEP_RECOVERIES
                   then Complete_loop Failed_loop (Steps_keep_failing failedSteps MAX_FAILED_STEP_RECOVERIES)
                   else Rearm)"

definition evaluateStrandedLoopRearm :: "UltrafixLoopState option \<Rightarrow> StrandedLoopRearmDecision" where
  "evaluateStrandedLoopRearm snapshot =
     (case snapshot of
        None \<Rightarrow> Skip_rearm
      | Some st \<Rightarrow>
          (if \<not> uf_active st then Skip_rearm
           else case finalScore st of
                  Some score \<Rightarrow>
                    (if score \<ge> goal st then Complete_loop Succeeded_loop (Score_reaches_goal score (goal st))
                     else budget_breakers st)
                | None \<Rightarrow> budget_breakers st))"

subsection \<open>Runs of a loop\<close>

text \<open>
  A run is a sequence of step jobs. A job that completes is recorded and the next action decided, as the continuation of
  the job does (\<^verbatim>\<open>continueUltrafixLoop\<close> in \<^verbatim>\<open>ultrafixLoopContinuation.ts\<close>); what its review reported is arbitrary. A job that fails for
  good is counted on the state, and the breakers decide whether a review is scheduled in its place
  (\<^verbatim>\<open>rearmFromSnapshot\<close> in \<^verbatim>\<open>ultrafixStrandedLoopRearm.ts\<close>). The result is \<open>None\<close> once the loop has ended.
\<close>

datatype step_outcome = Step_completed int "rat option" ReviewOutputStatus bool | Step_failed

definition loop_step :: "step_outcome \<Rightarrow> UltrafixAction \<times> UltrafixLoopState \<Rightarrow> (UltrafixAction \<times> UltrafixLoopState) option" where
  "loop_step out p =
     (case p of (action, st) \<Rightarrow>
        (case out of
           Step_completed now score status partial \<Rightarrow>
             map_option (\<lambda>a. (a, record_action now action st)) (fst (determineNextAction (record_action now action st) score status partial))
         | Step_failed \<Rightarrow>
             (if evaluateStrandedLoopRearm (Some (recordFailedStepInState st)) = Rearm then Some (Review, recordFailedStepInState st) else None)))"

fun run_loop :: "step_outcome list \<Rightarrow> UltrafixAction \<times> UltrafixLoopState \<Rightarrow> (UltrafixAction \<times> UltrafixLoopState) option" where
  "run_loop [] p = Some p"
| "run_loop (out # outs) p = (case loop_step out p of None \<Rightarrow> None | Some q \<Rightarrow> run_loop outs q)"

text \<open>
  The invariant of a pending step: its action's budget is not spent (the first step is free), no budget is overspent,
  and the failure streak was recorded at a count of steps already passed.
\<close>

definition budget :: "UltrafixLoopState \<Rightarrow> int" where
  "budget st = max 1 (maxCycles st)"

definition pending_ok :: "UltrafixAction \<times> UltrafixLoopState \<Rightarrow> bool" where
  "pending_ok p =
     (case p of (action, st) \<Rightarrow> case getActionCounts st of (reviews, fixes) \<Rightarrow>
        0 \<le> reviews \<and> 0 \<le> fixes \<and> reviews \<le> budget st \<and> fixes \<le> budget st
        \<and> (if action = Review then reviews < budget st else fixes < budget st)
        \<and> (case failedStepStreak st of None \<Rightarrow> True | Some (c, n) \<Rightarrow> c \<le> reviews + fixes)
        \<and> getConsecutiveFailedSteps st \<le> MAX_FAILED_STEP_RECOVERIES)"

definition jobs_left :: "UltrafixLoopState \<Rightarrow> int" where
  "jobs_left st =
     (case getActionCounts st of (reviews, fixes) \<Rightarrow>
        (int MAX_FAILED_STEP_RECOVERIES + 1) * (2 * budget st - reviews - fixes) - int (getConsecutiveFailedSteps st))"

lemma record_action_counts [simp]:
  "getActionCounts (record_action now action st) =
     (case getActionCounts st of (reviews, fixes) \<Rightarrow> (reviews + (if action = Review then 1 else 0), fixes + (if action = Fix then 1 else 0)))"
  by (simp add: record_action_def Let_def split_beta getActionCounts_def [of "_\<lparr>findingLifecycle := _\<rparr>"])

lemma record_action_simps [simp]:
  "maxCycles (record_action now action st) = maxCycles st"
  "uf_active (record_action now action st) = uf_active st"
  "lastAction (record_action now action st) = Some action"
  "failedStepStreak (record_action now action st) = failedStepStreak st"
  "goal (record_action now action st) = goal st"
  "budget (record_action now action st) = budget st"
  by (simp_all add: record_action_def Let_def split_beta budget_def)

lemma failed_step_simps [simp]:
  "getActionCounts (recordFailedStepInState st) = getActionCounts st"
  "maxCycles (recordFailedStepInState st) = maxCycles st"
  "budget (recordFailedStepInState st) = budget st"
  "getConsecutiveFailedSteps (recordFailedStepInState st) = Suc (getConsecutiveFailedSteps st)"
  "failedStepStreak (recordFailedStepInState st) =
     Some (fst (getActionCounts st) + snd (getActionCounts st), Suc (getConsecutiveFailedSteps st))"
  by (simp_all add: recordFailedStepInState_def getActionCounts_def getConsecutiveFailedSteps_def budget_def split: prod.splits option.splits UltrafixAction.splits)

lemma completed_resets_streak:
  assumes "pending_ok (action, st)"
  shows "getConsecutiveFailedSteps (record_action now action st) = 0"
  using assms by (cases action) (auto simp: pending_ok_def getConsecutiveFailedSteps_def split: option.splits prod.splits)

lemma next_action_budget:
  assumes "fst (determineNextAction (record_action now action st) score status partial) = Some a" "getActionCounts st = (r, f)"
  shows "(a = Review \<longrightarrow> r + (if action = Review then 1 else 0) < budget st) \<and> (a = Fix \<longrightarrow> f + (if action = Fix then 1 else 0) < budget st)"
  using assms by (auto simp: determineNextAction_def budget_def split: if_splits UltrafixAction.splits ReviewOutputStatus.splits)

lemma completed_step_progress:
  assumes ok: "pending_ok (action, st)" and a: "fst (determineNextAction (record_action now action st) score status partial) = Some a"
  shows "pending_ok (a, record_action now action st) \<and> jobs_left (record_action now action st) < jobs_left st"
proof -
  obtain r f where c: "getActionCounts st = (r, f)" by force
  note nb = next_action_budget [OF a c]
  from ok c completed_resets_streak [OF ok, of now] nb show ?thesis
    by (cases action; cases a) (auto simp: pending_ok_def jobs_left_def MAX_FAILED_STEP_RECOVERIES_def split: option.splits)
qed

lemma rearm_budget:
  assumes "evaluateStrandedLoopRearm (Some st) = Rearm" "getActionCounts st = (r, f)"
  shows "r < maxCycles st \<and> getConsecutiveFailedSteps st \<le> MAX_FAILED_STEP_RECOVERIES"
  using assms by (auto simp: evaluateStrandedLoopRearm_def budget_breakers_def Let_def split: if_splits option.splits)

lemma failed_step_progress:
  assumes ok: "pending_ok (action, st)" and a: "evaluateStrandedLoopRearm (Some (recordFailedStepInState st)) = Rearm"
  shows "pending_ok (Review, recordFailedStepInState st) \<and> jobs_left (recordFailedStepInState st) < jobs_left st"
proof -
  obtain r f where c: "getActionCounts st = (r, f)" by force
  with rearm_budget [OF a] have "r < maxCycles st" "Suc (getConsecutiveFailedSteps st) \<le> MAX_FAILED_STEP_RECOVERIES" by auto
  with ok c show ?thesis by (auto simp: pending_ok_def jobs_left_def budget_def [of st])
qed

lemma loop_step_progress:
  assumes "pending_ok p" "loop_step out p = Some q"
  shows "pending_ok q \<and> jobs_left (snd q) < jobs_left (snd p) \<and> budget (snd q) = budget (snd p)"
  using assms completed_step_progress failed_step_progress
  by (cases p; cases out) (auto simp: loop_step_def split: if_splits)

lemma pending_jobs_left: "pending_ok (a, st) \<Longrightarrow> 0 < jobs_left st"
  by (cases a) (auto simp: pending_ok_def jobs_left_def MAX_FAILED_STEP_RECOVERIES_def split: prod.splits)

lemma run_loop_bounded:
  "pending_ok p \<Longrightarrow> run_loop outs p = Some q \<Longrightarrow> int (length outs) + jobs_left (snd q) \<le> jobs_left (snd p) \<and> pending_ok q \<and> budget (snd q) = budget (snd p)"
proof (induction outs arbitrary: p)
  case (Cons out outs)
  then obtain p' where p': "loop_step out p = Some p'" "run_loop outs p' = Some q" by (auto split: option.splits)
  from loop_step_progress [OF Cons.prems(1) p'(1)] Cons.IH [OF _ p'(2)] show ?case by auto
qed simp

lemma start_pending_ok:
  "pending_ok (action, (createDefaultState opts)\<lparr>lastAction := Some action, lastActionTimestamp := Some now\<rparr>)"
  by (auto simp: pending_ok_def createDefaultState_def getActionCounts_def budget_def getConsecutiveFailedSteps_def max_def)

lemma start_jobs_left:
  "jobs_left ((createDefaultState opts)\<lparr>lastAction := a, lastActionTimestamp := b\<rparr>)
     = 6 * max 1 (or_default (so_maxCycles opts) DEFAULT_MAX_CYCLES)"
  by (simp add: jobs_left_def createDefaultState_def getActionCounts_def budget_def getConsecutiveFailedSteps_def MAX_FAILED_STEP_RECOVERIES_def)

subsection \<open>Findings, escalation and superseded writers\<close>

definition lifecycle_status :: "UltrafixLoopState \<Rightarrow> string \<Rightarrow> finding_status option" where
  "lifecycle_status st k = map_option fl_status (map_of (or_default (findingLifecycle st) []) k)"

lemma open_fold:
  "map_option fl_status (map_of (fold (open_finding c) fs l) k)
     = (if k \<in> finding_key ` set fs then Some Open else map_option fl_status (map_of l k))"
  by (induction fs arbitrary: l) (auto simp: open_finding_def update_conv')

lemma select_fold:
  "map_option fl_status (map_of (fold (select_finding c) fs l) k)
     = (if k \<in> finding_key ` set fs then Some Selected else map_option fl_status (map_of l k))"
  by (induction fs arbitrary: l) (auto simp: select_finding_def update_conv')

lemma map_of_map_entries: "map_of (map (\<lambda>(k, x). (k, g x)) l) k = map_option g (map_of l k)"
  by (induction l) auto

lemma entry_status:
  "fl_status (resolve_addressed x) = (if fl_status x = Addressed then Resolved else fl_status x)"
  "fl_status (address_selected x) = (if fl_status x = Selected then Addressed else fl_status x)"
  by (simp_all add: resolve_addressed_def address_selected_def)

lemma lifecycle_simps:
  "lifecycle_status (record_findings fs st) k =
     (if k \<in> finding_key ` set fs then Some Open
      else map_option (\<lambda>x. if x = Addressed then Resolved else x) (lifecycle_status st k))"
  "lifecycle_status (select_findings fs st) k = (if k \<in> finding_key ` set fs then Some Selected else lifecycle_status st k)"
  "lifecycle_status (record_action now Fix st) k = map_option (\<lambda>x. if x = Selected then Addressed else x) (lifecycle_status st k)"
  by (auto simp: lifecycle_status_def record_findings_def select_findings_def record_action_def or_default_def open_fold select_fold
        map_of_map_entries entry_status option.map_comp comp_def Let_def split: option.splits prod.splits)

definition escalation_ok :: "UltrafixEscalationState \<Rightarrow> bool" where
  "escalation_ok st =
     (es_modelIndex st < length (es_models st) \<and> es_climbs st \<le> es_maxReasoningLevels st \<and> es_stalledReviews st < max 1 (es_patience st))"

lemma next_model_index: "next_model res i ms = Some (j, c) \<Longrightarrow> i \<le> j \<and> j < i + length ms"
  by (induction res i ms rule: next_model.induct) (auto split: option.splits)

lemma advance_step:
  assumes "escalation_ok st"
  shows "escalation_ok (advanceEscalation res score st) \<and> es_modelIndex st \<le> es_modelIndex (advanceEscalation res score st)
    \<and> es_models (advanceEscalation res score st) = es_models st"
  using assms
  by (auto simp: escalation_ok_def advanceEscalation_def Let_def dest!: next_model_index split: option.splits if_splits)

lemma advance_best:
  "es_bestScore (advanceEscalation res score st) = Some (case es_bestScore st of None \<Rightarrow> score | Some b \<Rightarrow> max b score)"
  by (auto simp: advanceEscalation_def Let_def max_def split: option.splits if_splits)

lemma advance_not_exhausted [simp]: "\<not> es_exhausted (advanceEscalation res score st)"
  by (auto simp: advanceEscalation_def Let_def split: option.splits if_splits)

lemma escalation_best_mono: "es_bestScore st = Some b \<Longrightarrow> \<exists>c. es_bestScore (fold (advanceEscalation res) scores st) = Some c \<and> b \<le> c"
proof (induction scores arbitrary: st b)
  case (Cons x xs)
  have "es_bestScore (advanceEscalation res x st) = Some (max b x)" using Cons.prems by (simp add: advance_best)
  from Cons.IH [OF this] show ?case by auto
qed simp

lemma escalation_run:
  "escalation_ok st \<Longrightarrow> escalation_ok (fold (advanceEscalation res) scores st)
    \<and> es_modelIndex st \<le> es_modelIndex (fold (advanceEscalation res) scores st)
    \<and> es_models (fold (advanceEscalation res) scores st) = es_models st
    \<and> (\<forall>x \<in> set scores. \<exists>b. es_bestScore (fold (advanceEscalation res) scores st) = Some b \<and> x \<le> b)"
proof (induction scores arbitrary: st)
  case (Cons x xs)
  let ?st = "advanceEscalation res x st"
  obtain b where b: "es_bestScore ?st = Some b" "x \<le> b" by (auto simp: advance_best split: option.splits)
  from escalation_best_mono [OF b(1), of res xs] b(2)
  have "\<exists>c. es_bestScore (fold (advanceEscalation res) xs ?st) = Some c \<and> x \<le> c" by (auto intro: order_trans)
  with Cons.IH [of ?st] advance_step [OF Cons.prems, of res x] show ?case by auto
qed simp

lemma owned_update_superseded:
  assumes "current_epoch (mid s) \<noteq> e"
  shows "fst (owned_update f (Some e) mid s) = None" "snd (owned_update f (Some e) mid s) = s \<or> snd (owned_update f (Some e) mid s) = mid s"
  using assms by (auto simp: owned_update_def saveOwnedState_def epoch_functions epoch_scripts split: option.splits if_splits)

text \<open>The writes of a step to the state of its loop.\<close>

datatype loop_write =
    Write_action int UltrafixAction
  | Write_findings "finding list"
  | Write_selection "finding list"
  | Write_completion int completion string "rat option"

fun apply_write ::
  "loop_write \<Rightarrow> nat option \<Rightarrow> (('d, 'r) loop_store \<Rightarrow> ('d, 'r) loop_store) \<Rightarrow> ('d, 'r) loop_store \<Rightarrow> UltrafixLoopState option \<times> ('d, 'r) loop_store" where
  "apply_write (Write_action now action) we mid s = recordAction now action we mid s"
| "apply_write (Write_findings findings) we mid s = recordReviewFindings findings we mid s"
| "apply_write (Write_selection findings) we mid s = markFindingsSelected findings we mid s"
| "apply_write (Write_completion now status reason score) we mid s = completeLoop now status reason score we mid s"

text \<open>The inputs of the witnesses.\<close>

definition ex_store :: "(unit, unit) loop_store" where
  "ex_store = \<lparr>uf_epoch = Some 4, uf_state = None, uf_deferred = None, uf_retry = None, uf_takeover = Map.empty\<rparr>"

definition ex_options :: StartLoopOptions where
  "ex_options = \<lparr>so_owner = ''o'', so_repo = ''r'', so_pr = 7, so_goal = Some 9, so_maxCycles = Some 2, so_pauseSeconds = None,
     so_reviewModel = None, so_workEpoch = Some 4, so_sourceCommentId = None, so_instructions = None, so_userId = None\<rparr>"

definition ex_loop :: UltrafixLoopState where
  "ex_loop = (createDefaultState ex_options)\<lparr>lastAction := Some Review, lastActionTimestamp := Some 0\<rparr>"

definition ex_level :: "string \<Rightarrow> EscalationModel" where
  "ex_level m = \<lparr>em_model = m, em_levels = [''low'', ''high''], em_effort = Some ''low'', em_effortInModel = False\<rparr>"

definition ex_escalation :: UltrafixEscalationState where
  "ex_escalation = \<lparr>es_models = [''a'', ''b''], es_patience = 1, es_maxReasoningLevels = 1, es_modelIndex = 0, es_current = ex_level ''a'',
     es_climbs = 0, es_bestScore = Some 5, es_stalledReviews = 0, es_exhausted = False\<rparr>"

text \<open>
  C9: A started loop ends. Whatever the reviews report and whichever steps fail for good, after
  \<open>6 * max 1 maxCycles\<close> step jobs (three attempts for each of the \<open>maxCycles\<close> reviews and fixes) no further
  step is scheduled.
\<close>
theorem started_loop_ends:
  assumes "fst (startLoop now opts hasPendingReviews s) = Return (st, initialAction)"
    and "6 * max 1 (maxCycles st) \<le> int (length outs)"
  shows "run_loop outs (initialAction, st) = None"
proof (rule ccontr)
  assume "run_loop outs (initialAction, st) \<noteq> None"
  then obtain q where q: "run_loop outs (initialAction, st) = Some q" by auto
  from assms(1) have st: "st = (createDefaultState opts)\<lparr>lastAction := Some initialAction, lastActionTimestamp := Some now\<rparr>"
    by (auto simp: startLoop_def Let_def split: prod.splits if_splits)
  have "pending_ok (initialAction, st)" unfolding st by (rule start_pending_ok)
  from run_loop_bounded [OF this q] have "pending_ok q" "int (length outs) + jobs_left (snd q) \<le> jobs_left st" by auto
  with pending_jobs_left [of "fst q" "snd q"] assms(2) show False
    by (simp add: st start_jobs_left) (simp add: createDefaultState_def)
qed

theorem started_loop_ends_witness:
  "fst (startLoop 0 ex_options False ex_store) = Return (ex_loop, Review)
     \<and> run_loop (replicate 2 Step_failed) (Review, ex_loop) \<noteq> None \<and> run_loop (replicate 12 Step_failed) (Review, ex_loop) = None"
proof -
  have s: "fst (startLoop 0 ex_options False ex_store) = Return (ex_loop, Review)" by code_simp
  have n: "6 * max 1 (maxCycles ex_loop) \<le> int (length (replicate 12 Step_failed))" by code_simp
  have r: "run_loop (replicate 2 Step_failed) (Review, ex_loop) \<noteq> None" by code_simp
  from s r started_loop_ends [OF s n] show ?thesis by (intro conjI)
qed


text \<open>
  Escalation only climbs. Over any sequence of review scores the model index stays within the configured models and
  never falls back, the number of reasoning climbs stays within its limit, patience is never exceeded, and the best
  score is at least every score seen.
\<close>
theorem escalation_only_climbs:
  assumes "escalation_ok st" and "st' = fold (advanceEscalation resolveAvailableModel) scores st"
  shows "escalation_ok st' \<and> es_modelIndex st \<le> es_modelIndex st' \<and> es_models st' = es_models st
           \<and> (\<forall>x \<in> set scores. \<exists>b. es_bestScore st' = Some b \<and> x \<le> b)"
  using assms escalation_run [of st resolveAvailableModel scores] by simp

theorem escalation_only_climbs_witness:
  "escalation_ok (fold (advanceEscalation (\<lambda>m. Some (ex_level m))) [4, 5, 6] ex_escalation)
     \<and> es_modelIndex (fold (advanceEscalation (\<lambda>m. Some (ex_level m))) [4, 5, 6] ex_escalation) = 1"
proof -
  have ok: "escalation_ok ex_escalation" by code_simp
  have i: "es_modelIndex (fold (advanceEscalation (\<lambda>m. Some (ex_level m))) [4, 5, 6] ex_escalation) = 1" by code_simp
  from escalation_only_climbs [OF ok refl, of "\<lambda>m. Some (ex_level m)" "[4, 5, 6]"] i show ?thesis by (intro conjI) (rule conjunct1)
qed

text \<open>
  A superseded loop is inert. When the epoch has moved on by the time a step of the loop writes its action, its findings,
  its selection or its completion, the step is told so and the store stays as the others left it.
\<close>
theorem superseded_loop_is_inert:
  assumes "current_epoch (mid s) \<noteq> e"
  shows "fst (apply_write w (Some e) mid s) = None \<and> snd (apply_write w (Some e) mid s) \<in> {s, mid s}"
  using assms by (cases w) (simp_all add: owned_update_superseded recordAction_def recordReviewFindings_def markFindingsSelected_def completeLoop_def)

theorem superseded_loop_is_inert_witness:
  "fst (apply_write (Write_action 5 Review) (Some 4) (\<lambda>s. snd (invalidateUltrafixAutomaticWork s)) (ex_store\<lparr>uf_state := Some ex_loop\<rparr>)) = None"
proof -
  have e: "current_epoch (snd (invalidateUltrafixAutomaticWork (ex_store\<lparr>uf_state := Some ex_loop\<rparr>))) \<noteq> 4"
    by (simp add: ex_store_def epoch_functions epoch_scripts current_epoch_def incr_epoch_def)
  from superseded_loop_is_inert [of "\<lambda>s. snd (invalidateUltrafixAutomaticWork s)", OF e, of "Write_action 5 Review"] show ?thesis by (rule conjunct1)
qed

end
