(* ===== verification/Slash_Commands.thy ===== *)
theory Slash_Commands
  imports Prelude
begin

section \<open>Slash commands\<close>

text \<open>
  \<^verbatim>\<open>packages/core/src/webhook/slashCommandParser.ts\<close>: the first line of a pull request comment may be a command with
  arguments; the lines below it are instructions. Characters are those below U+0100, so of the line separators that the
  parser rejects among the arguments only the carriage return occurs. A whole number is an \<open>int\<close>; \<open>Number.isSafeInteger\<close>
  is written out.
\<close>

datatype SlashCommandName = Cmd_review | Cmd_fix | Cmd_merge | Cmd_switch | Cmd_use | Cmd_ultrafix

record ParsedSlashCommand =
  sc_command :: SlashCommandName
  sc_args :: "string list"
  sc_instructions :: string

record UltrafixCommandMeta =
  cm_workEpoch :: "nat option"
  cm_goal :: "int option"
  cm_maxCycles :: "int option"
  cm_pauseSeconds :: "int option"
  cm_reviewModel :: "string option"
  cm_instructions :: string
  cm_warning :: "string option"

text \<open>The meta data by mode: models, instructions and warnings as the interfaces name them.\<close>

datatype CommandMeta =
    Review_meta "string list" string
  | Fix_meta string string string
  | Merge_meta
  | Switch_meta "string list" string "string option"
  | Use_meta "string list" string "string option"
  | Ultrafix_meta UltrafixCommandMeta

definition SLASH_COMMANDS :: "(string \<times> SlashCommandName) list" where
  "SLASH_COMMANDS = [(''review'', Cmd_review), (''fix'', Cmd_fix), (''merge'', Cmd_merge), (''switch'', Cmd_switch), (''use'', Cmd_use),
     (''ultrafix'', Cmd_ultrafix)]"

definition newline :: char where "newline = CHR 10"

definition parseSlashCommand :: "string option \<Rightarrow> ParsedSlashCommand option" where
  "parseSlashCommand body =
     (let text = (case body of None \<Rightarrow> '''' | Some b \<Rightarrow> b);
          rawFirstLine = takeWhile (\<lambda>c. c \<noteq> newline) text;
          firstLineTrimmed = js_trim rawFirstLine;
          commandText = takeWhile (\<lambda>c. \<not> js_space c) (tl firstLineTrimmed);
          argsStr = js_trim (dropWhile (\<lambda>c. \<not> js_space c) (tl firstLineTrimmed));
          rest = js_trim (tl (dropWhile (\<lambda>c. c \<noteq> newline) text))
      in if text = '''' then None
         else if \<not> prefix ''/'' firstLineTrimmed then None
         else case map_of SLASH_COMMANDS commandText of
                None \<Rightarrow> None
              | Some command \<Rightarrow>
                  (if CHR 13 \<in> set argsStr then None
                   else Some \<lparr>sc_command = command, sc_args = js_words js_space argsStr, sc_instructions = rest\<rparr>))"

definition normalizeModelLabel :: "string \<Rightarrow> string" where
  "normalizeModelLabel label = (if prefix ''llm-'' label then drop 4 label else label)"

definition MAX_SAFE_INTEGER :: int where "MAX_SAFE_INTEGER = 2 ^ 53 - 1"

text \<open>\<open>/^-?\d+$/\<close>\<close>

definition integer_text :: "string \<Rightarrow> int option" where
  "integer_text value =
     (case signed value of (sign, digits) \<Rightarrow>
        if prefix ''+'' value \<or> digits = '''' \<or> \<not> list_all js_digit digits then None
        else Some (sign * int (js_number_of_digits digits)))"

definition parsePositiveInt :: "string \<Rightarrow> bool \<Rightarrow> int option" where
  "parsePositiveInt value allowZero =
     (case integer_text value of
        None \<Rightarrow> None
      | Some n \<Rightarrow>
          (if \<bar>n\<bar> > MAX_SAFE_INTEGER then None
           else if allowZero then (if n \<ge> 0 then Some n else None) else (if n > 0 then Some n else None)))"

definition ULTRAFIX_KNOWN_KEYS :: "string list" where
  "ULTRAFIX_KNOWN_KEYS = [''goal'', ''max'', ''pause'', ''model'']"

definition between_1_and_10 :: "int option \<Rightarrow> bool" where
  "between_1_and_10 n = (case n of None \<Rightarrow> False | Some i \<Rightarrow> 1 \<le> i \<and> i \<le> 10)"

definition quote1 :: "string \<Rightarrow> string" where
  "quote1 s = [CHR 39] @ s @ [CHR 39]"

definition applyUltrafixKeyValue :: "UltrafixCommandMeta \<Rightarrow> string \<Rightarrow> string \<Rightarrow> string option \<times> UltrafixCommandMeta" where
  "applyUltrafixKeyValue meta key value =
     (if key = ''goal'' then
        (let n = parsePositiveInt value False
         in if \<not> between_1_and_10 n then (Some (''goal must be an integer between 1 and 10, got '' @ quote1 value), meta)
            else (None, meta\<lparr>cm_goal := n\<rparr>))
      else if key = ''max'' then
        (case parsePositiveInt value False of
           None \<Rightarrow> (Some (''max must be a positive integer, got '' @ quote1 value), meta)
         | Some n \<Rightarrow> (if n < 1 then (Some (''max must be a positive integer, got '' @ quote1 value), meta) else (None, meta\<lparr>cm_maxCycles := Some n\<rparr>)))
      else if key = ''pause'' then
        (case parsePositiveInt value True of
           None \<Rightarrow> (Some (''pause must be a non-negative integer, got '' @ quote1 value), meta)
         | Some n \<Rightarrow> (None, meta\<lparr>cm_pauseSeconds := Some n\<rparr>))
      else if key = ''model'' then (None, meta\<lparr>cm_reviewModel := Some (normalizeModelLabel value)\<rparr>)
      else (None, meta))"

text \<open>One round of the loop over the arguments: the meta data, the warnings and whether a positional goal was seen.\<close>

definition ultrafix_arg ::
  "string \<Rightarrow> UltrafixCommandMeta \<times> string list \<times> bool \<Rightarrow> UltrafixCommandMeta \<times> string list \<times> bool" where
  "ultrafix_arg arg acc =
     (case acc of (meta, warnings, positionalGoalSet) \<Rightarrow>
        if CHR ''='' \<in> set arg then
          (let key = js_lower (takeWhile (\<lambda>c. c \<noteq> CHR ''='') arg); value = tl (dropWhile (\<lambda>c. c \<noteq> CHR ''='') arg)
           in if key \<in> set ULTRAFIX_KNOWN_KEYS then
                (case applyUltrafixKeyValue meta key value of
                   (err, meta') \<Rightarrow> (meta', warnings @ (case err of None \<Rightarrow> [] | Some e \<Rightarrow> [e]), positionalGoalSet))
              else (meta, warnings @ [''Unknown key '' @ quote1 key @ '' ignored''], positionalGoalSet))
        else if \<not> positionalGoalSet \<and> arg \<noteq> '''' \<and> list_all js_digit arg then
          (let n = parsePositiveInt arg False
           in if \<not> between_1_and_10 n
              then (meta, warnings @ [''Invalid positional goal '' @ quote1 arg @ ''; must be an integer between 1 and 10''], True)
              else (if cm_goal meta = None then meta\<lparr>cm_goal := n\<rparr> else meta, warnings, True))
        else (meta, warnings @ [''Extra argument '' @ quote1 arg @ '' ignored''], positionalGoalSet))"

definition no_ultrafix_options :: "string \<Rightarrow> UltrafixCommandMeta" where
  "no_ultrafix_options instructions = \<lparr>cm_workEpoch = None, cm_goal = None, cm_maxCycles = None, cm_pauseSeconds = None,
     cm_reviewModel = None, cm_instructions = instructions, cm_warning = None\<rparr>"

definition parseUltrafixArgs :: "ParsedSlashCommand \<Rightarrow> UltrafixCommandMeta" where
  "parseUltrafixArgs parsed =
     (case fold ultrafix_arg (sc_args parsed) (no_ultrafix_options (sc_instructions parsed), [], False) of
        (meta, warnings, _) \<Rightarrow> (if warnings \<noteq> [] then meta\<lparr>cm_warning := Some (js_join ''; '' warnings)\<rparr> else meta))"

definition single_model :: "ParsedSlashCommand \<Rightarrow> string list" where
  "single_model parsed = (case sc_args parsed of [] \<Rightarrow> [] | a # _ \<Rightarrow> [normalizeModelLabel a])"

definition extra_warning :: "string \<Rightarrow> ParsedSlashCommand \<Rightarrow> string option" where
  "extra_warning name parsed =
     (if length (sc_args parsed) > 1
      then Some (''/'' @ name @ '' accepts only one model argument; extra arguments were ignored: '' @ js_join '', '' (drop 1 (sc_args parsed)))
      else None)"

definition buildCommandMeta :: "ParsedSlashCommand \<Rightarrow> CommandMeta" where
  "buildCommandMeta parsed =
     (case sc_command parsed of
        Cmd_review \<Rightarrow> Review_meta (map normalizeModelLabel (sc_args parsed)) (sc_instructions parsed)
      | Cmd_fix \<Rightarrow>
          (let commandLine = js_join '' '' (sc_args parsed);
               parts = filter (\<lambda>s. s \<noteq> '''') [commandLine, sc_instructions parsed]
           in Fix_meta commandLine (sc_instructions parsed) (js_trim (js_join [newline] parts)))
      | Cmd_merge \<Rightarrow> Merge_meta
      | Cmd_switch \<Rightarrow> Switch_meta (single_model parsed) (sc_instructions parsed) (extra_warning ''switch'' parsed)
      | Cmd_use \<Rightarrow> Use_meta (single_model parsed) (sc_instructions parsed) (extra_warning ''use'' parsed)
      | Cmd_ultrafix \<Rightarrow> Ultrafix_meta (parseUltrafixArgs parsed))"

subsection \<open>Ranges of the options\<close>

definition options_in_range :: "UltrafixCommandMeta \<Rightarrow> bool" where
  "options_in_range m =
     ((case cm_goal m of None \<Rightarrow> True | Some g \<Rightarrow> 1 \<le> g \<and> g \<le> 10)
      \<and> (case cm_maxCycles m of None \<Rightarrow> True | Some n \<Rightarrow> 1 \<le> n \<and> n \<le> MAX_SAFE_INTEGER)
      \<and> (case cm_pauseSeconds m of None \<Rightarrow> True | Some n \<Rightarrow> 0 \<le> n \<and> n \<le> MAX_SAFE_INTEGER))"

lemma parsePositiveInt_range:
  "parsePositiveInt v z = Some n \<Longrightarrow> 0 \<le> n \<and> n \<le> MAX_SAFE_INTEGER \<and> (\<not> z \<longrightarrow> 1 \<le> n)"
  by (auto simp: parsePositiveInt_def split: option.splits if_splits)

lemma applyUltrafixKeyValue_range: "options_in_range m \<Longrightarrow> options_in_range (snd (applyUltrafixKeyValue m k v))"
  using parsePositiveInt_range [of v]
  by (auto simp: applyUltrafixKeyValue_def options_in_range_def between_1_and_10_def Let_def split: option.splits)

lemma ultrafix_arg_range: "options_in_range (fst acc) \<Longrightarrow> options_in_range (fst (ultrafix_arg a acc))"
  using applyUltrafixKeyValue_range [of "fst acc"]
  by (cases acc) (auto simp: ultrafix_arg_def Let_def split_beta options_in_range_def between_1_and_10_def split: option.splits)

lemma ultrafix_args_range: "options_in_range (fst acc) \<Longrightarrow> options_in_range (fst (fold ultrafix_arg as acc))"
  by (induction as arbitrary: acc) (simp_all add: ultrafix_arg_range)

text \<open>
  Whatever a comment says, the options an \<open>/ultrafix\<close> command is given are in range: a goal from 1 to 10, at least one cycle,
  a pause that is not negative, and no number beyond the safe integers.
\<close>
theorem ultrafix_options_in_range:
  assumes "parseSlashCommand body = Some parsed" "buildCommandMeta parsed = Ultrafix_meta m"
  shows "options_in_range m"
proof -
  have m: "m = parseUltrafixArgs parsed" using assms(2) by (simp add: buildCommandMeta_def Let_def split: SlashCommandName.splits)
  have "options_in_range (fst (fold ultrafix_arg (sc_args parsed) (no_ultrafix_options (sc_instructions parsed), [], False)))"
    by (rule ultrafix_args_range) (simp add: options_in_range_def no_ultrafix_options_def)
  then show ?thesis by (auto simp: m parseUltrafixArgs_def options_in_range_def split: prod.splits)
qed

definition ex_comment :: string where
  "ex_comment = ''/ultrafix 8 max=3 goal=99 pause=0'' @ [newline] @ ''keep it small''"

theorem ultrafix_options_in_range_witness:
  "\<exists>parsed m. parseSlashCommand (Some ex_comment) = Some parsed \<and> buildCommandMeta parsed = Ultrafix_meta m
     \<and> cm_goal m = Some 8 \<and> cm_maxCycles m = Some 3 \<and> cm_warning m \<noteq> None \<and> options_in_range m"
proof -
  let ?p = "the (parseSlashCommand (Some ex_comment))"
  have p: "parseSlashCommand (Some ex_comment) = Some ?p" by code_simp
  have m: "buildCommandMeta ?p = Ultrafix_meta (parseUltrafixArgs ?p)" by code_simp
  have v: "cm_goal (parseUltrafixArgs ?p) = Some 8" "cm_maxCycles (parseUltrafixArgs ?p) = Some 3" "cm_warning (parseUltrafixArgs ?p) \<noteq> None"
    by code_simp+
  from p m v ultrafix_options_in_range [OF p m] show ?thesis by blast
qed

subsection \<open>Writing and parsing a command\<close>

definition printSlashCommand :: "string \<Rightarrow> string list \<Rightarrow> string \<Rightarrow> string" where
  "printSlashCommand name args instructions = ''/'' @ name @ concat (map (\<lambda>a. '' '' @ a) args) @ [newline] @ instructions"

definition word :: "string \<Rightarrow> bool" where
  "word a = (a \<noteq> '''' \<and> list_all (\<lambda>c. \<not> js_space c) a)"

lemma space_chars [simp]: "js_space CHR '' ''" "js_space newline" "\<not> js_space CHR ''/''" "js_space CHR 13"
  by (simp_all add: js_space_def code_of_def newline_def)

lemma js_words_acc_word: "list_all (\<lambda>c. \<not> sep c) a \<Longrightarrow> js_words_acc sep acc (a @ t) = js_words_acc sep (rev a @ acc) t"
  by (induction a arbitrary: acc) auto

lemma js_words_concat:
  "\<forall>a \<in> set as. word a \<Longrightarrow> acc \<noteq> [] \<Longrightarrow> js_words_acc js_space acc (concat (map (\<lambda>a. '' '' @ a) as)) = rev acc # as"
proof (induction as arbitrary: acc)
  case (Cons a as)
  then have a: "a \<noteq> []" "list_all (\<lambda>c. \<not> js_space c) a" by (auto simp: word_def)
  then have "js_words_acc js_space [] (a @ concat (map (\<lambda>a. '' '' @ a) as)) = a # as"
    using Cons.IH [of "rev a"] Cons.prems by (simp add: js_words_acc_word)
  with Cons.prems show ?case by simp
qed simp

lemma js_words_args:
  assumes "word a" "\<forall>b \<in> set as. word b"
  shows "js_words js_space (a @ concat (map (\<lambda>a. '' '' @ a) as)) = a # as"
  using assms js_words_concat [of as "rev a"] by (simp add: js_words_def js_words_acc_word word_def)

lemma last_word: "word a \<Longrightarrow> \<not> js_space (last a)"
  by (auto simp: word_def list_all_iff)

lemma args_last: "as \<noteq> [] \<Longrightarrow> \<forall>a \<in> set as. word a \<Longrightarrow> \<not> js_space (last (concat (map (\<lambda>a. '' '' @ a) as)))"
  by (induction as rule: rev_induct) (auto simp: last_word word_def)

lemma trim_fixed: "s = [] \<or> \<not> js_space (hd s) \<and> \<not> js_space (last s) \<Longrightarrow> js_trim s = s"
  using dropWhile_eq_self_iff [of js_space s] dropWhile_eq_self_iff [of js_space "rev s"]
  by (auto simp: js_trim_def js_trim_start_def js_trim_end_def hd_rev)

lemma command_names:
  "map_of SLASH_COMMANDS name = Some cmd \<Longrightarrow> word name \<and> newline \<notin> set name"
  by (auto simp: SLASH_COMMANDS_def word_def js_space_def code_of_def newline_def split: if_splits)

lemma args_no_newline: "\<forall>a \<in> set as. word a \<Longrightarrow> newline \<notin> set (concat (map (\<lambda>a. '' '' @ a) as))"
  using space_chars(2) by (auto simp: word_def list_all_iff newline_def)

lemma args_no_return: "\<forall>a \<in> set as. word a \<Longrightarrow> CHR 13 \<notin> set (concat (map (\<lambda>a. '' '' @ a) as))"
  by (auto simp: word_def list_all_iff) (use space_chars(4) in blast)

lemma args_trim:
  assumes "\<forall>a \<in> set (a # as). word a"
  shows "js_trim (concat (map (\<lambda>a. '' '' @ a) (a # as))) = a @ concat (map (\<lambda>a. '' '' @ a) as)"
proof -
  have a: "a \<noteq> []" "\<not> js_space (hd a)" using assms by (auto simp: word_def list_all_iff)
  have "\<not> js_space (last (a @ concat (map (\<lambda>a. '' '' @ a) as)))"
    using assms args_last [of as] last_word [of a] by (cases as) auto
  with trim_fixed [of "a @ concat (map (\<lambda>a. '' '' @ a) as)"] a show ?thesis by (simp add: js_trim_def js_trim_start_def)
qed

text \<open>
  C33: A command that is written out is read back: for every known command, arguments without white space and instructions
  without white space around them, parsing gives exactly the command, the arguments and the instructions.
\<close>
theorem written_command_is_parsed:
  assumes name: "map_of SLASH_COMMANDS name = Some cmd" and args: "\<forall>a \<in> set args. word a" and instr: "js_trim instructions = instructions"
  shows "parseSlashCommand (Some (printSlashCommand name args instructions))
    = Some \<lparr>sc_command = cmd, sc_args = args, sc_instructions = instructions\<rparr>"
proof -
  define as where "as = concat (map (\<lambda>a. '' '' @ a) args)"
  have printed: "printSlashCommand name args instructions = CHR ''/'' # name @ as @ newline # instructions" by (simp add: printSlashCommand_def as_def)
  have w: "word name" "newline \<notin> set name" using command_names [OF name] by auto
  have nl: "newline \<noteq> CHR ''/''" by (simp add: newline_def)
  have first: "takeWhile (\<lambda>c. c \<noteq> newline) (printSlashCommand name args instructions) = CHR ''/'' # name @ as"
    "dropWhile (\<lambda>c. c \<noteq> newline) (printSlashCommand name args instructions) = newline # instructions"
    using w(2) args_no_newline [OF args] nl unfolding printed as_def [symmetric] by (auto simp: takeWhile_append dropWhile_append)
  have trimmed: "js_trim (CHR ''/'' # name @ as) = CHR ''/'' # name @ as"
    using w(1) args_last [OF _ args] last_word by (intro trim_fixed) (cases "args = []"; force simp: word_def as_def)
  have split: "takeWhile (\<lambda>c. \<not> js_space c) (name @ as) = name" "dropWhile (\<lambda>c. \<not> js_space c) (name @ as) = as"
    using w(1) by (cases args; auto simp: as_def word_def list_all_iff takeWhile_append dropWhile_append)+
  have words: "js_words js_space (js_trim as) = args \<and> CHR 13 \<notin> set (js_trim as)"
  proof (cases args)
    case (Cons a as)
    with args_trim [of a as] js_words_args [of a as] args args_no_return [of args] show ?thesis by (auto simp: as_def)
  qed (simp add: as_def js_trim_def js_trim_start_def js_trim_end_def js_words_def)
  show ?thesis
    by (simp add: parseSlashCommand_def Let_def first trimmed split words name instr) (simp add: printed)
qed

theorem written_command_is_parsed_witness:
  "parseSlashCommand (Some (printSlashCommand ''review'' [''llm-opus'', ''gpt''] ''be brief''))
    = Some \<lparr>sc_command = Cmd_review, sc_args = [''llm-opus'', ''gpt''], sc_instructions = ''be brief''\<rparr>"
proof -
  have "map_of SLASH_COMMANDS ''review'' = Some Cmd_review" "\<forall>a \<in> set [''llm-opus'', ''gpt'']. word a" "js_trim ''be brief'' = ''be brief''"
    by code_simp+
  then show ?thesis by (rule written_command_is_parsed)
qed

end
