(* ===== verification/Ultrafix_Resume.thy ===== *)
theory Ultrafix_Resume
  imports Ultrafix Leases Slash_Commands
begin

section \<open>Resuming Ultrafix loops\<close>

text \<open>
  A loop whose next step had to wait is resumed by whichever trigger comes first: a check run, a status event or the
  periodic sweep. This theory models what the triggers share in Redis: the per-PR resume claim and the passes
  under it (\<^verbatim>\<open>src/jobs/ultrafixResumeClaim.ts\<close>), the deferred records and retry obligations
  (\<^verbatim>\<open>ultrafixDeferredContinuationStore.ts\<close>), the claim of a deferred step and its recovery
  (\<^verbatim>\<open>ultrafixDeferredClaim.ts\<close>), the settlement of an attempt (\<^verbatim>\<open>ultrafixDeferredResume.ts\<close>), the step that failed
  for good (\<^verbatim>\<open>ultrafixFailedStep.ts\<close>) and the index of the sweep (\<^verbatim>\<open>ultrafixResumeIndex.ts\<close>).

  \<^item> The keys of one pull request are the record \<open>resume_store\<close>: those of \<open>Ultrafix_Epoch\<close>, the resume claim
    and the re-check request with their expiry in milliseconds, and whether the pull request is in the index.
  \<^item> A Lua script is one atomic step. Before every command the function \<open>re_others\<close> of the environment is applied, by
    the command's position: it is what the other processes do meanwhile, the expiry of the obligation and a failed
    update of the index included. \<open>re_now\<close> is the clock there.
  \<^item> Stored texts are the values themselves; the SHA-256 of a state is the argument \<open>digest\<close>.
\<close>

subsection \<open>Data\<close>

record UltrafixPrId =
  pid_owner :: string
  pid_repo :: string
  pid_pr :: nat

record UltrafixDeferredContinuation =
  df_owner :: string
  df_repo :: string
  df_pr :: nat
  df_nextAction :: UltrafixAction
  df_savedAt :: int
  df_reason :: string
  df_userId :: "string option"
  df_ultrafixMeta :: "UltrafixCommandMeta option"
  df_workEpoch :: "nat option"

record 'h UltrafixClaimedStep =
  cs_deferred :: UltrafixDeferredContinuation
  cs_stateDigest :: 'h

record 'h UltrafixRearmRetry =
  rr_owner :: string
  rr_repo :: string
  rr_pr :: nat
  rr_workEpoch :: nat
  rr_reason :: string
  rr_savedAt :: int
  rr_notBefore :: "int option"
  rr_claimedStep :: "'h UltrafixClaimedStep option"
  rr_failureVersion :: "nat option"

record 'h resume_store =
  rv_uf :: "(UltrafixLoopState, UltrafixDeferredContinuation, 'h UltrafixRearmRetry) uf_store"
  rv_keys :: redis_keys
  rv_indexed :: bool

record 'h resume_env =
  re_others :: "nat \<Rightarrow> 'h resume_store \<Rightarrow> 'h resume_store"
  re_now :: "nat \<Rightarrow> int"
  re_renew_fails :: "nat \<Rightarrow> bool"

subsection \<open>The resume claim\<close>

definition RESUME_CLAIM_KEY_PREFIX :: string where "RESUME_CLAIM_KEY_PREFIX = ''ultrafix:resume-claim''"
definition RESUME_RECHECK_KEY_PREFIX :: string where "RESUME_RECHECK_KEY_PREFIX = ''ultrafix:resume-recheck''"
definition RESUME_CLAIM_TTL_MS :: int where "RESUME_CLAIM_TTL_MS = 60000"
definition RESUME_RECHECK_TTL_MS :: int where "RESUME_RECHECK_TTL_MS = RESUME_CLAIM_TTL_MS * 2"
definition MAX_RESUME_PASSES :: nat where "MAX_RESUME_PASSES = 3"

definition getUltrafixResumeClaimKey :: "UltrafixPrId \<Rightarrow> string" where
  "getUltrafixResumeClaimKey i = RESUME_CLAIM_KEY_PREFIX @ '':'' @ pid_owner i @ '':'' @ pid_repo i @ '':'' @ show_nat (pid_pr i)"

definition getUltrafixResumeRecheckKey :: "UltrafixPrId \<Rightarrow> string" where
  "getUltrafixResumeRecheckKey i = RESUME_RECHECK_KEY_PREFIX @ '':'' @ pid_owner i @ '':'' @ pid_repo i @ '':'' @ show_nat (pid_pr i)"

definition RELEASE_RESUME_CLAIM_SCRIPT :: "int \<Rightarrow> string \<Rightarrow> string \<Rightarrow> redis_keys \<Rightarrow> nat \<times> redis_keys" where
  "RELEASE_RESUME_CLAIM_SCRIPT now key token s = (if redis_get now key s = Some token then (1, s(key := None)) else (0, s))"

definition RENEW_RESUME_CLAIM_SCRIPT :: "int \<Rightarrow> string \<Rightarrow> string \<Rightarrow> int \<Rightarrow> redis_keys \<Rightarrow> nat \<times> redis_keys" where
  "RENEW_RESUME_CLAIM_SCRIPT now key token ttlMs s =
     (if redis_get now key s = Some token then (1, redis_set_ex now key token ttlMs s) else (0, s))"

definition acquireResumeClaim :: "int \<Rightarrow> string \<Rightarrow> string \<Rightarrow> int \<Rightarrow> redis_keys \<Rightarrow> bool \<times> redis_keys" where
  "acquireResumeClaim now key token ttlMs s =
     (if redis_get now key s = None then (True, redis_set_ex now key token ttlMs s) else (False, s))"

definition releaseResumeClaim :: "int \<Rightarrow> string \<Rightarrow> string \<Rightarrow> redis_keys \<Rightarrow> bool \<times> redis_keys" where
  "releaseResumeClaim now key token s = succeeded (RELEASE_RESUME_CLAIM_SCRIPT now key token s)"

definition renewResumeClaim :: "int \<Rightarrow> string \<Rightarrow> string \<Rightarrow> int \<Rightarrow> redis_keys \<Rightarrow> bool \<times> redis_keys" where
  "renewResumeClaim now key token ttlMs s = succeeded (RENEW_RESUME_CLAIM_SCRIPT now key token ttlMs s)"

lemmas resume_claim_defs = acquireResumeClaim_def releaseResumeClaim_def renewResumeClaim_def RELEASE_RESUME_CLAIM_SCRIPT_def
  RENEW_RESUME_CLAIM_SCRIPT_def succeeded_def

text \<open>The resume claim is a lease, so what the locale proves of leases holds of it.\<close>

definition claim_owner :: "redis_keys \<Rightarrow> string \<Rightarrow> int \<Rightarrow> string option" where
  "claim_owner s key now = redis_get now key s"

interpretation resume_claim: lease claim_owner
  "\<lambda>now k t. acquireResumeClaim now k t RESUME_CLAIM_TTL_MS" "\<lambda>now k t. renewResumeClaim now k t RESUME_CLAIM_TTL_MS"
  releaseResumeClaim RESUME_CLAIM_TTL_MS
  by unfold_locales
    (auto simp: claim_owner_def resume_claim_defs redis_defs RESUME_CLAIM_TTL_MS_def fun_eq_iff split: option.splits if_splits prod.splits)

subsection \<open>Retry obligations\<close>

definition REARM_RETRY_KEY_PREFIX :: string where "REARM_RETRY_KEY_PREFIX = ''ultrafix:rearm-retry''"

definition getUltrafixRearmRetryKey :: "UltrafixPrId \<Rightarrow> string" where
  "getUltrafixRearmRetryKey i = REARM_RETRY_KEY_PREFIX @ '':'' @ pid_owner i @ '':'' @ pid_repo i @ '':'' @ show_nat (pid_pr i)"

definition deferred_epoch :: "UltrafixDeferredContinuation \<Rightarrow> nat" where
  "deferred_epoch d = (case df_workEpoch d of Some e \<Rightarrow> e
     | None \<Rightarrow> (case df_ultrafixMeta d of Some m \<Rightarrow> or_default (cm_workEpoch m) 0 | None \<Rightarrow> 0))"

definition indexUltrafixResumeCandidate :: "'h resume_store \<Rightarrow> 'h resume_store" where
  "indexUltrafixResumeCandidate s = s\<lparr>rv_indexed := True\<rparr>"

definition pruneUltrafixResumeCandidate :: "'h resume_store \<Rightarrow> bool \<times> 'h resume_store" where
  "pruneUltrafixResumeCandidate s =
     (if uf_deferred (rv_uf s) = None \<and> uf_retry (rv_uf s) = None then (rv_indexed s, s\<lparr>rv_indexed := False\<rparr>) else (False, s))"

definition saveDeferredContinuation :: "UltrafixDeferredContinuation \<Rightarrow> 'h resume_store \<Rightarrow> bool \<times> 'h resume_store" where
  "saveDeferredContinuation d s =
     (case saveDeferredContinuationIfCurrent (deferred_epoch d) d (rv_uf s) of
        (saved, u) \<Rightarrow> (saved, if saved then indexUltrafixResumeCandidate (s\<lparr>rv_uf := u\<rparr>) else s\<lparr>rv_uf := u\<rparr>))"

definition loadDeferredContinuation :: "'h resume_store \<Rightarrow> UltrafixDeferredContinuation option" where
  "loadDeferredContinuation s = uf_deferred (rv_uf s)"

definition claimDeferredContinuation :: "'h resume_store \<Rightarrow> UltrafixDeferredContinuation option \<times> 'h resume_store" where
  "claimDeferredContinuation s = (uf_deferred (rv_uf s), s\<lparr>rv_uf := (rv_uf s)\<lparr>uf_deferred := None\<rparr>\<rparr>)"

definition claimDeferredContinuationIfUnchanged :: "UltrafixDeferredContinuation \<Rightarrow> 'h resume_store \<Rightarrow> bool \<times> 'h resume_store" where
  "claimDeferredContinuationIfUnchanged expected s =
     (if uf_deferred (rv_uf s) = Some expected then (True, s\<lparr>rv_uf := (rv_uf s)\<lparr>uf_deferred := None\<rparr>\<rparr>) else (False, s))"

definition loadRearmRetryRaw :: "'h resume_store \<Rightarrow> 'h UltrafixRearmRetry option" where
  "loadRearmRetryRaw s = uf_retry (rv_uf s)"

datatype RearmRetryClearOutcome = Cleared | Claim_not_held | Superseded | Retry_changed
datatype RearmRetrySaveOutcome = Saved | Claim_taken | Obligation_changed

text \<open>An expected obligation: \<open>None\<close> places no condition, \<open>Some None\<close> expects that there is none.\<close>

type_synonym 'h ExpectedRearmRetry = "'h UltrafixRearmRetry option option"

definition CLEAR_REARM_RETRY_IF_CLAIM_HELD_SCRIPT ::
  "int \<Rightarrow> string \<Rightarrow> string \<Rightarrow> nat option \<Rightarrow> 'h ExpectedRearmRetry \<Rightarrow> 'h resume_store \<Rightarrow> int \<times> 'h resume_store" where
  "CLEAR_REARM_RETRY_IF_CLAIM_HELD_SCRIPT now claimKey token we raw s =
     (if redis_get now claimKey (rv_keys s) \<noteq> Some token then (0, s)
      else if we \<noteq> None \<and> Some (current_epoch (rv_uf s)) \<noteq> we then (- 1, s)
      else if raw \<noteq> None \<and> Some (uf_retry (rv_uf s)) \<noteq> raw then (- 2, s)
      else (1, s\<lparr>rv_uf := (rv_uf s)\<lparr>uf_retry := None\<rparr>\<rparr>))"

definition SAVE_REARM_RETRY_UNLESS_CLAIM_TAKEN_SCRIPT ::
  "int \<Rightarrow> string \<Rightarrow> string \<Rightarrow> 'h UltrafixRearmRetry \<Rightarrow> 'h ExpectedRearmRetry \<Rightarrow> 'h resume_store \<Rightarrow> int \<times> 'h resume_store" where
  "SAVE_REARM_RETRY_UNLESS_CLAIM_TAKEN_SCRIPT now claimKey token retry raw s =
     (if (case redis_get now claimKey (rv_keys s) of None \<Rightarrow> False | Some holder \<Rightarrow> holder \<noteq> token) then (0, s)
      else if raw \<noteq> None \<and> Some (uf_retry (rv_uf s)) \<noteq> raw then (- 2, s)
      else (1, s\<lparr>rv_uf := (rv_uf s)\<lparr>uf_retry := Some retry\<rparr>\<rparr>))"

definition clearRearmRetryIfClaimHeld ::
  "int \<Rightarrow> string \<Rightarrow> string \<Rightarrow> nat option \<Rightarrow> 'h ExpectedRearmRetry \<Rightarrow> 'h resume_store \<Rightarrow> RearmRetryClearOutcome \<times> 'h resume_store" where
  "clearRearmRetryIfClaimHeld now claimKey token we raw s =
     (case CLEAR_REARM_RETRY_IF_CLAIM_HELD_SCRIPT now claimKey token we raw s of (cleared, s') \<Rightarrow>
        (if cleared = 1 then Cleared else if cleared = - 2 then Retry_changed else if cleared = - 1 then Superseded else Claim_not_held, s'))"

definition saveRearmRetryUnlessClaimTaken ::
  "int \<Rightarrow> string \<Rightarrow> string \<Rightarrow> 'h UltrafixRearmRetry \<Rightarrow> 'h ExpectedRearmRetry \<Rightarrow> 'h resume_store \<Rightarrow> RearmRetrySaveOutcome \<times> 'h resume_store" where
  "saveRearmRetryUnlessClaimTaken now claimKey token retry raw s =
     (case SAVE_REARM_RETRY_UNLESS_CLAIM_TAKEN_SCRIPT now claimKey token retry raw s of (saved, s') \<Rightarrow>
        (if saved = - 2 then (Obligation_changed, s')
         else if saved \<noteq> 1 then (Claim_taken, s')
         else (Saved, indexUltrafixResumeCandidate s')))"

subsection \<open>A held claim\<close>

text \<open>The object that \<open>runWithHeldClaim\<close> hands to its operation: its token, whether the claim was lost, the obligation last known.\<close>

record 'h ResumeClaim =
  cl_key :: string
  cl_token :: string
  cl_lost :: bool
  cl_known :: "'h UltrafixRearmRetry option"

definition confirm :: "bool \<Rightarrow> int \<Rightarrow> 'h ResumeClaim \<Rightarrow> 'h resume_store \<Rightarrow> bool \<times> 'h ResumeClaim \<times> 'h resume_store" where
  "confirm fails now c s =
     (if cl_lost c then (False, c, s)
      else if fails then (False, c\<lparr>cl_lost := True\<rparr>, s)
      else case renewResumeClaim now (cl_key c) (cl_token c) RESUME_CLAIM_TTL_MS (rv_keys s) of
             (renewed, ks) \<Rightarrow> (renewed, c\<lparr>cl_lost := \<not> renewed\<rparr>, s\<lparr>rv_keys := ks\<rparr>))"

definition clearRetry ::
  "int \<Rightarrow> nat option \<Rightarrow> 'h ExpectedRearmRetry \<Rightarrow> 'h ResumeClaim \<Rightarrow> 'h resume_store
     \<Rightarrow> RearmRetryClearOutcome \<times> 'h ResumeClaim \<times> 'h resume_store" where
  "clearRetry now we raw c s =
     (case clearRearmRetryIfClaimHeld now (cl_key c) (cl_token c) we (if raw = None then Some (cl_known c) else raw) s of
        (outcome, s') \<Rightarrow> (outcome, if outcome = Cleared then c\<lparr>cl_known := None\<rparr> else c, s'))"

definition replaceRetry ::
  "int \<Rightarrow> 'h UltrafixRearmRetry \<Rightarrow> 'h ExpectedRearmRetry \<Rightarrow> 'h ResumeClaim \<Rightarrow> 'h resume_store
     \<Rightarrow> RearmRetrySaveOutcome \<times> 'h ResumeClaim \<times> 'h resume_store" where
  "replaceRetry now retry expectedRaw c s =
     (case saveRearmRetryUnlessClaimTaken now (cl_key c) (cl_token c) retry expectedRaw s of
        (saved, s') \<Rightarrow> (saved, if saved = Saved then c\<lparr>cl_known := Some retry\<rparr> else c, s'))"

definition saveRetry ::
  "int \<Rightarrow> 'h UltrafixRearmRetry \<Rightarrow> 'h ResumeClaim \<Rightarrow> 'h resume_store \<Rightarrow> bool \<times> 'h ResumeClaim \<times> 'h resume_store" where
  "saveRetry now retry c s = (case replaceRetry now retry None c s of (saved, c', s') \<Rightarrow> (saved = Saved, c', s'))"

subsection \<open>Claiming a deferred step\<close>

definition DEFERRED_CLAIM_RETRY_REASON :: string where "DEFERRED_CLAIM_RETRY_REASON = ''deferred_claim_pending''"
definition MAX_CLAIM_ATTEMPTS :: nat where "MAX_CLAIM_ATTEMPTS = 3"

datatype DeferredStepClaim = Claimed_step UltrafixDeferredContinuation | No_step | Claim_lost | Claim_contended

definition claim_obligation ::
  "(UltrafixLoopState \<Rightarrow> 'h) \<Rightarrow> UltrafixPrId \<Rightarrow> int \<Rightarrow> nat \<Rightarrow> UltrafixLoopState option \<Rightarrow> UltrafixDeferredContinuation \<Rightarrow> 'h UltrafixRearmRetry" where
  "claim_obligation digest i now we snapshot d =
     \<lparr>rr_owner = pid_owner i, rr_repo = pid_repo i, rr_pr = pid_pr i, rr_workEpoch = we, rr_reason = DEFERRED_CLAIM_RETRY_REASON,
      rr_savedAt = now, rr_notBefore = None,
      rr_claimedStep = map_option (\<lambda>st. \<lparr>cs_deferred = d, cs_stateDigest = digest st\<rparr>) snapshot, rr_failureVersion = None\<rparr>"

text \<open>One attempt reads the record, the state and the epoch, saves the obligation and removes the record: five commands.\<close>

fun claim_attempts ::
  "'h resume_env \<Rightarrow> (UltrafixLoopState \<Rightarrow> 'h) \<Rightarrow> UltrafixPrId \<Rightarrow> nat \<Rightarrow> nat \<Rightarrow> 'h ResumeClaim \<Rightarrow> 'h resume_store
     \<Rightarrow> DeferredStepClaim \<times> 'h ResumeClaim \<times> 'h resume_store" where
  "claim_attempts e digest i 0 p c s = (Claim_contended, c, s)"
| "claim_attempts e digest i (Suc n) p c s =
     (let s1 = re_others e p s
      in case loadDeferredContinuation s1 of
           None \<Rightarrow> (No_step, c, s1)
         | Some pending \<Rightarrow>
             (let s2 = re_others e (p + 1) s1;
                  s3 = re_others e (p + 2) s2;
                  retry = claim_obligation digest i (re_now e (p + 2)) (getUltrafixAutomaticWorkEpoch (rv_uf s3)) (uf_state (rv_uf s2)) pending
              in case saveRetry (re_now e (p + 3)) retry c (re_others e (p + 3) s3) of
                   (saved, c1, s4) \<Rightarrow>
                     (if \<not> saved then (Claim_lost, c1, s4)
                      else case claimDeferredContinuationIfUnchanged pending (re_others e (p + 4) s4) of
                             (claimed, s5) \<Rightarrow>
                               (if claimed then (Claimed_step pending, c1, s5) else claim_attempts e digest i n (p + 5) c1 s5))))"

definition claimDeferredStep ::
  "'h resume_env \<Rightarrow> (UltrafixLoopState \<Rightarrow> 'h) \<Rightarrow> UltrafixPrId \<Rightarrow> nat \<Rightarrow> 'h ResumeClaim \<Rightarrow> 'h resume_store
     \<Rightarrow> DeferredStepClaim \<times> 'h ResumeClaim \<times> 'h resume_store" where
  "claimDeferredStep e digest i p c s = claim_attempts e digest i MAX_CLAIM_ATTEMPTS p c s"

text \<open>Four commands: the obligation, the state, the renewal of the claim and the restoring script.\<close>

definition restoreInterruptedClaim ::
  "'h resume_env \<Rightarrow> (UltrafixLoopState \<Rightarrow> 'h) \<Rightarrow> nat \<Rightarrow> 'h ResumeClaim \<Rightarrow> 'h resume_store \<Rightarrow> bool \<times> 'h ResumeClaim \<times> 'h resume_store" where
  "restoreInterruptedClaim e digest p c s =
     (let s1 = re_others e p s
      in case Option.bind (loadRearmRetryRaw s1) rr_claimedStep of
           None \<Rightarrow> (False, c, s1)
         | Some step \<Rightarrow>
             (let s2 = re_others e (p + 1) s1
              in case uf_state (rv_uf s2) of
                   None \<Rightarrow> (False, c, s2)
                 | Some raw \<Rightarrow>
                     (if digest raw \<noteq> cs_stateDigest step then (False, c, s2)
                      else case confirm (re_renew_fails e (p + 2)) (re_now e (p + 2)) c (re_others e (p + 2) s2) of
                             (ok, c1, s3) \<Rightarrow>
                               (if \<not> ok then (False, c1, s3)
                                else let s4 = re_others e (p + 3) s3
                                     in case restoreDeferredContinuationIfUnchanged (deferred_epoch (cs_deferred step)) raw (cs_deferred step) (rv_uf s4) of
                                          (restored, u) \<Rightarrow>
                                            (restored, c1, if restored then indexUltrafixResumeCandidate (s4\<lparr>rv_uf := u\<rparr>) else s4\<lparr>rv_uf := u\<rparr>)))))"

definition findPendingClaimedStep ::
  "'h resume_env \<Rightarrow> (UltrafixLoopState \<Rightarrow> 'h) \<Rightarrow> nat \<Rightarrow> 'h UltrafixRearmRetry option \<Rightarrow> 'h resume_store
     \<Rightarrow> 'h UltrafixClaimedStep option \<times> 'h resume_store" where
  "findPendingClaimedStep e digest p retryRaw s =
     (case Option.bind retryRaw rr_claimedStep of
        None \<Rightarrow> (None, s)
      | Some step \<Rightarrow>
          (let s1 = re_others e p s
           in if loadDeferredContinuation s1 \<noteq> None then (None, s1)
              else let s2 = re_others e (p + 1) s1
                   in if getUltrafixAutomaticWorkEpoch (rv_uf s2) \<noteq> deferred_epoch (cs_deferred step) then (None, s2)
                      else let s3 = re_others e (p + 2) s2
                           in case uf_state (rv_uf s3) of
                                None \<Rightarrow> (None, s3)
                              | Some raw \<Rightarrow> (if digest raw = cs_stateDigest step then Some step else None, s3)))"

subsection \<open>A step that failed for good\<close>

definition FAILED_STEP_RETRY_REASON :: string where "FAILED_STEP_RETRY_REASON = ''step_job_failed''"
definition MAX_RECORD_ATTEMPTS :: nat where "MAX_RECORD_ATTEMPTS = 3"

definition RECORD_FAILED_STEP_SCRIPT ::
  "nat \<Rightarrow> UltrafixLoopState \<Rightarrow> UltrafixLoopState \<Rightarrow> 'h UltrafixRearmRetry option \<Rightarrow> 'h UltrafixRearmRetry \<Rightarrow> 'h resume_store
     \<Rightarrow> nat \<times> 'h resume_store" where
  "RECORD_FAILED_STEP_SCRIPT we snapshot st existing retry s =
     (if current_epoch (rv_uf s) \<noteq> we then (0, s)
      else if uf_state (rv_uf s) \<noteq> Some snapshot then (0, s)
      else if uf_retry (rv_uf s) \<noteq> existing then (0, s)
      else (1, s\<lparr>rv_uf := (rv_uf s)\<lparr>uf_state := Some st, uf_retry := Some retry\<rparr>\<rparr>))"

definition failure_obligation :: "UltrafixPrId \<Rightarrow> int \<Rightarrow> nat \<Rightarrow> 'h UltrafixRearmRetry option \<Rightarrow> 'h UltrafixRearmRetry" where
  "failure_obligation i now we existing =
     \<lparr>rr_owner = pid_owner i, rr_repo = pid_repo i, rr_pr = pid_pr i, rr_workEpoch = we, rr_reason = FAILED_STEP_RETRY_REASON,
      rr_savedAt = now, rr_notBefore = None, rr_claimedStep = Option.bind existing rr_claimedStep,
      rr_failureVersion = Some (or_default (Option.bind existing rr_failureVersion) 0 + 1)\<rparr>"

fun record_failed_attempts :: "'h resume_env \<Rightarrow> UltrafixPrId \<Rightarrow> nat \<Rightarrow> nat \<Rightarrow> nat \<Rightarrow> 'h resume_store \<Rightarrow> bool \<times> 'h resume_store" where
  "record_failed_attempts e i we 0 p s = (False, s)"
| "record_failed_attempts e i we (Suc n) p s =
     (let s1 = re_others e p s
      in case uf_state (rv_uf s1) of
           None \<Rightarrow> (False, s1)
         | Some snapshot \<Rightarrow>
             (if \<not> uf_active snapshot \<or> or_default (workEpoch snapshot) 0 \<noteq> we then (False, s1)
              else let s2 = re_others e (p + 1) s1
                   in if getUltrafixAutomaticWorkEpoch (rv_uf s2) \<noteq> we then (False, s2)
                      else let s3 = re_others e (p + 2) s2; existing = loadRearmRetryRaw s3
                           in case RECORD_FAILED_STEP_SCRIPT we snapshot (recordFailedStepInState snapshot) existing
                                     (failure_obligation i (re_now e (p + 2)) we existing) (re_others e (p + 3) s3) of
                                (recorded, s4) \<Rightarrow>
                                  (if recorded = 1 then (True, indexUltrafixResumeCandidate s4)
                                   else record_failed_attempts e i we n (p + 4) s4)))"

text \<open>The job's epoch; \<open>None\<close> when the job has no Ultrafix meta data or does not name a pull request.\<close>

definition recordFailedUltrafixStep ::
  "'h resume_env \<Rightarrow> (UltrafixPrId \<times> nat option) option \<Rightarrow> nat \<Rightarrow> 'h resume_store \<Rightarrow> bool \<times> 'h resume_store" where
  "recordFailedUltrafixStep e job p s =
     (case job of None \<Rightarrow> (False, s) | Some (i, we) \<Rightarrow> record_failed_attempts e i (or_default we 0) MAX_RECORD_ATTEMPTS p s)"

subsection \<open>Results and settlement\<close>

datatype loop_outcome = Goal_reached_outcome | Cycles_exhausted_outcome | Stopped_outcome | Failed_outcome

record ContinuationResult =
  cr_continued :: bool
  cr_reason :: string
  cr_nextAction :: "UltrafixAction option"
  cr_score :: "rat option"
  cr_cycleCount :: "int option"
  cr_deferred :: bool
  cr_outcome :: "loop_outcome option"
  cr_goal :: "rat option"
  cr_maxCycles :: "int option"
  cr_blockingChecks :: "string list option"
  cr_retryDelayMs :: "int option"
  cr_workEpoch :: "nat option"

definition not_continued :: "string \<Rightarrow> ContinuationResult" where
  "not_continued reason = \<lparr>cr_continued = False, cr_reason = reason, cr_nextAction = None, cr_score = None, cr_cycleCount = None,
     cr_deferred = False, cr_outcome = None, cr_goal = None, cr_maxCycles = None, cr_blockingChecks = None, cr_retryDelayMs = None,
     cr_workEpoch = None\<rparr>"

definition RESUME_CLAIM_LOST_REASON :: string where "RESUME_CLAIM_LOST_REASON = ''resume_claim_lost''"
definition DEFERRED_CLAIM_CONTENDED_REASON :: string where "DEFERRED_CLAIM_CONTENDED_REASON = ''deferred_claim_contended''"
definition MAX_RETRY_REPLACE_ATTEMPTS :: nat where "MAX_RETRY_REPLACE_ATTEMPTS = 3"

definition leavesLoopWaiting :: "string \<Rightarrow> bool" where
  "leavesLoopWaiting reason =
     (prefix ''rearm_not_ready'' reason \<or> prefix ''resume_failed'' reason \<or> reason = ''deferred_cancelled''
      \<or> reason = ''ultrafix_superseded'' \<or> reason = DEFERRED_CLAIM_CONTENDED_REASON \<or> reason = RESUME_CLAIM_LOST_REASON)"

text \<open>\<open>settled.retryDelayMs\<close> is falsy when it is absent or zero.\<close>

definition settled_obligation ::
  "UltrafixPrId \<Rightarrow> int \<Rightarrow> nat \<Rightarrow> ContinuationResult \<Rightarrow> 'h UltrafixClaimedStep option \<Rightarrow> 'h UltrafixRearmRetry" where
  "settled_obligation i now we settled step =
     \<lparr>rr_owner = pid_owner i, rr_repo = pid_repo i, rr_pr = pid_pr i, rr_workEpoch = we, rr_reason = cr_reason settled,
      rr_savedAt = now,
      rr_notBefore = (case cr_retryDelayMs settled of None \<Rightarrow> None | Some d \<Rightarrow> (if d = 0 then None else Some (now + d))),
      rr_claimedStep = step, rr_failureVersion = None\<rparr>"

text \<open>One attempt reads the obligation, the claimed step's standing and the epoch, and replaces the obligation.\<close>

fun replace_attempts ::
  "'h resume_env \<Rightarrow> (UltrafixLoopState \<Rightarrow> 'h) \<Rightarrow> UltrafixPrId \<Rightarrow> ContinuationResult \<Rightarrow> nat \<Rightarrow> nat \<Rightarrow> 'h ResumeClaim \<Rightarrow> 'h resume_store
     \<Rightarrow> bool \<times> 'h ResumeClaim \<times> 'h resume_store" where
  "replace_attempts e digest i settled 0 p c s = (False, c, s)"
| "replace_attempts e digest i settled (Suc n) p c s =
     (let s1 = re_others e p s; current = loadRearmRetryRaw s1
      in case findPendingClaimedStep e digest (p + 1) current s1 of
           (step, s2) \<Rightarrow>
             (let s3 = re_others e (p + 4) s2;
                  retry = settled_obligation i (re_now e (p + 4)) (getUltrafixAutomaticWorkEpoch (rv_uf s3)) settled step
              in case replaceRetry (re_now e (p + 5)) retry (Some current) c (re_others e (p + 5) s3) of
                   (saved, c1, s4) \<Rightarrow>
                     (if saved \<noteq> Obligation_changed then (saved = Saved, c1, s4)
                      else replace_attempts e digest i settled n (p + 6) c1 s4)))"

definition recordUnsettledRetry ::
  "'h resume_env \<Rightarrow> (UltrafixLoopState \<Rightarrow> 'h) \<Rightarrow> UltrafixPrId \<Rightarrow> ContinuationResult \<Rightarrow> nat \<Rightarrow> 'h ResumeClaim \<Rightarrow> 'h resume_store
     \<Rightarrow> bool \<times> 'h ResumeClaim \<times> 'h resume_store" where
  "recordUnsettledRetry e digest i settled p c s = replace_attempts e digest i settled MAX_RETRY_REPLACE_ATTEMPTS p c s"

definition settleRearmRetry ::
  "'h resume_env \<Rightarrow> (UltrafixLoopState \<Rightarrow> 'h) \<Rightarrow> UltrafixPrId \<Rightarrow> ContinuationResult \<Rightarrow> nat \<Rightarrow> 'h ResumeClaim \<Rightarrow> 'h resume_store
     \<Rightarrow> ContinuationResult \<times> 'h ResumeClaim \<times> 'h resume_store" where
  "settleRearmRetry e digest i result p c s =
     (let unsettled = (\<lambda>settled c s. case recordUnsettledRetry e digest i settled (p + 1) c s of (_, c', s') \<Rightarrow> (settled, c', s'))
      in if leavesLoopWaiting (cr_reason result) then unsettled result c s
         else case clearRetry (re_now e p) (cr_workEpoch result) None c (re_others e p s) of
                (cleared, c1, s1) \<Rightarrow>
                  (if cleared \<noteq> Superseded then (result, c1, s1)
                   else unsettled ((not_continued ''ultrafix_superseded'')\<lparr>cr_cycleCount := cr_cycleCount result\<rparr>) c1 s1))"

subsection \<open>Passes under the claim\<close>

text \<open>Hand a stranded loop to a freshly reserved epoch.\<close>

definition reserveStateWorkEpoch :: "UltrafixLoopState \<Rightarrow> nat \<Rightarrow> 'h resume_store \<Rightarrow> UltrafixLoopState option \<times> 'h resume_store" where
  "reserveStateWorkEpoch snapshot currentEpoch s =
     (case reserveEpochAndReplaceStateIfUnchanged currentEpoch snapshot (\<lambda>reserved. snapshot\<lparr>workEpoch := Some reserved\<rparr>) (rv_uf s) of
        (reserved, u) \<Rightarrow> (map_option (\<lambda>e. snapshot\<lparr>workEpoch := Some e\<rparr>) reserved, s\<lparr>rv_uf := u\<rparr>))"

text \<open>Is there anything to resume? Four reads.\<close>

definition hasUltrafixResumeCandidate :: "'h resume_env \<Rightarrow> bool \<Rightarrow> nat \<Rightarrow> 'h resume_store \<Rightarrow> bool \<times> 'h resume_store" where
  "hasUltrafixResumeCandidate e honourRetryBackoff p s =
     (let s1 = re_others e p s
      in if loadDeferredContinuation s1 \<noteq> None then (True, s1)
         else let s2 = re_others e (p + 1) s1
              in case loadState (rv_uf s2) of
                   None \<Rightarrow> (False, s2)
                 | Some st \<Rightarrow>
                     (if evaluateStrandedLoopRearm (Some st) = Skip_rearm then (False, s2)
                      else let s3 = re_others e (p + 2) s2
                           in if or_default (workEpoch st) 0 \<noteq> getUltrafixAutomaticWorkEpoch (rv_uf s3) then (True, s3)
                              else let s4 = re_others e (p + 3) s3
                                   in case loadRearmRetryRaw s4 of
                                        None \<Rightarrow> (False, s4)
                                      | Some retry \<Rightarrow>
                                          (\<not> honourRetryBackoff
                                             \<or> (case rr_notBefore retry of None \<Rightarrow> True | Some t \<Rightarrow> t \<le> re_now e (p + 3)), s4)))"

definition set_recheck :: "int \<Rightarrow> UltrafixPrId \<Rightarrow> 'h resume_store \<Rightarrow> 'h resume_store" where
  "set_recheck now i s = s\<lparr>rv_keys := redis_set_ex now (getUltrafixResumeRecheckKey i) ''1'' RESUME_RECHECK_TTL_MS (rv_keys s)\<rparr>"

definition take_claim :: "int \<Rightarrow> UltrafixPrId \<Rightarrow> string \<Rightarrow> 'h resume_store \<Rightarrow> bool \<times> 'h resume_store" where
  "take_claim now i token s =
     (case acquireResumeClaim now (getUltrafixResumeClaimKey i) token RESUME_CLAIM_TTL_MS (rv_keys s) of (ok, ks) \<Rightarrow> (ok, s\<lparr>rv_keys := ks\<rparr>))"

definition drop_claim :: "int \<Rightarrow> UltrafixPrId \<Rightarrow> string \<Rightarrow> 'h resume_store \<Rightarrow> 'h resume_store" where
  "drop_claim now i token s = s\<lparr>rv_keys := snd (releaseResumeClaim now (getUltrafixResumeClaimKey i) token (rv_keys s))\<rparr>"

text \<open>Up to four commands: the claim, the request, the claim again, and the removal of the request.\<close>

definition acquireOrRequestRecheck :: "'h resume_env \<Rightarrow> UltrafixPrId \<Rightarrow> string \<Rightarrow> nat \<Rightarrow> 'h resume_store \<Rightarrow> bool \<times> 'h resume_store" where
  "acquireOrRequestRecheck e i token p s =
     (case take_claim (re_now e p) i token (re_others e p s) of
        (ok, s1) \<Rightarrow>
          (case (if ok then (True, s1)
                 else take_claim (re_now e (p + 2)) i token (re_others e (p + 2) (set_recheck (re_now e (p + 1)) i (re_others e (p + 1) s1)))) of
             (ok', s2) \<Rightarrow>
               (if \<not> ok' then (False, s2)
                else (True, (re_others e (p + 3) s2)\<lparr>rv_keys := (rv_keys (re_others e (p + 3) s2))(getUltrafixResumeRecheckKey i := None)\<rparr>))))"

type_synonym 'h operation = "nat \<Rightarrow> 'h ResumeClaim \<Rightarrow> 'h resume_store \<Rightarrow> ContinuationResult result \<times> 'h resume_store"

definition runWithHeldClaim ::
  "'h resume_env \<Rightarrow> UltrafixPrId \<Rightarrow> string \<Rightarrow> 'h operation \<Rightarrow> nat \<Rightarrow> 'h resume_store \<Rightarrow> ContinuationResult result \<times> 'h resume_store" where
  "runWithHeldClaim e i token operation p s =
     (let s1 = re_others e p s;
          c = \<lparr>cl_key = getUltrafixResumeClaimKey i, cl_token = token, cl_lost = False, cl_known = loadRearmRetryRaw s1\<rparr>
      in case operation p c s1 of
           (result, s2) \<Rightarrow> (result, drop_claim (re_now e (p + 1)) i token (re_others e (p + 1) s2)))"

definition dropObsoleteRetry :: "'h resume_env \<Rightarrow> UltrafixPrId \<Rightarrow> string \<Rightarrow> nat \<Rightarrow> 'h resume_store \<Rightarrow> 'h resume_store" where
  "dropObsoleteRetry e i token p s =
     (let s1 = re_others e p s; raw = loadRearmRetryRaw s1
      in if raw = None then s1
         else case hasUltrafixResumeCandidate e False (p + 1) s1 of
                (candidate, s2) \<Rightarrow>
                  (if candidate then s2
                   else snd (clearRearmRetryIfClaimHeld (re_now e (p + 5)) (getUltrafixResumeClaimKey i) token None (Some raw) (re_others e (p + 5) s2))))"

text \<open>
  The passes of one trigger. \<open>token\<close> gives the fresh token of each pass; a pass uses twenty positions.
\<close>

fun resume_passes ::
  "'h resume_env \<Rightarrow> UltrafixPrId \<Rightarrow> (nat \<Rightarrow> string) \<Rightarrow> 'h operation \<Rightarrow> nat \<Rightarrow> nat \<Rightarrow> ContinuationResult option \<Rightarrow> 'h resume_store
     \<Rightarrow> ContinuationResult option result \<times> 'h resume_store" where
  "resume_passes e i token operation 0 p result s = (Return result, set_recheck (re_now e p) i (re_others e p s))"
| "resume_passes e i token operation (Suc n) p result s =
     (case hasUltrafixResumeCandidate e False p s of
        (candidate, s1) \<Rightarrow>
          (let s2 = (if candidate then s1 else re_others e (p + 4) s1)
           in if \<not> candidate \<and> loadRearmRetryRaw s2 = None
              then (Return (Some (or_default result (not_continued ''no_deferred_continuation''))), s2)
              else case acquireOrRequestRecheck e i (token p) (p + 5) s2 of
                     (held, s3) \<Rightarrow>
                       (if \<not> held then (Return (Some (or_default result (not_continued ''resume_in_progress''))), s3)
                        else case (if candidate then runWithHeldClaim e i (token p) operation (p + 9) s3
                                   else (Return (not_continued ''no_deferred_continuation''),
                                         drop_claim (re_now e (p + 15)) i (token p) (re_others e (p + 15) (dropObsoleteRetry e i (token p) (p + 9) s3)))) of
                               (Inl err, s4) \<Rightarrow> (Throw err, s4)
                             | (Inr passResult, s4) \<Rightarrow>
                                 (let result' = (if (case result of Some r \<Rightarrow> cr_continued r | None \<Rightarrow> False) then result else Some passResult);
                                      s5 = re_others e (p + 16) s4;
                                      asked = redis_get (re_now e (p + 16)) (getUltrafixResumeRecheckKey i) (rv_keys s5) \<noteq> None;
                                      s6 = s5\<lparr>rv_keys := (rv_keys s5)(getUltrafixResumeRecheckKey i := None)\<rparr>
                                  in if \<not> asked then (Return result', s6)
                                     else resume_passes e i token operation n (p + 20) result' s6))))"

definition withResumeClaim ::
  "'h resume_env \<Rightarrow> UltrafixPrId \<Rightarrow> (nat \<Rightarrow> string) \<Rightarrow> 'h operation \<Rightarrow> nat \<Rightarrow> 'h resume_store
     \<Rightarrow> ContinuationResult option result \<times> 'h resume_store" where
  "withResumeClaim e i token operation p s = resume_passes e i token operation MAX_RESUME_PASSES p None s"

subsection \<open>An interrupted claim\<close>

definition claimed_step :: "'h resume_store \<Rightarrow> 'h UltrafixClaimedStep option" where
  "claimed_step s = Option.bind (uf_retry (rv_uf s)) rr_claimedStep"

lemmas retry_defs = saveRetry_def replaceRetry_def clearRetry_def saveRearmRetryUnlessClaimTaken_def clearRearmRetryIfClaimHeld_def
  SAVE_REARM_RETRY_UNLESS_CLAIM_TAKEN_SCRIPT_def CLEAR_REARM_RETRY_IF_CLAIM_HELD_SCRIPT_def indexUltrafixResumeCandidate_def

lemma saveRetry_saved:
  assumes "saveRetry now retry c s = (True, c', s')"
  shows "rv_uf s' = (rv_uf s)\<lparr>uf_retry := Some retry\<rparr>"
  using assms by (auto simp: retry_defs split: if_splits option.splits)

lemma saveRetry_frame: "saveRetry now retry c s = (b, c', s') \<Longrightarrow> uf_state (rv_uf s') = uf_state (rv_uf s)"
  by (auto simp: retry_defs split: if_splits option.splits)

lemma claim_attempts_records:
  assumes keep: "\<And>q s. uf_state (rv_uf (re_others e q s)) = uf_state (rv_uf s)" "\<And>q s. claimed_step (re_others e q s) = claimed_step s"
    and "claim_attempts e digest i n p c s = (Claimed_step d, c', s')"
  shows "uf_deferred (rv_uf s') = None \<and> uf_state (rv_uf s') = uf_state (rv_uf s)
    \<and> claimed_step s' = map_option (\<lambda>st. \<lparr>cs_deferred = d, cs_stateDigest = digest st\<rparr>) (uf_state (rv_uf s))"
  using assms(3)
proof (induction n arbitrary: p c s)
  case (Suc n)
  define s1 where "s1 = re_others e p s"
  define s2 where "s2 = re_others e (p + 1) s1"
  define s3 where "s3 = re_others e (p + 2) s2"
  have st: "uf_state (rv_uf s1) = uf_state (rv_uf s)" "uf_state (rv_uf s2) = uf_state (rv_uf s)" "uf_state (rv_uf s3) = uf_state (rv_uf s)"
    by (simp_all add: s1_def s2_def s3_def keep)
  obtain pending where pd: "uf_deferred (rv_uf s1) = Some pending"
    using Suc.prems by (cases "uf_deferred (rv_uf s1)") (auto simp: Let_def loadDeferredContinuation_def s1_def)
  define retry where "retry = claim_obligation digest i (re_now e (p + 2)) (getUltrafixAutomaticWorkEpoch (rv_uf s3)) (uf_state (rv_uf s2)) pending"
  obtain b c1 s4 where sv: "saveRetry (re_now e (p + 3)) retry c (re_others e (p + 3) s3) = (b, c1, s4)" by (metis prod_cases3)
  define s5 where "s5 = re_others e (p + 4) s4"
  have eq: "claim_attempts e digest i (Suc n) p c s = (if \<not> b then (Claim_lost, c1, s4)
      else case claimDeferredContinuationIfUnchanged pending s5 of (claimed, s6) \<Rightarrow>
        (if claimed then (Claimed_step pending, c1, s6) else claim_attempts e digest i n (p + 5) c1 s6))"
    unfolding claim_attempts.simps Let_def loadDeferredContinuation_def s1_def [symmetric] pd option.case s2_def [symmetric]
      s3_def [symmetric] retry_def [symmetric] sv prod.case s5_def [symmetric] ..
  from Suc.prems have b: b unfolding eq by (auto split: if_splits)
  have st4: "uf_state (rv_uf s4) = uf_state (rv_uf s)" using saveRetry_frame [OF sv] by (simp add: keep st)
  have cs4: "claimed_step s4 = map_option (\<lambda>st. \<lparr>cs_deferred = pending, cs_stateDigest = digest st\<rparr>) (uf_state (rv_uf s))"
    using saveRetry_saved [of _ _ _ _ c1 s4] sv b by (simp add: claimed_step_def retry_def claim_obligation_def st)
  have s5: "uf_state (rv_uf s5) = uf_state (rv_uf s)" "claimed_step s5 = claimed_step s4" by (simp_all add: s5_def keep st4)
  show ?case
  proof (cases "uf_deferred (rv_uf s5) = Some pending")
    case True
    with Suc.prems s5 cs4 show ?thesis unfolding eq by (auto simp: b claimDeferredContinuationIfUnchanged_def claimed_step_def)
  next
    case False
    with Suc.prems have "claim_attempts e digest i n (p + 5) c1 s5 = (Claimed_step d, c', s')"
      unfolding eq by (simp add: b claimDeferredContinuationIfUnchanged_def)
    from Suc.IH [OF this] s5(1) show ?thesis by simp
  qed
qed simp

lemma restore_succeeds:
  assumes "re_others e = (\<lambda>_ s. s)" "claimed_step s = Some step" "uf_state (rv_uf s) = Some st" "digest st = cs_stateDigest step"
    and "\<not> cl_lost c" "\<not> re_renew_fails e (q + 2)" "redis_get (re_now e (q + 2)) (cl_key c) (rv_keys s) = Some (cl_token c)"
    and "current_epoch (rv_uf s) = deferred_epoch (cs_deferred step)" "uf_deferred (rv_uf s) = None"
  shows "\<exists>c' s'. restoreInterruptedClaim e digest q c s = (True, c', s') \<and> uf_deferred (rv_uf s') = Some (cs_deferred step) \<and> rv_indexed s'"
  using assms
  by (simp add: restoreInterruptedClaim_def Let_def loadRearmRetryRaw_def claimed_step_def confirm_def resume_claim_defs
      restoreDeferredContinuationIfUnchanged_def RESTORE_DEFERRED_IF_UNCHANGED_SCRIPT_def indexUltrafixResumeCandidate_def)

text \<open>The inputs of the witnesses.\<close>

definition quiet_env :: "nat resume_env" where
  "quiet_env = \<lparr>re_others = (\<lambda>_ s. s), re_now = int, re_renew_fails = (\<lambda>_. False)\<rparr>"

definition ex_pr :: UltrafixPrId where
  "ex_pr = \<lparr>pid_owner = ''o'', pid_repo = ''r'', pid_pr = 7\<rparr>"

definition ex_deferred :: UltrafixDeferredContinuation where
  "ex_deferred = \<lparr>df_owner = ''o'', df_repo = ''r'', df_pr = 7, df_nextAction = Fix, df_savedAt = 0, df_reason = ''ci'', df_userId = None,
     df_ultrafixMeta = None, df_workEpoch = Some 4\<rparr>"

definition ex_resume :: "nat resume_store" where
  "ex_resume = \<lparr>rv_uf = \<lparr>uf_epoch = Some 4, uf_state = Some ex_loop, uf_deferred = Some ex_deferred, uf_retry = None, uf_takeover = Map.empty\<rparr>,
     rv_keys = [''k'' \<mapsto> (''t1'', 100)], rv_indexed = False\<rparr>"

definition ex_claim :: "string \<Rightarrow> nat ResumeClaim" where
  "ex_claim token = \<lparr>cl_key = ''k'', cl_token = token, cl_lost = False, cl_known = None\<rparr>"

lemmas ex_resume_defs = quiet_env_def ex_pr_def ex_deferred_def ex_resume_def ex_claim_def

text \<open>
  C11: An authorized step survives the process that claimed it. Suppose a resume claimed the deferred step \<open>d\<close>
  (removing it) while the others left the loop's state and the claimed step alone, and then died. Any later trigger that holds the
  resume claim, finding the loop as it was left and the step's epoch still current, puts exactly \<open>d\<close> back.
\<close>
theorem interrupted_step_is_restored:
  assumes "\<forall>q s. uf_state (rv_uf (re_others e q s)) = uf_state (rv_uf s) \<and> claimed_step (re_others e q s) = claimed_step s"
    and "uf_state (rv_uf s) \<noteq> None" "claimDeferredStep e digest i p c s = (Claimed_step d, c', s')"
    and "current_epoch (rv_uf s') = deferred_epoch d" "rv_uf s'' = rv_uf s'"
    and "re_others e' = (\<lambda>_ s. s)" "\<not> re_renew_fails e' (q + 2)" "\<not> cl_lost c''"
    and "redis_get (re_now e' (q + 2)) (cl_key c'') (rv_keys s'') = Some (cl_token c'')"
  shows "uf_deferred (rv_uf s') = None
    \<and> (\<exists>c3 s3. restoreInterruptedClaim e' digest q c'' s'' = (True, c3, s3) \<and> uf_deferred (rv_uf s3) = Some d \<and> rv_indexed s3)"
proof -
  obtain st where st: "uf_state (rv_uf s) = Some st" using assms(2) by auto
  have r: "uf_deferred (rv_uf s') = None" "uf_state (rv_uf s') = Some st" "claimed_step s' = Some \<lparr>cs_deferred = d, cs_stateDigest = digest st\<rparr>"
    using claim_attempts_records [of e digest i MAX_CLAIM_ATTEMPTS p c s d c' s'] assms(1,3) st by (simp_all add: claimDeferredStep_def)
  from restore_succeeds [OF assms(6), of s'' "\<lparr>cs_deferred = d, cs_stateDigest = digest st\<rparr>" st digest c'' q] r assms(4,5,7-9)
  show ?thesis by (simp add: claimed_step_def)
qed

theorem interrupted_step_is_restored_witness:
  "\<exists>c' s' c3 s3. claimDeferredStep quiet_env (\<lambda>_. 0) ex_pr 0 (ex_claim ''t1'') ex_resume = (Claimed_step ex_deferred, c', s')
     \<and> restoreInterruptedClaim quiet_env (\<lambda>_. 0) 200 (ex_claim ''t2'') (s'\<lparr>rv_keys := [''k'' \<mapsto> (''t2'', 300)]\<rparr>) = (True, c3, s3)
     \<and> uf_deferred (rv_uf s3) = Some ex_deferred"
proof -
  let ?r = "claimDeferredStep quiet_env (\<lambda>_. 0) ex_pr 0 (ex_claim ''t1'') ex_resume"
  let ?s = "snd (snd ?r)"
  have r: "?r = (Claimed_step ex_deferred, fst (snd ?r), ?s)" and e: "current_epoch (rv_uf ?s) = deferred_epoch ex_deferred"
    by (simp_all add: claimDeferredStep_def MAX_CLAIM_ATTEMPTS_def numeral_eq_Suc Let_def loadDeferredContinuation_def retry_defs redis_get_def
        claimDeferredContinuationIfUnchanged_def ex_resume_defs current_epoch_def deferred_epoch_def)
  let ?s2 = "?s\<lparr>rv_keys := [''k'' \<mapsto> (''t2'', 300)]\<rparr>"
  have q: "\<forall>q s. uf_state (rv_uf (re_others quiet_env q s)) = uf_state (rv_uf s) \<and> claimed_step (re_others quiet_env q s) = claimed_step s"
    "re_others quiet_env = (\<lambda>_ s. s)" "\<not> re_renew_fails quiet_env (200 + 2)" "\<not> cl_lost (ex_claim ''t2'')" "rv_uf ?s2 = rv_uf ?s"
    "redis_get (re_now quiet_env (200 + 2)) (cl_key (ex_claim ''t2'')) (rv_keys ?s2) = Some (cl_token (ex_claim ''t2''))"
    by (simp_all add: quiet_env_def ex_claim_def redis_get_def)
  have st: "uf_state (rv_uf ex_resume) \<noteq> None" by (simp add: ex_resume_def)
  from interrupted_step_is_restored [OF q(1) st r e q(5) q(2-4,6)] r show ?thesis by blast
qed

subsection \<open>A failure notice\<close>

lemma failure_obligation_is_new: "existing \<noteq> Some (failure_obligation i now we existing)"
proof
  assume *: "existing = Some (failure_obligation i now we existing)"
  then obtain r where r: "existing = Some r" by blast
  from arg_cong [OF *, of "map_option rr_failureVersion"] show False
    by (cases "rr_failureVersion r") (simp_all add: r failure_obligation_def or_default_def)
qed

lemma record_failed_attempts_notice:
  assumes keep: "\<And>q s. uf_retry (rv_uf (re_others e q s)) = uf_retry (rv_uf s)"
  shows "record_failed_attempts e i we n p s = (True, s') \<Longrightarrow> \<exists>r. uf_retry (rv_uf s') = Some r \<and> uf_retry (rv_uf s) \<noteq> Some r"
proof (induction n arbitrary: p s)
  case (Suc n)
  define s1 where "s1 = re_others e p s"
  define s2 where "s2 = re_others e (p + 1) s1"
  define s3 where "s3 = re_others e (p + 2) s2"
  define s4 where "s4 = re_others e (p + 3) s3"
  have r: "uf_retry (rv_uf s3) = uf_retry (rv_uf s)" "uf_retry (rv_uf s4) = uf_retry (rv_uf s)"
    by (simp_all add: s1_def s2_def s3_def s4_def keep)
  obtain snap where snap: "uf_state (rv_uf s1) = Some snap"
    using Suc.prems by (cases "uf_state (rv_uf s1)") (auto simp: Let_def s1_def)
  define notice where "notice = failure_obligation i (re_now e (p + 2)) we (uf_retry (rv_uf s3))"
  obtain b s5 where rec: "RECORD_FAILED_STEP_SCRIPT we snap (recordFailedStepInState snap) (uf_retry (rv_uf s3)) notice s4 = (b, s5)" by force
  have eq: "record_failed_attempts e i we (Suc n) p s =
      (if \<not> uf_active snap \<or> or_default (workEpoch snap) 0 \<noteq> we then (False, s1)
       else if getUltrafixAutomaticWorkEpoch (rv_uf s2) \<noteq> we then (False, s2)
       else if b = 1 then (True, indexUltrafixResumeCandidate s5) else record_failed_attempts e i we n (p + 4) s5)"
    unfolding record_failed_attempts.simps Let_def s1_def [symmetric] snap option.case s2_def [symmetric] s3_def [symmetric]
      loadRearmRetryRaw_def notice_def [symmetric] s4_def [symmetric] rec prod.case ..
  show ?case
  proof (cases "b = 1")
    case True
    then have "uf_retry (rv_uf s5) = Some notice" using rec by (auto simp: RECORD_FAILED_STEP_SCRIPT_def split: if_splits)
    with Suc.prems True failure_obligation_is_new [of "uf_retry (rv_uf s3)"] show ?thesis
      unfolding eq by (auto simp: indexUltrafixResumeCandidate_def notice_def r split: if_splits)
  next
    case False
    then have s5: "s5 = s4" using rec by (auto simp: RECORD_FAILED_STEP_SCRIPT_def split: if_splits)
    from Suc.prems False have "record_failed_attempts e i we n (p + 4) s5 = (True, s')" unfolding eq by (auto split: if_splits)
    from Suc.IH [OF this] show ?thesis by (simp add: s5 r)
  qed
qed simp

lemma findPending_retry:
  assumes "\<And>q s. uf_retry (rv_uf (re_others e q s)) = uf_retry (rv_uf s)"
  shows "uf_retry (rv_uf (snd (findPendingClaimedStep e digest p raw s))) = uf_retry (rv_uf s)"
  by (simp add: findPendingClaimedStep_def Let_def assms split: option.splits)

lemma replaceRetry_keeps:
  "replaceRetry now retry raw c s = (b, c', s') \<Longrightarrow> uf_retry (rv_uf s) \<noteq> None \<Longrightarrow> uf_retry (rv_uf s') \<noteq> None"
  by (auto simp: retry_defs split: if_splits option.splits)

lemma replace_attempts_keep:
  assumes keep: "\<And>q s. uf_retry (rv_uf (re_others e q s)) = uf_retry (rv_uf s)"
  shows "uf_retry (rv_uf s) \<noteq> None \<Longrightarrow> uf_retry (rv_uf (snd (snd (replace_attempts e digest i settled n p c s)))) \<noteq> None"
proof (induction n arbitrary: p c s)
  case (Suc n)
  define s1 where "s1 = re_others e p s"
  obtain step s2 where f: "findPendingClaimedStep e digest (p + 1) (uf_retry (rv_uf s1)) s1 = (step, s2)" by force
  have s2: "uf_retry (rv_uf s2) \<noteq> None"
    using findPending_retry [OF keep, where digest = digest and p = "p + 1" and s = s1 and raw = "uf_retry (rv_uf s1)"] Suc.prems
    unfolding f snd_conv by (simp add: s1_def keep)
  define s3 where "s3 = re_others e (p + 4) s2"
  define retry where "retry = settled_obligation i (re_now e (p + 4)) (getUltrafixAutomaticWorkEpoch (rv_uf s3)) settled step"
  obtain b c1 s4 where rp: "replaceRetry (re_now e (p + 5)) retry (Some (uf_retry (rv_uf s1))) c (re_others e (p + 5) s3) = (b, c1, s4)"
    by (metis prod_cases3)
  have "uf_retry (rv_uf s4) \<noteq> None" using replaceRetry_keeps [OF rp] s2 by (simp add: s3_def keep)
  moreover have "replace_attempts e digest i settled (Suc n) p c s
      = (if b \<noteq> Obligation_changed then (b = Saved, c1, s4) else replace_attempts e digest i settled n (p + 6) c1 s4)"
    unfolding replace_attempts.simps Let_def s1_def [symmetric] loadRearmRetryRaw_def f prod.case s3_def [symmetric] retry_def [symmetric] rp ..
  ultimately show ?case using Suc.IH by simp
qed simp

lemma settle_keeps_unknown_obligation:
  assumes keep: "\<And>q s. uf_retry (rv_uf (re_others e q s)) = uf_retry (rv_uf s)"
    and "uf_retry (rv_uf s) = Some r" "cl_known c \<noteq> Some r"
  shows "uf_retry (rv_uf (snd (snd (settleRearmRetry e digest i result q c s)))) \<noteq> None"
proof -
  obtain b c1 s1 where cl: "clearRetry (re_now e q) (cr_workEpoch result) None c (re_others e q s) = (b, c1, s1)" by (metis prod_cases3)
  have s1: "uf_retry (rv_uf s1) \<noteq> None" using cl assms(2,3) by (auto simp: retry_defs keep split: if_splits)
  have un: "uf_retry (rv_uf s) \<noteq> None" using assms(2) by simp
  show ?thesis
    using replace_attempts_keep [OF keep s1] replace_attempts_keep [OF keep un] s1
    by (simp add: settleRearmRetry_def recordUnsettledRetry_def Let_def cl split_beta)
qed

text \<open>
  C31: News of a failed step outlives the settlement of the resume that scheduled it. When a step fails for good after its
  resume last looked at the obligation, then whatever the result that resume settles with, an obligation to look at the loop
  again remains, as long as the other processes leave obligations alone.
\<close>
theorem failure_notice_survives_settlement:
  assumes "\<forall>q s. uf_retry (rv_uf (re_others e q s)) = uf_retry (rv_uf s)" "\<forall>q s. uf_retry (rv_uf (re_others e' q s)) = uf_retry (rv_uf s)"
    and "cl_known c = uf_retry (rv_uf s)" "recordFailedUltrafixStep e (Some (i, we)) p s = (True, s')"
  shows "uf_retry (rv_uf (snd (snd (settleRearmRetry e' digest i result q c s')))) \<noteq> None"
proof -
  from record_failed_attempts_notice [of e i "or_default we 0" MAX_RECORD_ATTEMPTS p s s'] assms(1,4)
  obtain r where "uf_retry (rv_uf s') = Some r" "uf_retry (rv_uf s) \<noteq> Some r" by (auto simp: recordFailedUltrafixStep_def)
  then show ?thesis using settle_keeps_unknown_obligation [of e' s' r c] assms(2,3) by simp
qed

theorem failure_notice_survives_settlement_witness:
  "fst (recordFailedUltrafixStep quiet_env (Some (ex_pr, Some 4)) 0 ex_resume)
   \<and> uf_retry (rv_uf (snd (snd (settleRearmRetry quiet_env (\<lambda>_. 0) ex_pr (not_continued ''deferred_resumed'') 50 (ex_claim ''t1'')
       (snd (recordFailedUltrafixStep quiet_env (Some (ex_pr, Some 4)) 0 ex_resume)))))) \<noteq> None"
proof -
  let ?r = "recordFailedUltrafixStep quiet_env (Some (ex_pr, Some 4)) 0 ex_resume"
  have f: "fst ?r"
    by (simp add: recordFailedUltrafixStep_def MAX_RECORD_ATTEMPTS_def numeral_eq_Suc Let_def RECORD_FAILED_STEP_SCRIPT_def ex_resume_defs
        ex_loop_def createDefaultState_def ex_options_def or_default_def getUltrafixAutomaticWorkEpoch_def current_epoch_def loadRearmRetryRaw_def)
  then have "?r = (True, snd ?r)" by (simp add: prod_eq_iff)
  from f failure_notice_survives_settlement [where e' = quiet_env and c = "ex_claim ''t1''", OF _ _ _ this] show ?thesis
    by (simp add: quiet_env_def ex_claim_def ex_resume_def)
qed

subsection \<open>Keys of the sweep\<close>

definition parsePrKey :: "string \<Rightarrow> string \<Rightarrow> (string \<times> string \<times> int) option" where
  "parsePrKey key keyPrefix =
     (let pre = keyPrefix @ '':''
      in if \<not> prefix pre key then None
         else let parts = js_split CHR '':'' (drop (length pre) key)
              in if length parts < 3 then None
                 else map_option (\<lambda>pr. (hd parts, js_join '':'' (butlast (tl parts)), pr)) (js_parse_int (last parts)))"

definition parseDeferredKey :: "string \<Rightarrow> (string \<times> string \<times> int) option" where
  "parseDeferredKey key = parsePrKey key ULTRAFIX_DEFERRED_KEY_PREFIX"

definition parseRearmRetryKey :: "string \<Rightarrow> (string \<times> string \<times> int) option" where
  "parseRearmRetryKey key = parsePrKey key REARM_RETRY_KEY_PREFIX"

lemma colon_not_in_show_nat: "CHR '':'' \<notin> set (show_nat n)"
  using show_nat_digits [of n] digit_not_special by (auto simp: list_all_iff)

lemma parsePrKey_inverse:
  assumes "CHR '':'' \<notin> set owner"
  shows "parsePrKey (keyPrefix @ '':'' @ owner @ '':'' @ repo @ '':'' @ show_nat pr) keyPrefix = Some (owner, repo, int pr)"
proof -
  have "js_split CHR '':'' (owner @ CHR '':'' # repo @ CHR '':'' # show_nat pr) = owner # js_split CHR '':'' repo @ [show_nat pr]"
    by (simp add: js_split_first [OF assms] js_split_last [OF colon_not_in_show_nat])
  moreover have "js_split CHR '':'' repo \<noteq> []" by simp
  ultimately show ?thesis by (simp add: parsePrKey_def Let_def join_js_split parse_int_show_nat Suc_le_eq)
qed

text \<open>
  The sweep recovers the pull request from the keys it scans: parsing the key of a deferred record or of a retry
  obligation gives back the owner, the repository (even one with colons) and the number.
\<close>
theorem scanned_keys_round_trip:
  assumes "CHR '':'' \<notin> set owner"
  shows "parseDeferredKey (getUltrafixDeferredKey owner repo pr) = Some (owner, repo, int pr)
    \<and> parseRearmRetryKey (getUltrafixRearmRetryKey \<lparr>pid_owner = owner, pid_repo = repo, pid_pr = pr\<rparr>) = Some (owner, repo, int pr)"
  using parsePrKey_inverse [OF assms, of ULTRAFIX_DEFERRED_KEY_PREFIX repo pr] parsePrKey_inverse [OF assms, of REARM_RETRY_KEY_PREFIX repo pr]
  by (simp add: parseDeferredKey_def parseRearmRetryKey_def getUltrafixDeferredKey_def getUltrafixRearmRetryKey_def)

theorem scanned_keys_round_trip_witness:
  "parseDeferredKey (getUltrafixDeferredKey ''acme'' ''web:x'' 12) = Some (''acme'', ''web:x'', 12)"
  using scanned_keys_round_trip [of "''acme''" "''web:x''" 12] by simp

end
