(* ===== verification/Ci_Policy.thy ===== *)
theory Ci_Policy
  imports Prelude
begin

section \<open>Which workflows may be cancelled\<close>

text \<open>
  \<^verbatim>\<open>src/jobs/followupCiSuspensionPolicy.ts\<close> decides which workflow runs may be cancelled while a follow-up replaces the head of
  a pull request: only runs of workflows an operator selected, by their exact identity. A set of identities is the list in the
  order of insertion; the environment variable is an argument.
\<close>

datatype ValidationWorkflowPolicySource = From_repository | From_environment | No_source | Unreadable

record ValidationWorkflowPolicy =
  selected :: "string list"
  source :: ValidationWorkflowPolicySource

definition NO_VALIDATION_WORKFLOWS_SELECTED :: ValidationWorkflowPolicy where
  "NO_VALIDATION_WORKFLOWS_SELECTED = \<lparr>selected = [], source = No_source\<rparr>"

definition VALIDATION_WORKFLOW_SELECTION_UNREADABLE :: ValidationWorkflowPolicy where
  "VALIDATION_WORKFLOW_SELECTION_UNREADABLE = \<lparr>selected = [], source = Unreadable\<rparr>"

definition PULL_REQUEST_EVENTS :: "string list" where
  "PULL_REQUEST_EVENTS = [''pull_request'', ''pull_request_target'']"

record WorkflowRunIdentity =
  run_name :: "string option"
  run_path :: "string option"
  run_event :: "string option"
  run_workflow_id :: "nat option"

definition normalize :: "string option \<Rightarrow> string" where
  "normalize value = js_lower (js_trim (case value of None \<Rightarrow> '''' | Some v \<Rightarrow> v))"

text \<open>A set that keeps the order of insertion, without the empty identity.\<close>

definition workflowIdentities :: "WorkflowRunIdentity \<Rightarrow> string list" where
  "workflowIdentities run =
     (let name = normalize (run_name run); path = normalize (run_path run);
          file = last (js_split CHR ''/'' path)
      in js_unique (filter (\<lambda>i. i \<noteq> '''')
           ((if name \<noteq> '''' then [name] else [])
            @ (case run_workflow_id run of None \<Rightarrow> [] | Some n \<Rightarrow> [show_nat n])
            @ (if path \<noteq> '''' then [path] @ (if file \<noteq> '''' then [file] else []) else []))))"

definition isPullRequestValidationEvent :: "string option \<Rightarrow> bool" where
  "isPullRequestValidationEvent event = (normalize event \<in> set PULL_REQUEST_EVENTS)"

fun parse_selection :: "string list \<Rightarrow> string option list \<Rightarrow> string list" where
  "parse_selection selection [] = selection"
| "parse_selection selection (v # vs) =
     (let identity = normalize v
      in parse_selection (if identity \<noteq> '''' \<and> identity \<notin> set selection then selection @ [identity] else selection) vs)"

definition parseWorkflowSelection :: "string option list option \<Rightarrow> string list" where
  "parseWorkflowSelection values = parse_selection [] (case values of None \<Rightarrow> [] | Some vs \<Rightarrow> vs)"

definition createValidationWorkflowPolicy :: "string option list option \<Rightarrow> ValidationWorkflowPolicySource \<Rightarrow> ValidationWorkflowPolicy" where
  "createValidationWorkflowPolicy selection src =
     (let chosen = parseWorkflowSelection selection
      in if length chosen = 0 then NO_VALIDATION_WORKFLOWS_SELECTED else \<lparr>selected = chosen, source = src\<rparr>)"

definition loadValidationWorkflowPolicyFromEnv :: "string option \<Rightarrow> ValidationWorkflowPolicy" where
  "loadValidationWorkflowPolicyFromEnv var =
     createValidationWorkflowPolicy (Some (map Some (js_split CHR '','' (case var of None \<Rightarrow> '''' | Some v \<Rightarrow> v)))) From_environment"

definition resolveValidationWorkflowPolicy :: "string list option \<Rightarrow> string option \<Rightarrow> ValidationWorkflowPolicy" where
  "resolveValidationWorkflowPolicy repositorySelection var =
     (let repository = createValidationWorkflowPolicy (map_option (map Some) repositorySelection) From_repository
      in if length (selected repository) > 0 then repository else loadValidationWorkflowPolicyFromEnv var)"

definition isEligibleValidationWorkflow :: "WorkflowRunIdentity \<Rightarrow> ValidationWorkflowPolicy \<Rightarrow> bool" where
  "isEligibleValidationWorkflow run policy =
     (if length (selected policy) = 0 then False
      else if \<not> isPullRequestValidationEvent (run_event run) then False
      else list_ex (\<lambda>identity. identity \<in> set (selected policy)) (workflowIdentities run))"

lemma set_parse_selection: "set (parse_selection sel vs) = set sel \<union> {i \<in> normalize ` set vs. i \<noteq> ''''}"
  by (induction sel vs rule: parse_selection.induct) (auto simp: Let_def)

lemma set_parseWorkflowSelection: "set (parseWorkflowSelection vs) = {i \<in> normalize ` set (case vs of None \<Rightarrow> [] | Some l \<Rightarrow> l). i \<noteq> ''''}"
  by (simp add: parseWorkflowSelection_def set_parse_selection)

lemma selected_createPolicy: "set (selected (createValidationWorkflowPolicy vs src)) = set (parseWorkflowSelection vs)"
  by (simp add: createValidationWorkflowPolicy_def Let_def NO_VALIDATION_WORKFLOWS_SELECTED_def)


definition ex_run :: WorkflowRunIdentity where
  "ex_run = \<lparr>run_name = Some ''CI'', run_path = Some ''.github/workflows/test.yml'', run_event = Some ''pull_request'', run_workflow_id = Some 42\<rparr>"


end
