(* ===== verification/Plan_Status.thy ===== *)
theory Plan_Status
  imports Prelude
begin

section \<open>The status of a plan issue\<close>

text \<open>
  \<^verbatim>\<open>packages/core/src/webhook/statusMachine.ts\<close>: how the events of a pull request move the status of the plan issue it implements.
  The enumeration is the one of \<^verbatim>\<open>packages/core/src/config/planIssueManager.ts\<close>.
\<close>

datatype PlanIssueStatus = PENDING | PROCESSING | UNDER_REVIEW | IN_REFINEMENT | REFINEMENT_PROCESSING | MERGED | CLOSED

definition TERMINAL_STATUSES :: "PlanIssueStatus list" where
  "TERMINAL_STATUSES = [MERGED, CLOSED]"

definition determinePRStatusUpdate :: "string \<Rightarrow> bool \<Rightarrow> PlanIssueStatus \<Rightarrow> PlanIssueStatus option" where
  "determinePRStatusUpdate action merged currentStatus =
     (if currentStatus = MERGED \<or> currentStatus = CLOSED then None
      else if action = ''closed'' then Some (if merged then MERGED else CLOSED)
      else if action = ''opened'' \<or> action = ''reopened'' then Some UNDER_REVIEW
      else if action = ''synchronize'' \<and> currentStatus = IN_REFINEMENT then Some REFINEMENT_PROCESSING
      else None)"

definition isTerminalStatus :: "PlanIssueStatus \<Rightarrow> bool" where
  "isTerminalStatus status = (status = MERGED \<or> status = CLOSED)"

definition isInProgressStatus :: "PlanIssueStatus \<Rightarrow> bool" where
  "isInProgressStatus status =
     (status = PROCESSING \<or> status = UNDER_REVIEW \<or> status = IN_REFINEMENT \<or> status = REFINEMENT_PROCESSING)"

text \<open>The status after a sequence of events: a null update leaves it as it is.\<close>

definition after_event :: "string \<times> bool \<Rightarrow> PlanIssueStatus \<Rightarrow> PlanIssueStatus" where
  "after_event ev status = (case determinePRStatusUpdate (fst ev) (snd ev) status of None \<Rightarrow> status | Some s \<Rightarrow> s)"

lemma terminal_iff [simp]: "status \<in> set TERMINAL_STATUSES \<longleftrightarrow> isTerminalStatus status"
  by (auto simp: TERMINAL_STATUSES_def isTerminalStatus_def)

lemma terminal_kept: "isTerminalStatus status \<Longrightarrow> fold after_event evs status = status"
  by (induction evs) (simp_all add: isTerminalStatus_def after_event_def determinePRStatusUpdate_def)

lemma not_closed_not_terminal: "\<not> isTerminalStatus status \<Longrightarrow> fst ev \<noteq> ''closed'' \<Longrightarrow> \<not> isTerminalStatus (after_event ev status)"
  by (auto simp: isTerminalStatus_def after_event_def determinePRStatusUpdate_def)

text \<open>
  The first close decides: however many events arrive late or twice after it, the status is the one the first close
  event gave, and without a close event the status never becomes terminal.
\<close>

theorem first_close_decides:
  assumes "\<not> isTerminalStatus status"
  shows "case find (\<lambda>ev. fst ev = ''closed'') evs of
           Some (_, merged) \<Rightarrow> fold after_event evs status = (if merged then MERGED else CLOSED)
         | None \<Rightarrow> \<not> isTerminalStatus (fold after_event evs status)"
  using assms
proof (induction evs arbitrary: status)
  case (Cons ev evs)
  show ?case
  proof (cases "fst ev = ''closed''")
    case True
    with Cons.prems have "after_event ev status = (if snd ev then MERGED else CLOSED)"
      by (simp add: after_event_def determinePRStatusUpdate_def isTerminalStatus_def)
    moreover have "fold after_event evs (if snd ev then MERGED else CLOSED) = (if snd ev then MERGED else CLOSED)"
      by (rule terminal_kept) (simp add: isTerminalStatus_def)
    ultimately show ?thesis using True by (cases ev) simp
  next
    case False
    with Cons.IH [OF not_closed_not_terminal [OF Cons.prems False]] show ?thesis by (simp split: option.splits prod.splits)
  qed
qed simp

theorem first_close_decides_witness:
  "fold after_event [(''opened'', False), (''closed'', True), (''reopened'', False)] PROCESSING = MERGED"
  using first_close_decides [of PROCESSING "[(''opened'', False), (''closed'', True), (''reopened'', False)]"]
  by (simp add: isTerminalStatus_def)

end
