(* ===== verification/Retry.thy ===== *)
theory Retry
  imports Prelude
begin

section \<open>Retries of a failing call\<close>

text \<open>
  \<^verbatim>\<open>packages/core/src/utils/retryHandler.ts\<close>. Every call of a provider, of GitHub, of git or of Redis that may fail
  for a moment goes through \<open>withRetry\<close>: it classifies the error, waits with exponential backoff and jitter,
  and calls again a bounded number of times. The classification is shared with the task replacement policy.

  An error value is an \<open>errval\<close>: what the classification reads of it. The value an \<open>async\<close> call rejects with is
  a tree here; a cyclic error object, which the code cuts with its \<open>seen\<close> set, is not modelled. Logging is omitted.
\<close>

subsection \<open>The patterns\<close>

text \<open>A case-insensitive literal pattern, and \<open>a.*b\<close>, where the dot stops at a line end.\<close>

definition ci_has :: "string \<Rightarrow> string \<Rightarrow> bool" where
  "ci_has p s = js_includes (js_lower s) p"

definition line_end :: "char \<Rightarrow> bool" where
  "line_end c = (code_of c = 10 \<or> code_of c = 13)"

definition ci_gap :: "string \<Rightarrow> string \<Rightarrow> string \<Rightarrow> bool" where
  "ci_gap a b s =
     list_ex (\<lambda>u. prefix a u \<and> js_includes (takeWhile (\<lambda>c. \<not> line_end c) (drop (length a) u)) b) (suffixes (js_lower s))"

definition js_word_char :: "char \<Rightarrow> bool" where
  "js_word_char c =
     (let n = code_of c in (48 \<le> n \<and> n \<le> 57) \<or> (65 \<le> n \<and> n \<le> 90) \<or> (97 \<le> n \<and> n \<le> 122) \<or> n = 95)"

text \<open>The first \<open>\b...\b\<close> match of \<open>n\<close> word characters that satisfy a test; \<open>inside\<close> says whether a word character precedes.\<close>

fun find_word :: "(string \<Rightarrow> bool) \<Rightarrow> nat \<Rightarrow> bool \<Rightarrow> string \<Rightarrow> string option" where
  "find_word p n inside [] = None"
| "find_word p n inside (c # cs) =
     (let w = take n (c # cs); rest = drop n (c # cs)
      in if \<not> inside \<and> length w = n \<and> p w \<and> (rest = [] \<or> \<not> js_word_char (hd rest)) then Some w
         else find_word p n (js_word_char c) cs)"

subsection \<open>Error values\<close>

text \<open>
  A string, another primitive, or an object: its string-valued \<open>message\<close>, what \<open>toString()\<close> gives (empty when that
  throws or is no function), whether it is an array, and the values of its own enumerable properties.
\<close>

datatype errval =
    EStr string
  | EPrim
  | EObj (e_message: "string option") (e_string: string) (e_array: bool) (e_values: "errval list")

definition object_string :: string where "object_string = ''[object Object]''"
definition MAX_ERROR_DEPTH :: nat where "MAX_ERROR_DEPTH = 10"
definition MAX_ERROR_VALUES :: nat where "MAX_ERROR_VALUES = 80"

definition error_object_texts :: "string option \<Rightarrow> string \<Rightarrow> string list" where
  "error_object_texts message text0 =
     (case message of Some m \<Rightarrow> [m] | None \<Rightarrow> []) @ (if text0 \<noteq> [] \<and> text0 \<noteq> object_string then [text0] else [])"

fun error_visit :: "nat \<Rightarrow> errval \<Rightarrow> string list \<Rightarrow> string list"
  and error_visit_items :: "nat \<Rightarrow> errval list \<Rightarrow> string list \<Rightarrow> string list"
  and error_visit_values :: "nat \<Rightarrow> errval list \<Rightarrow> string list \<Rightarrow> string list" where
  "error_visit depth (EStr s) vs = vs @ [s]"
| "error_visit depth EPrim vs = vs"
| "error_visit depth (EObj m t arr xs) vs =
     (if depth > MAX_ERROR_DEPTH \<or> length vs \<ge> MAX_ERROR_VALUES then vs
      else let vs1 = vs @ error_object_texts m t
           in if arr then error_visit_items (Suc depth) xs vs1 else error_visit_values (Suc depth) xs vs1)"
| "error_visit_items depth [] vs = vs"
| "error_visit_items depth (x # xs) vs = error_visit_items depth xs (error_visit depth x vs)"
| "error_visit_values depth [] vs = vs"
| "error_visit_values depth (x # xs) vs =
     (let vs1 = error_visit depth x vs
      in if length vs1 \<ge> MAX_ERROR_VALUES then vs1 else error_visit_values depth xs vs1)"

definition collectErrorText :: "errval \<Rightarrow> string list" where
  "collectErrorText e = error_visit 0 e []"

subsection \<open>The classification\<close>

definition quota_exhaustion_pattern :: "string \<Rightarrow> bool" where
  "quota_exhaustion_pattern s =
     (list_ex (\<lambda>p. ci_has p s)
        [''usage limit'', ''out of quota'', ''insufficient quota'', ''credit balance'', ''credit limit'',
         ''billing hard limit'', ''monthly budget'', ''budget exceeded'', ''organization usage limit'']
      \<or> ci_gap ''billing'' ''quota'' s \<or> ci_gap ''spending'' ''limit'' s)"

definition transient_rate_limit_pattern :: "string \<Rightarrow> bool" where
  "transient_rate_limit_pattern s =
     (list_ex (\<lambda>p. ci_has p s)
        [''perminute'', ''per minute'', ''per-minute'', ''persecond'', ''per second'', ''per-second'',
         ''perhour'', ''per hour'', ''per-hour'',
         ''token per minute'', ''tokens per minute'', ''request per minute'', ''requests per minute'']
      \<or> find_word (\<lambda>w. w \<in> {''rpm'', ''tpm'', ''qps''}) 3 False (js_lower s) \<noteq> None)"

definition isQuotaExhaustionText :: "string \<Rightarrow> bool" where
  "isQuotaExhaustionText s =
     (if quota_exhaustion_pattern s then True
      else if \<not> ci_has ''quota exceeded'' s then False
      else \<not> transient_rate_limit_pattern s)"

definition isQuotaExhaustionError :: "errval \<Rightarrow> bool" where
  "isQuotaExhaustionError e = list_ex isQuotaExhaustionText (collectErrorText e)"

text \<open>What the code reads of an error besides its texts: a string \<open>code\<close> and a numeric \<open>status\<close>.\<close>

record ErrorLike =
  er_value :: errval
  er_code :: "string option"
  er_status :: "rat option"

record RetryConfig =
  maxAttempts :: nat
  baseDelay :: rat
  maxDelay :: rat
  exponentialBase :: rat
  jitter :: bool
  retryableErrors :: "string list"

definition DEFAULT_RETRY_CONFIG :: RetryConfig where
  "DEFAULT_RETRY_CONFIG =
     \<lparr>maxAttempts = 3, baseDelay = 1000, maxDelay = 30000, exponentialBase = 2, jitter = True,
      retryableErrors = [''ECONNRESET'', ''ECONNREFUSED'', ''ETIMEDOUT'', ''ENOTFOUND'',
        ''NETWORK_ERROR'', ''API_RATE_LIMIT'', ''TEMPORARY_FAILURE'']\<rparr>"

definition retryable_statuses :: "rat list" where
  "retryable_statuses = [429, 500, 502, 503, 504, 529]"

definition retryable_pattern :: "string \<Rightarrow> bool" where
  "retryable_pattern s =
     (list_ex (\<lambda>p. ci_has p s)
        [''rate limit'', ''timeout'', ''network'', ''connection'', ''temporary'', ''try again'', ''authentication failed'',
         ''invalid username or token'', ''credentials'', ''service unavailable'', ''bad gateway'', ''overloaded'',
         ''could not resolve to a node'']
      \<or> ci_gap ''server'' ''unavailable'' s \<or> ci_gap ''no server'' ''available'' s \<or> ci_gap ''unprocessable'' ''node'' s)"

fun error_message_of :: "errval \<Rightarrow> string" where
  "error_message_of (EObj (Some m) _ _ _) = m"
| "error_message_of _ = []"

fun error_string_of :: "errval \<Rightarrow> string" where
  "error_string_of (EStr s) = s"
| "error_string_of EPrim = []"
| "error_string_of (EObj _ t _ _) = t"

definition isRetryableError :: "ErrorLike \<Rightarrow> RetryConfig \<Rightarrow> bool" where
  "isRetryableError e config =
     (if isQuotaExhaustionError (er_value e) then False
      else if (case er_code e of Some c \<Rightarrow> c \<noteq> [] \<and> c \<in> set (retryableErrors config) | None \<Rightarrow> False) then True
      else if (case er_status e of Some s \<Rightarrow> s \<noteq> 0 \<and> s \<in> set retryable_statuses | None \<Rightarrow> False) then True
      else retryable_pattern (error_message_of (er_value e)) \<or> retryable_pattern (error_string_of (er_value e)))"

definition isDefaultRetryableError :: "ErrorLike \<Rightarrow> bool" where
  "isDefaultRetryableError e = isRetryableError e DEFAULT_RETRY_CONFIG"

subsection \<open>Backoff and the retry loop\<close>

text \<open>\<open>rnd\<close> is the value of \<open>Math.random()\<close>, from 0 up to but excluding 1.\<close>

definition calculateDelay :: "rat \<Rightarrow> nat \<Rightarrow> RetryConfig \<Rightarrow> rat" where
  "calculateDelay rnd attempt config =
     (let exponentialDelay = baseDelay config * exponentialBase config ^ attempt;
          delay = min exponentialDelay (maxDelay config);
          delay' = (if jitter config then delay + (rnd - 1 / 2) * 2 * (delay * (1 / 4)) else delay)
      in max delay' 0)"

text \<open>The options of a call: every field may be absent.\<close>

record RetryOptions =
  o_maxAttempts :: "nat option"
  o_baseDelay :: "rat option"
  o_maxDelay :: "rat option"
  o_exponentialBase :: "rat option"
  o_jitter :: "bool option"
  o_retryableErrors :: "string list option"

definition option_or :: "'a option \<Rightarrow> 'a \<Rightarrow> 'a" where
  "option_or x d = (case x of None \<Rightarrow> d | Some v \<Rightarrow> v)"

definition retry_config :: "RetryOptions \<Rightarrow> RetryConfig" where
  "retry_config opts =
     \<lparr>maxAttempts = option_or (o_maxAttempts opts) (maxAttempts DEFAULT_RETRY_CONFIG),
      baseDelay = option_or (o_baseDelay opts) (baseDelay DEFAULT_RETRY_CONFIG),
      maxDelay = option_or (o_maxDelay opts) (maxDelay DEFAULT_RETRY_CONFIG),
      exponentialBase = option_or (o_exponentialBase opts) (exponentialBase DEFAULT_RETRY_CONFIG),
      jitter = option_or (o_jitter opts) (jitter DEFAULT_RETRY_CONFIG),
      retryableErrors = retryableErrors DEFAULT_RETRY_CONFIG @ option_or (o_retryableErrors opts) []\<rparr>"

text \<open>
  \<open>fn s\<close> is one call of the wrapped function in the state \<open>s\<close> of everything else; \<open>rnd\<close> are the random numbers.
  The loop returns the result (or the last error; \<open>None\<close> is the \<open>undefined\<close> that is thrown when not one attempt is
  allowed), the delays it slept and the state it leaves.
\<close>

type_synonym ('s, 'a) fallible_call = "'s \<Rightarrow> (ErrorLike + 'a) \<times> 's"

function retry_loop ::
  "('s, 'a) fallible_call \<Rightarrow> RetryConfig \<Rightarrow> (nat \<Rightarrow> rat) \<Rightarrow> nat \<Rightarrow> ErrorLike option \<Rightarrow> 's \<Rightarrow> (ErrorLike option + 'a) \<times> rat list \<times> 's" where
  "retry_loop fn config rnd attempt lastError s =
     (if attempt < maxAttempts config
      then case fn s of
             (Inr x, s1) \<Rightarrow> (Inr x, [], s1)
           | (Inl e, s1) \<Rightarrow>
               (if Suc attempt = maxAttempts config then (Inl (Some e), [], s1)
                else if \<not> isRetryableError e config then (Inl (Some e), [], s1)
                else case retry_loop fn config rnd (Suc attempt) (Some e) s1 of
                       (r, ds, s2) \<Rightarrow> (r, calculateDelay (rnd attempt) attempt config # ds, s2))
      else (Inl lastError, [], s))"
  by pat_completeness auto
termination
  by (relation "measure (\<lambda>(fn, config, rnd, attempt, l, s). maxAttempts config - attempt)") auto

declare retry_loop.simps [simp del]

definition withRetry ::
  "('s, 'a) fallible_call \<Rightarrow> RetryOptions \<Rightarrow> (nat \<Rightarrow> rat) \<Rightarrow> 's \<Rightarrow> (ErrorLike option + 'a) \<times> rat list \<times> 's" where
  "withRetry fn opts rnd s = retry_loop fn (retry_config opts) rnd 0 None s"

text \<open>The wrapper with a predefined configuration: options given later win.\<close>

definition merge_options :: "RetryOptions \<Rightarrow> RetryOptions \<Rightarrow> RetryOptions" where
  "merge_options a b =
     \<lparr>o_maxAttempts = (if o_maxAttempts b = None then o_maxAttempts a else o_maxAttempts b),
      o_baseDelay = (if o_baseDelay b = None then o_baseDelay a else o_baseDelay b),
      o_maxDelay = (if o_maxDelay b = None then o_maxDelay a else o_maxDelay b),
      o_exponentialBase = (if o_exponentialBase b = None then o_exponentialBase a else o_exponentialBase b),
      o_jitter = (if o_jitter b = None then o_jitter a else o_jitter b),
      o_retryableErrors = (if o_retryableErrors b = None then o_retryableErrors a else o_retryableErrors b)\<rparr>"

definition default_options :: RetryOptions where
  "default_options =
     \<lparr>o_maxAttempts = Some (maxAttempts DEFAULT_RETRY_CONFIG), o_baseDelay = Some (baseDelay DEFAULT_RETRY_CONFIG),
      o_maxDelay = Some (maxDelay DEFAULT_RETRY_CONFIG), o_exponentialBase = Some (exponentialBase DEFAULT_RETRY_CONFIG),
      o_jitter = Some (jitter DEFAULT_RETRY_CONFIG), o_retryableErrors = Some (retryableErrors DEFAULT_RETRY_CONFIG)\<rparr>"

definition retryWrapper ::
  "RetryOptions \<Rightarrow> ('s, 'a) fallible_call \<Rightarrow> RetryOptions \<Rightarrow> (nat \<Rightarrow> rat) \<Rightarrow> 's \<Rightarrow> (ErrorLike option + 'a) \<times> rat list \<times> 's" where
  "retryWrapper config fn opts rnd s = withRetry fn (merge_options (merge_options default_options config) opts) rnd s"

definition preset :: "nat \<Rightarrow> rat \<Rightarrow> rat \<Rightarrow> rat \<Rightarrow> string list \<Rightarrow> RetryOptions" where
  "preset n base mx e errs =
     \<lparr>o_maxAttempts = Some n, o_baseDelay = Some base, o_maxDelay = Some mx, o_exponentialBase = Some e, o_jitter = None,
      o_retryableErrors = Some errs\<rparr>"

definition retryConfigs :: "(string \<times> RetryOptions) list" where
  "retryConfigs =
     [(''githubApi'', preset 3 2000 30000 2 [''ECONNRESET'', ''ECONNREFUSED'', ''ETIMEDOUT'', ''ENOTFOUND'']),
      (''git'', preset 2 1000 10000 2 [''ECONNRESET'', ''ETIMEDOUT'', ''NETWORK_ERROR'']),
      (''gitPush'', preset 3 2000 15000 2 [''ECONNRESET'', ''ETIMEDOUT'', ''NETWORK_ERROR'', ''EAUTH'', ''ENOTFOUND'']),
      (''claude'', preset 2 5000 60000 2 [''TIMEOUT'', ''DOCKER_ERROR'', ''NETWORK_ERROR'']),
      (''redis'', preset 5 500 5000 2 [''ECONNRESET'', ''ECONNREFUSED'', ''ETIMEDOUT''])]"

subsection \<open>What the loop does\<close>

text \<open>The state before call \<open>k\<close>, and whether call \<open>k\<close> ends the loop.\<close>

fun call_state :: "('s, 'a) fallible_call \<Rightarrow> 's \<Rightarrow> nat \<Rightarrow> 's" where
  "call_state fn s 0 = s"
| "call_state fn s (Suc k) = snd (fn (call_state fn s k))"

definition settles :: "('s, 'a) fallible_call \<Rightarrow> RetryConfig \<Rightarrow> 's \<Rightarrow> nat \<Rightarrow> bool" where
  "settles fn config s k =
     (case fst (fn (call_state fn s k)) of Inr x \<Rightarrow> True | Inl e \<Rightarrow> Suc k = maxAttempts config \<or> \<not> isRetryableError e config)"

lemma retry_loop_settled:
  assumes "a < maxAttempts config" "settles fn config s a"
  shows "retry_loop fn config rnd a l (call_state fn s a)
           = (map_sum Some (\<lambda>x. x) (fst (fn (call_state fn s a))), [], call_state fn s (Suc a))"
  using assms by (subst retry_loop.simps) (auto simp: settles_def split: prod.splits sum.splits)

lemma retry_loop_continues:
  assumes "a < maxAttempts config" "\<not> settles fn config s a"
  shows "Suc a < maxAttempts config"
    and "\<exists>e. retry_loop fn config rnd a l (call_state fn s a)
           = (let (r, ds, s2) = retry_loop fn config rnd (Suc a) (Some e) (call_state fn s (Suc a))
              in (r, calculateDelay (rnd a) a config # ds, s2))"
proof -
  obtain e s1 where fn: "fn (call_state fn s a) = (Inl e, s1)" and n: "Suc a \<noteq> maxAttempts config" and r: "isRetryableError e config"
    using assms(2) by (cases "fn (call_state fn s a)") (auto simp: settles_def split: sum.splits)
  show "Suc a < maxAttempts config" using assms(1) n by simp
  show "\<exists>e. retry_loop fn config rnd a l (call_state fn s a)
           = (let (r, ds, s2) = retry_loop fn config rnd (Suc a) (Some e) (call_state fn s (Suc a))
              in (r, calculateDelay (rnd a) a config # ds, s2))"
    using assms(1) fn n r by (intro exI [of _ e]) (subst retry_loop.simps, simp)
qed

lemma retry_loop_from:
  assumes "a < maxAttempts config"
  shows "\<exists>k. a \<le> k \<and> k < maxAttempts config \<and> settles fn config s k \<and> (\<forall>j. a \<le> j \<and> j < k \<longrightarrow> \<not> settles fn config s j)
           \<and> retry_loop fn config rnd a l (call_state fn s a)
               = (map_sum Some (\<lambda>x. x) (fst (fn (call_state fn s k))),
                  map (\<lambda>j. calculateDelay (rnd j) j config) [a..<k], call_state fn s (Suc k))"
  using assms
proof (induction "maxAttempts config - a" arbitrary: a l rule: less_induct)
  case less
  show ?case
  proof (cases "settles fn config s a")
    case True
    then show ?thesis using retry_loop_settled [OF less.prems True] less.prems by (intro exI [of _ a]) auto
  next
    case False
    note more = retry_loop_continues [OF less.prems False]
    obtain e where e: "retry_loop fn config rnd a l (call_state fn s a)
           = (let (r, ds, s2) = retry_loop fn config rnd (Suc a) (Some e) (call_state fn s (Suc a))
              in (r, calculateDelay (rnd a) a config # ds, s2))"
      using more(2) by blast
    have smaller: "maxAttempts config - Suc a < maxAttempts config - a" using less.prems by simp
    obtain k where k: "Suc a \<le> k" "k < maxAttempts config" "settles fn config s k"
      "\<forall>j. Suc a \<le> j \<and> j < k \<longrightarrow> \<not> settles fn config s j"
      "retry_loop fn config rnd (Suc a) (Some e) (call_state fn s (Suc a))
         = (map_sum Some (\<lambda>x. x) (fst (fn (call_state fn s k))), map (\<lambda>j. calculateDelay (rnd j) j config) [Suc a..<k], call_state fn s (Suc k))"
      using less.hyps [OF smaller more(1), of "Some e"] by blast
    have "\<forall>j. a \<le> j \<and> j < k \<longrightarrow> \<not> settles fn config s j" using k(4) False by (metis Suc_leI le_neq_implies_less)
    moreover have "[a..<k] = a # [Suc a..<k]" using k(1) by (simp add: upt_conv_Cons)
    ultimately show ?thesis using k e by (intro exI [of _ k]) simp
  qed
qed

lemma calculateDelay_bounds:
  assumes "0 \<le> rnd" "rnd \<le> 1" "0 \<le> maxDelay config"
  shows "0 \<le> calculateDelay rnd n config \<and> calculateDelay rnd n config \<le> 5 / 4 * maxDelay config"
proof -
  define d where "d = min (baseDelay config * exponentialBase config ^ n) (maxDelay config)"
  have le: "d \<le> maxDelay config" by (simp add: d_def)
  have "d + (rnd - 1 / 2) * 2 * (d * (1 / 4)) = d * (3 / 4 + rnd / 2)" by (simp add: field_simps)
  moreover have "d * (3 / 4 + rnd / 2) \<le> 5 / 4 * maxDelay config"
  proof (cases "0 \<le> d")
    case True
    then have "d * (3 / 4 + rnd / 2) \<le> d * (5 / 4)" using assms by (intro mult_left_mono) auto
    then show ?thesis using le by simp
  next
    case False
    then have "d * (3 / 4 + rnd / 2) \<le> 0" using assms by (intro mult_nonpos_nonneg) auto
    then show ?thesis using assms(3) by linarith
  qed
  moreover have "d \<le> 5 / 4 * maxDelay config" using le assms(3) by linarith
  ultimately show ?thesis using assms(3) by (auto simp: calculateDelay_def d_def [symmetric] Let_def)
qed

lemma quota_not_retryable: "isQuotaExhaustionError (er_value e) \<Longrightarrow> \<not> isRetryableError e config"
  by (simp add: isRetryableError_def)

lemma unsettled_call: "\<not> settles fn config s j \<Longrightarrow> \<exists>e. fst (fn (call_state fn s j)) = Inl e \<and> isRetryableError e config"
  by (auto simp: settles_def split: sum.splits)

text \<open>
  C23: a call under \<open>withRetry\<close> is made again exactly as long as it fails with an error that may pass. The outcome is that of
  the first call that succeeds, fails for good or is the last one allowed; an error that says a quota is exhausted always
  ends the loop; between two calls it sleeps for at most five quarters of the configured maximum delay.
\<close>

theorem retries_stop_at_first_settled_call:
  assumes "0 < maxAttempts (retry_config opts)" "\<And>j. 0 \<le> rnd j \<and> rnd j \<le> 1" "0 \<le> maxDelay (retry_config opts)"
  shows "\<exists>k < maxAttempts (retry_config opts).
           settles fn (retry_config opts) s k \<and> (\<forall>j<k. \<not> settles fn (retry_config opts) s j)
         \<and> (\<forall>j<k. \<exists>e. fst (fn (call_state fn s j)) = Inl e \<and> \<not> isQuotaExhaustionError (er_value e))
         \<and> (\<exists>delays. withRetry fn opts rnd s = (map_sum Some (\<lambda>x. x) (fst (fn (call_state fn s k))), delays, call_state fn s (Suc k))
              \<and> length delays = k \<and> (\<forall>d \<in> set delays. 0 \<le> d \<and> d \<le> 5 / 4 * maxDelay (retry_config opts)))"
proof -
  let ?c = "retry_config opts"
  obtain k where k: "k < maxAttempts ?c" "settles fn ?c s k" "\<forall>j<k. \<not> settles fn ?c s j"
    "withRetry fn opts rnd s = (map_sum Some (\<lambda>x. x) (fst (fn (call_state fn s k))),
       map (\<lambda>j. calculateDelay (rnd j) j ?c) [0..<k], call_state fn s (Suc k))"
    using retry_loop_from [OF assms(1), of fn s rnd None] by (auto simp: withRetry_def)
  have "\<exists>e. fst (fn (call_state fn s j)) = Inl e \<and> \<not> isQuotaExhaustionError (er_value e)" if "j < k" for j
    using unsettled_call [of fn ?c s j] k(3) that quota_not_retryable by blast
  moreover have "\<forall>d \<in> set (map (\<lambda>j. calculateDelay (rnd j) j ?c) [0..<k]). 0 \<le> d \<and> d \<le> 5 / 4 * maxDelay ?c"
    using calculateDelay_bounds assms(2,3) by auto
  ultimately show ?thesis
    using k by (intro exI [of _ k] conjI allI impI exI [of _ "map (\<lambda>j. calculateDelay (rnd j) j ?c) [0..<k]"]) auto
qed

text \<open>A call that fails twice with a lost connection and then succeeds.\<close>

definition ex_error :: ErrorLike where
  "ex_error = \<lparr>er_value = EObj (Some ''socket hang up'') ''Error: socket hang up'' False [], er_code = Some ''ECONNRESET'', er_status = None\<rparr>"

definition ex_call :: "(nat, nat) fallible_call" where
  "ex_call n = (if n < 2 then (Inl ex_error, Suc n) else (Inr n, Suc n))"

definition no_options :: RetryOptions where
  "no_options = \<lparr>o_maxAttempts = None, o_baseDelay = None, o_maxDelay = None, o_exponentialBase = None, o_jitter = None, o_retryableErrors = None\<rparr>"

lemma ex_config: "maxAttempts (retry_config no_options) = 3" "maxDelay (retry_config no_options) = 30000"
  by (simp_all add: retry_config_def no_options_def option_or_def DEFAULT_RETRY_CONFIG_def)

lemma ex_run: "withRetry ex_call no_options (\<lambda>j. 1 / 2) 0 = (Inr 2, [1000, 2000], 3)"
  by code_simp

theorem retries_stop_at_first_settled_call_witness:
  "\<exists>k. k < 3 \<and> settles ex_call (retry_config no_options) 0 k
     \<and> withRetry ex_call no_options (\<lambda>j. 1 / 2) 0 = (Inr 2, [1000, 2000], 3) \<and> length [1000 :: rat, 2000] = k"
  using retries_stop_at_first_settled_call [of no_options "\<lambda>j. 1 / 2" ex_call 0] by (auto simp: ex_config ex_run)

end
