(* ===== verification/Reconcile_Transitions.thy ===== *)
theory Reconcile_Transitions
  imports Error_Text Task_State
begin

section \<open>The transitions the reconciler writes\<close>

text \<open>
  \<^verbatim>\<open>src/taskReconciliationTransitions.ts\<close>, \<^verbatim>\<open>src/taskReconciliationTime.ts\<close> and
  \<open>formatTaskTerminalReason\<close> of \<^verbatim>\<open>packages/shared/src/taskLifecycle.ts\<close>: how a queue job that ended, or a finished state in
  Redis whose row was lost, becomes the last transition of a task.
\<close>

subsection \<open>Ages\<close>

text \<open>
  A stored time is a number, the text \<open>new Date(ms).toISOString()\<close>, of which only the milliseconds are kept, or any other text, whose
  \<open>Date.parse\<close> is an argument. Numbers are whole milliseconds.
\<close>

datatype stamp = Stamp_number int | Stamp_iso int | Stamp_text string

definition digits_text :: "string \<Rightarrow> bool" where
  "digits_text s = (length s \<ge> 10 \<and> list_all js_digit s)"

definition timestampMilliseconds :: "(string \<Rightarrow> int option) \<Rightarrow> stamp \<Rightarrow> int option" where
  "timestampMilliseconds date_parse v =
     (case v of
        Stamp_number n \<Rightarrow> Some n
      | Stamp_iso n \<Rightarrow> Some n
      | Stamp_text s \<Rightarrow>
          (let t = js_trim s
           in if digits_text t
              then (let numeric = int (js_number_of_digits t) in Some (if numeric < 100000000000 then numeric * 1000 else numeric))
              else date_parse t))"

definition taskAgeMs :: "(string \<Rightarrow> int option) \<Rightarrow> stamp \<Rightarrow> int \<Rightarrow> int option" where
  "taskAgeMs date_parse updatedAt now =
     (case timestampMilliseconds date_parse updatedAt of
        None \<Rightarrow> None
      | Some timestamp \<Rightarrow> (if timestamp > now then None else Some (now - timestamp)))"

lemma taskAgeMs_iso: "taskAgeMs dp (Stamp_iso t) now = (if t > now then None else Some (now - t))"
  by (simp add: taskAgeMs_def timestampMilliseconds_def)

subsection \<open>Terminal reasons\<close>

definition formatTaskTerminalReason :: "string \<Rightarrow> string" where
  "formatTaskTerminalReason reason =
     (if reason = ''cancelled_issue_closed'' then ''Cancelled because the issue was closed.''
      else if reason = ''cancelled_label_removed'' then ''Cancelled because the processing trigger label was removed.''
      else if reason = ''cancelled_pr_closed'' then ''Cancelled because the pull request was closed without merging.''
      else if reason = ''cancelled_by_user'' \<or> reason = ''user_cancelled'' then ''Cancelled by a user.''
      else if reason = ''timed_out'' then ''The task exceeded its time limit.''
      else if reason = ''cost_cap_exceeded'' then ''The run was stopped because it reached its spend cap.''
      else if reason = ''stalled'' then ''The agent stopped producing output; the stall watchdog stopped the run.''
      else if reason = ''degenerate_output'' then ''The agent produced only whitespace output; the watchdog stopped the run.''
      else if reason = ''pr_merged'' then ''The pull request was merged.''
      else if reason = ''skipped_issue_done'' then ''Skipped because the issue was already completed by another run.''
      else ''The task ended.'')"

subsection \<open>Transitions\<close>

record PersistedTaskTerminalTransition =
  pt_state :: TaskState
  pt_reason :: string
  pt_metadata :: js_object

definition processorText :: "jsval \<Rightarrow> string option" where
  "processorText value =
     (case value of JStr s \<Rightarrow> (if js_trim s \<noteq> [] then Some (sanitizeErrorMessage (Some s) 500) else None) | _ \<Rightarrow> None)"

definition failedTaskTransition :: "string \<Rightarrow> string \<Rightarrow> PersistedTaskTerminalTransition" where
  "failedTaskTransition message finalizer =
     \<lparr>pt_state = Failed, pt_reason = ''Task execution failed'',
      pt_metadata = [(''finalizedBy'', JStr finalizer),
        (''error'', JObj [(''message'', JStr (sanitizeErrorMessage (Some message) 500)), (''category'', JStr ''worker'')])]\<rparr>"

definition suffix_reason :: "string option \<Rightarrow> string" where
  "suffix_reason reason = (case reason of Some r \<Rightarrow> (if r = [] then [] else '': '' @ r) | None \<Rightarrow> [])"

definition cancelledJobTransition :: "string \<Rightarrow> string option \<Rightarrow> js_object \<Rightarrow> PersistedTaskTerminalTransition" where
  "cancelledJobTransition status reason metadata =
     \<lparr>pt_state = Cancelled,
      pt_reason = (if status = ''cancelled'' then formatTaskTerminalReason (case reason of Some r \<Rightarrow> r | None \<Rightarrow> [])
                   else ''Task job '' @ status @ suffix_reason reason),
      pt_metadata = js_spread metadata
        ((if status = ''cancelled'' \<and> reason = Some ''user_cancelled'' then [(''terminalReason'', JStr ''cancelled_by_user'')] else [])
         @ (case reason of
              Some r \<Rightarrow> (if status = ''cancelled'' \<and> prefix ''cancelled_'' r then [(''terminalReason'', JStr r)] else [])
            | None \<Rightarrow> []))\<rparr>"

definition result_field :: "jsval \<Rightarrow> string \<Rightarrow> jsval" where
  "result_field value k = (case value of JObj r \<Rightarrow> js_get r k | _ \<Rightarrow> JUndefined)"

definition text_or_null :: "string option \<Rightarrow> jsval" where
  "text_or_null v = (case v of Some s \<Rightarrow> JStr s | None \<Rightarrow> JNull)"

definition COMPLETED_RECONCILIATION :: string where "COMPLETED_RECONCILIATION = ''bullmq_completed_reconciliation''"

definition completedJobTransition :: "jsval \<Rightarrow> PersistedTaskTerminalTransition" where
  "completedJobTransition value =
     (let status = processorText (result_field value ''status''); reason = processorText (result_field value ''reason'');
          metadata = [(''finalizedBy'', JStr COMPLETED_RECONCILIATION), (''jobResultStatus'', text_or_null status),
                      (''jobResultReason'', text_or_null reason)]
      in case status of
           None \<Rightarrow> failedTaskTransition ''Task job completed without a result status'' COMPLETED_RECONCILIATION
         | Some st \<Rightarrow>
             (if st \<in> {''cancelled'', ''requeued'', ''rescheduled''} then cancelledJobTransition st reason metadata
              else if st = ''failed''
              then failedTaskTransition (case reason of Some r \<Rightarrow> r | None \<Rightarrow> ''Task job returned a failed result'') COMPLETED_RECONCILIATION
              else if st = [] then failedTaskTransition ''Task job completed without a result status'' COMPLETED_RECONCILIATION
              else if st \<notin> {''complete'', ''completed'', ''partial'', ''skipped''}
              then failedTaskTransition (''Unexpected task job result status: '' @ st) COMPLETED_RECONCILIATION
              else \<lparr>pt_state = Completed,
                    pt_reason = (if st = ''skipped'' then ''Task job skipped'' @ suffix_reason reason else ''Task job completed''),
                    pt_metadata = metadata\<rparr>))"

text \<open>The last entry of the history with the state of the task, and its replay. Times are kept as milliseconds.\<close>

definition find_last :: "('a \<Rightarrow> bool) \<Rightarrow> 'a list \<Rightarrow> 'a option" where
  "find_last P xs = find P (rev xs)"

definition redisTerminalTransition :: "TaskStateData \<Rightarrow> PersistedTaskTerminalTransition" where
  "redisTerminalTransition task =
     (let terminalEntry = find_last (\<lambda>h. HistoryEntry.h_state h = ts_state task) (ts_history task);
          originalMetadata = (case terminalEntry of Some h \<Rightarrow> or_empty (HistoryEntry.h_metadata h) | None \<Rightarrow> [])
      in \<lparr>pt_state = ts_state task,
          pt_reason = (case terminalEntry of
              Some h \<Rightarrow> (if js_trim (HistoryEntry.h_reason h) \<noteq> [] then HistoryEntry.h_reason h else ''Recovered terminal task state from Redis'')
            | None \<Rightarrow> ''Recovered terminal task state from Redis''),
          pt_metadata = js_spread originalMetadata
            ([(''originalFinalizedBy'', js_coalesce (js_get originalMetadata ''finalizedBy'') JNull),
              (''finalizedBy'', JStr ''redis_terminal_reconciliation''),
              (''redisUpdatedAt'', JNum (Fin (of_int (ts_updatedAt task)))),
              (''redisVersion'', (case ts_version task of Some v \<Rightarrow> JNum (Fin (of_nat v)) | None \<Rightarrow> JNull))]
             @ reason_metadata (ts_terminalReason task))\<rparr>)"

subsection \<open>What a transition says\<close>

lemma completedJobTransition_terminal: "pt_state (completedJobTransition v) \<in> {Completed, Failed, Cancelled}"
  by (auto simp: completedJobTransition_def cancelledJobTransition_def failedTaskTransition_def Let_def split: option.split)

lemma finalizer_of_failed [simp]: "js_get (pt_metadata (failedTaskTransition m f)) ''finalizedBy'' = JStr f"
  by (simp add: failedTaskTransition_def js_get_def)

lemma map_of_js_spread: "map_of (js_spread a b) k = (case map_of (rev b) k of Some v \<Rightarrow> Some v | None \<Rightarrow> map_of a k)"
  unfolding js_spread_def
  by (induction b arbitrary: a) (auto simp: update_conv map_add_Some_iff split: option.split)

lemma js_get_spread: "js_get (js_spread a b) k = (case map_of (rev b) k of Some v \<Rightarrow> v | None \<Rightarrow> js_get a k)"
  by (simp add: js_get_def map_of_js_spread split: option.split)

lemma finalizer_of_replay: "js_get (pt_metadata (redisTerminalTransition task)) ''finalizedBy'' = JStr ''redis_terminal_reconciliation''"
  by (simp add: redisTerminalTransition_def Let_def js_get_spread reason_metadata_def split: option.split)

lemma reason_of_replay:
  "ts_terminalReason task = Some r \<Longrightarrow> js_get (pt_metadata (redisTerminalTransition task)) ''terminalReason'' = JStr (show_reason r)"
  by (simp add: redisTerminalTransition_def Let_def js_get_spread reason_metadata_def)

lemma finalizer_of_cancelled:
  "js_get (pt_metadata (cancelledJobTransition st reason m)) ''finalizedBy'' = js_get m ''finalizedBy''"
  by (simp add: cancelledJobTransition_def js_get_spread split: option.split)

lemma finalizer_of_completed: "js_get (pt_metadata (completedJobTransition v)) ''finalizedBy'' = JStr COMPLETED_RECONCILIATION"
proof -
  have "js_get ((''finalizedBy'', x) # m) ''finalizedBy'' = x" for x m by (simp add: js_get_def)
  then show ?thesis
    unfolding completedJobTransition_def Let_def by (simp only: finalizer_of_failed finalizer_of_cancelled split: option.split if_split) simp
qed

end
