(* ===== verification/Replacement_Policy.thy ===== *)
theory Replacement_Policy
  imports Retry
begin

section \<open>When a failed task may be replaced, and what its replacement is called\<close>

text \<open>
  \<^verbatim>\<open>src/taskReplacement/policy.ts\<close>, \<^verbatim>\<open>packages/shared/src/taskReplacement.ts\<close> and
  \<^verbatim>\<open>packages/shared/src/taskIdentifiers.ts\<close>: the causes of a replacement, the reasons against one, the caps, the
  classification of provider errors and the identifiers of task attempts.
\<close>

datatype ReplacementCause = Infra_lost | Provider_transient

datatype ReplacementSkipReason =
    Skip_disabled
  | Skip_cap_reached
  | Skip_budget_exhausted
  | Skip_user_cancelled
  | Skip_issue_closed
  | Skip_watchdog_stop
  | Skip_cost_cap_stop
  | Skip_goal_task
  | Skip_unsupported_task
  | Skip_replacement_not_started

definition MAX_INFRA_LOST_REPLACEMENTS :: nat where "MAX_INFRA_LOST_REPLACEMENTS = 1"

fun describeReplacementSkip :: "ReplacementSkipReason \<Rightarrow> string" where
  "describeReplacementSkip Skip_disabled = ''automatic replacement is disabled''"
| "describeReplacementSkip Skip_cap_reached = ''the replacement cap was reached''"
| "describeReplacementSkip Skip_budget_exhausted = ''earlier attempts used the whole per-run cost cap''"
| "describeReplacementSkip Skip_user_cancelled = ''the task was cancelled''"
| "describeReplacementSkip Skip_issue_closed = ''the issue was closed''"
| "describeReplacementSkip Skip_watchdog_stop = ''the task was stopped by the stall watchdog or its run timeout''"
| "describeReplacementSkip Skip_cost_cap_stop = ''the task was stopped by its cost cap''"
| "describeReplacementSkip Skip_goal_task = ''goal tasks use goal recovery instead''"
| "describeReplacementSkip Skip_unsupported_task = ''this task type cannot be replaced automatically''"
| "describeReplacementSkip Skip_replacement_not_started = ''the replacement attempt was ended by reconciliation before it started''"

subsection \<open>Caps\<close>

definition DEFAULT_MAX_PROVIDER_REPLACEMENTS :: nat where "DEFAULT_MAX_PROVIDER_REPLACEMENTS = 2"
definition MAX_PROVIDER_REPLACEMENTS_LIMIT :: nat where "MAX_PROVIDER_REPLACEMENTS_LIMIT = 10"

definition parseMaxProviderReplacements :: "jsval \<Rightarrow> nat option" where
  "parseMaxProviderReplacements value =
     (let candidate =
        (case value of
           JStr s \<Rightarrow> (if js_trim s \<noteq> [] \<and> list_all js_digit (js_trim s)
                      then JNum (Fin (of_nat (js_number_of_digits (js_trim s)))) else value)
         | _ \<Rightarrow> value)
      in case candidate of
           JNum (Fin r) \<Rightarrow>
             (if r = of_int \<lfloor>r\<rfloor> \<and> 0 \<le> r \<and> r \<le> of_nat MAX_PROVIDER_REPLACEMENTS_LIMIT then Some (nat \<lfloor>r\<rfloor>) else None)
         | _ \<Rightarrow> None)"

definition resolveMaxProviderReplacements :: "jsval \<Rightarrow> jsval \<Rightarrow> nat" where
  "resolveMaxProviderReplacements settingValue env_value =
     (case parseMaxProviderReplacements settingValue of
        Some n \<Rightarrow> n
      | None \<Rightarrow> (case parseMaxProviderReplacements env_value of Some n \<Rightarrow> n | None \<Rightarrow> DEFAULT_MAX_PROVIDER_REPLACEMENTS))"

definition infraLostReplacementEnabled :: "string option \<Rightarrow> bool" where
  "infraLostReplacementEnabled env_value =
     (js_lower (js_trim (option_or env_value [])) \<notin> {''false'', ''0'', ''no'', ''off''})"

lemma provider_cap_le_limit: "resolveMaxProviderReplacements v w \<le> MAX_PROVIDER_REPLACEMENTS_LIMIT"
proof -
  have "n \<le> MAX_PROVIDER_REPLACEMENTS_LIMIT" if "parseMaxProviderReplacements u = Some n" for u n
    using that by (auto simp: parseMaxProviderReplacements_def Let_def nat_le_iff floor_le_iff split: jsval.splits jsnum.splits if_splits)
  then show ?thesis
    by (auto simp: resolveMaxProviderReplacements_def DEFAULT_MAX_PROVIDER_REPLACEMENTS_def MAX_PROVIDER_REPLACEMENTS_LIMIT_def split: option.splits)
qed

subsection \<open>Stops that are never undone\<close>

definition stopReasonExclusion :: "string option \<Rightarrow> ReplacementSkipReason option" where
  "stopReasonExclusion terminalReason =
     (case terminalReason of
        None \<Rightarrow> None
      | Some r \<Rightarrow>
          (if r = [] then None
           else if prefix ''cancelled_'' r \<or> r = ''user_cancelled'' then Some Skip_user_cancelled
           else if ci_has ''watchdog'' r \<or> ci_has ''stall'' r \<or> ci_has ''timed_out'' r then Some Skip_watchdog_stop
           else if list_ex (\<lambda>p. ci_has p r)
                     [''costcap'', ''cost_cap'', ''spendcap'', ''spend_cap'', ''budgetcap'', ''budget_cap'', ''budget_exceeded'', ''cost_limit'']
             then Some Skip_cost_cap_stop
           else None))"

subsection \<open>Transient provider errors\<close>

text \<open>The error that ended a run: a string, or an object of which the code reads these fields.\<close>

datatype run_error =
    Error_text string
  | Error_object (re_message: "string option") (re_error: "string option") (re_status: "rat option") (re_code: "string option")
  | Error_other

fun errorText :: "run_error \<Rightarrow> string" where
  "errorText (Error_text s) = s"
| "errorText (Error_object (Some m) _ _ _) = m"
| "errorText (Error_object None (Some e) _ _) = e"
| "errorText _ = []"

definition server_error_code :: "string \<Rightarrow> bool" where
  "server_error_code w = (w \<noteq> [] \<and> hd w = CHR ''5'' \<and> list_all js_digit w)"

definition errorStatus :: "run_error \<Rightarrow> string \<Rightarrow> rat option" where
  "errorStatus e text0 =
     (case (case e of Error_object _ _ s _ \<Rightarrow> s | _ \<Rightarrow> None) of
        Some s \<Rightarrow> Some s
      | None \<Rightarrow> map_option (\<lambda>w. of_nat (js_number_of_digits w)) (find_word server_error_code 3 False text0))"

definition non_transient_provider_pattern :: "string \<Rightarrow> bool" where
  "non_transient_provider_pattern s =
     (find_word (\<lambda>w. w = ''429'') 3 False s \<noteq> None
      \<or> list_ex (\<lambda>p. ci_has p s)
          [''ratelimit'', ''rate limit'', ''rate_limit'', ''rate-limit'', ''too many requests'', ''usage limit'', ''authentication failed'',
           ''invalid username or token'', ''credentials'', ''aborted by user''])"

text \<open>The object that is handed to the retry classification: a plain object with its message, and its code when it has one.\<close>

definition classified_error :: "string \<Rightarrow> rat option \<Rightarrow> string option \<Rightarrow> ErrorLike" where
  "classified_error text0 status code =
     \<lparr>er_value = EObj (Some text0) object_string False
        ([EStr text0] @ (case status of Some _ \<Rightarrow> [EPrim] | None \<Rightarrow> []) @ (case code of Some c \<Rightarrow> [EStr c] | None \<Rightarrow> [])),
      er_code = code, er_status = status\<rparr>"

definition isTransientProviderError :: "run_error \<Rightarrow> string option \<Rightarrow> bool" where
  "isTransientProviderError e terminationReason =
     (if option_or terminationReason [] \<noteq> [] then False
      else let text0 = js_trim (errorText e); status = errorStatus e text0
           in if text0 = [] \<and> status = None then False
              else if status = Some 429 \<or> non_transient_provider_pattern text0 then False
              else isDefaultRetryableError (classified_error text0 status (case e of Error_object _ _ _ c \<Rightarrow> c | _ \<Rightarrow> None)))"

subsection \<open>Task identifiers\<close>

definition MAX_TASK_ID_LENGTH :: nat where "MAX_TASK_ID_LENGTH = 255"
definition MAX_TASK_ID_COMPONENT_LENGTH :: nat where "MAX_TASK_ID_COMPONENT_LENGTH = 80"

definition id_char :: "char \<Rightarrow> bool" where
  "id_char c = (js_word_char c \<or> c = CHR ''.'' \<or> c = CHR ''-'')"

definition TASK_ID_PATTERN :: "string \<Rightarrow> bool" where
  "TASK_ID_PATTERN s = (s \<noteq> [] \<and> list_all id_char s)"

text \<open>\<open>s.replace(/[...]+/g, '-')\<close>: each maximal run of the class becomes one hyphen; \<open>in_run\<close> says whether one is open.\<close>

fun replace_runs :: "(char \<Rightarrow> bool) \<Rightarrow> bool \<Rightarrow> string \<Rightarrow> string" where
  "replace_runs P in_run [] = []"
| "replace_runs P in_run (c # cs) =
     (if P c then (if in_run then replace_runs P True cs else CHR ''-'' # replace_runs P True cs)
      else c # replace_runs P False cs)"

definition id_edge :: "char \<Rightarrow> bool" where
  "id_edge c = (c = CHR ''.'' \<or> c = CHR ''_'' \<or> c = CHR ''-'')"

definition trim_edges_end :: "string \<Rightarrow> string" where
  "trim_edges_end s = rev (dropWhile id_edge (rev s))"

definition sanitizeTaskIdComponent :: "string \<Rightarrow> string \<Rightarrow> string" where
  "sanitizeTaskIdComponent value fallback =
     (let sanitized = trim_edges_end (dropWhile id_edge
            (replace_runs (\<lambda>c. c = CHR ''-'') False
               (replace_runs (\<lambda>c. \<not> id_char c) False (take MAX_TASK_ID_COMPONENT_LENGTH (js_trim value)))))
      in if sanitized = [] then fallback else sanitized)"

record IssueTaskIdParts =
  p_repoOwner :: string
  p_repoName :: string
  p_issueNumber :: int
  p_agentAlias :: string
  p_modelName :: string
  p_correlationId :: string

definition buildIssueTaskId :: "IssueTaskIdParts \<Rightarrow> string" where
  "buildIssueTaskId parts =
     (let pre = js_join ''-''
            [sanitizeTaskIdComponent (p_repoOwner parts) ''owner'', sanitizeTaskIdComponent (p_repoName parts) ''repository'',
             sanitizeTaskIdComponent (show_int (p_issueNumber parts)) ''issue'', sanitizeTaskIdComponent (p_agentAlias parts) ''agent'',
             sanitizeTaskIdComponent (p_modelName parts) ''model''];
          correlationId = sanitizeTaskIdComponent (p_correlationId parts) ''correlation'';
          suffix = ''-'' @ correlationId;
          prefixBudget = MAX_TASK_ID_LENGTH - length suffix;
          bounded = trim_edges_end (take prefixBudget pre)
      in (if bounded = [] then ''task'' else bounded) @ suffix)"

subsection \<open>Identifiers are valid and keep their correlation id\<close>

lemma set_replace_runs: "set (replace_runs P b s) \<subseteq> insert (CHR ''-'') {c \<in> set s. \<not> P c}"
  by (induction s arbitrary: b) auto

lemma length_replace_runs: "length (replace_runs P b s) \<le> length s"
  by (induction s arbitrary: b) (auto intro: le_SucI)

lemma set_trim_edges_end: "set (trim_edges_end s) \<subseteq> set s"
  by (auto simp: trim_edges_end_def dest: set_dropWhileD)

lemma length_trim_edges_end: "length (trim_edges_end s) \<le> length s"
  using length_dropWhile_le [of id_edge "rev s"] by (simp add: trim_edges_end_def)

lemma id_char_hyphen: "id_char (CHR ''-'')"
  by (simp add: id_char_def)

lemma sanitized_chars:
  assumes "list_all id_char fallback"
  shows "list_all id_char (sanitizeTaskIdComponent value fallback)"
proof -
  define a where "a = replace_runs (\<lambda>c. \<not> id_char c) False (take MAX_TASK_ID_COMPONENT_LENGTH (js_trim value))"
  define b where "b = replace_runs (\<lambda>c. c = CHR ''-'') False a"
  have "set a \<subseteq> {c. id_char c}" using set_replace_runs [of "\<lambda>c. \<not> id_char c" False] id_char_hyphen by (force simp: a_def)
  then have "set b \<subseteq> {c. id_char c}" using set_replace_runs [of "\<lambda>c. c = CHR ''-''" False a] id_char_hyphen by (force simp: b_def)
  moreover have "set (trim_edges_end (dropWhile id_edge b)) \<subseteq> set b"
    using set_trim_edges_end [of "dropWhile id_edge b"] by (auto dest: set_dropWhileD)
  ultimately show ?thesis
    using assms by (auto simp: sanitizeTaskIdComponent_def Let_def a_def [symmetric] b_def [symmetric] list_all_iff)
qed

lemma sanitized_length:
  assumes "length fallback \<le> MAX_TASK_ID_COMPONENT_LENGTH"
  shows "length (sanitizeTaskIdComponent value fallback) \<le> MAX_TASK_ID_COMPONENT_LENGTH"
proof -
  define a where "a = replace_runs (\<lambda>c. \<not> id_char c) False (take MAX_TASK_ID_COMPONENT_LENGTH (js_trim value))"
  define b where "b = replace_runs (\<lambda>c. c = CHR ''-'') False a"
  have "length a \<le> MAX_TASK_ID_COMPONENT_LENGTH"
    using length_replace_runs [of "\<lambda>c. \<not> id_char c" False "take MAX_TASK_ID_COMPONENT_LENGTH (js_trim value)"] by (simp add: a_def)
  moreover have "length b \<le> length a" by (simp add: b_def length_replace_runs)
  moreover have "length (trim_edges_end (dropWhile id_edge b)) \<le> length b"
    using length_trim_edges_end [of "dropWhile id_edge b"] length_dropWhile_le [of id_edge b] by linarith
  ultimately show ?thesis
    using assms by (simp add: sanitizeTaskIdComponent_def Let_def a_def [symmetric] b_def [symmetric])
qed

lemma fallback_chars: "list_all id_char ''owner''" "list_all id_char ''repository''" "list_all id_char ''issue''"
  "list_all id_char ''agent''" "list_all id_char ''model''" "list_all id_char ''correlation''" "list_all id_char ''task''"
  by code_simp+

lemma list_all_js_join: "list_all P sep \<Longrightarrow> list_all (list_all P) parts \<Longrightarrow> list_all P (js_join sep parts)"
  by (cases parts) (auto simp: js_join_def list_all_iff)

text \<open>The suffix that keeps an identifier apart from the identifiers of other attempts.\<close>

definition id_suffix :: "IssueTaskIdParts \<Rightarrow> string" where
  "id_suffix parts = ''-'' @ sanitizeTaskIdComponent (p_correlationId parts) ''correlation''"

lemma id_suffix_chars: "list_all id_char (id_suffix parts)"
  using sanitized_chars fallback_chars(6) id_char_hyphen by (simp add: id_suffix_def)

lemma id_suffix_length: "length (id_suffix parts) \<le> 81"
  using sanitized_length [of "''correlation''" "p_correlationId parts"] by (simp add: id_suffix_def MAX_TASK_ID_COMPONENT_LENGTH_def)

lemma buildIssueTaskId_parts:
  "\<exists>pre. buildIssueTaskId parts = pre @ id_suffix parts \<and> list_all id_char pre \<and> length pre \<le> MAX_TASK_ID_LENGTH - length (id_suffix parts)"
proof -
  define whole where "whole = js_join ''-''
            [sanitizeTaskIdComponent (p_repoOwner parts) ''owner'', sanitizeTaskIdComponent (p_repoName parts) ''repository'',
             sanitizeTaskIdComponent (show_int (p_issueNumber parts)) ''issue'', sanitizeTaskIdComponent (p_agentAlias parts) ''agent'',
             sanitizeTaskIdComponent (p_modelName parts) ''model'']"
  define bounded where "bounded = trim_edges_end (take (MAX_TASK_ID_LENGTH - length (id_suffix parts)) whole)"
  have "list_all id_char whole"
    unfolding whole_def by (rule list_all_js_join) (auto simp: id_char_hyphen intro!: sanitized_chars fallback_chars)
  then have "list_all id_char bounded"
    using set_trim_edges_end [of "take (MAX_TASK_ID_LENGTH - length (id_suffix parts)) whole"]
    by (force simp: bounded_def list_all_iff dest: in_set_takeD)
  moreover have "length bounded \<le> MAX_TASK_ID_LENGTH - length (id_suffix parts)"
    using length_trim_edges_end [of "take (MAX_TASK_ID_LENGTH - length (id_suffix parts)) whole"] by (simp add: bounded_def)
  moreover have "buildIssueTaskId parts = (if bounded = [] then ''task'' else bounded) @ id_suffix parts"
    by (simp add: buildIssueTaskId_def Let_def bounded_def whole_def id_suffix_def)
  ultimately show ?thesis
    using fallback_chars(7) id_suffix_length [of parts]
    by (intro exI [of _ "if bounded = [] then ''task'' else bounded"]) (auto simp: MAX_TASK_ID_LENGTH_def)
qed


definition ex_parts :: "string \<Rightarrow> IssueTaskIdParts" where
  "ex_parts corr =
     \<lparr>p_repoOwner = ''integry'', p_repoName = ''propr'', p_issueNumber = 42, p_agentAlias = ''codex'', p_modelName = ''openai/gpt-5.6'',
      p_correlationId = corr\<rparr>"

lemma ex_id: "buildIssueTaskId (ex_parts ''a1'') = ''integry-propr-42-codex-openai-gpt-5.6-a1''"
  "length (id_suffix (ex_parts ''a1'')) = length (id_suffix (ex_parts ''b2''))" "id_suffix (ex_parts ''a1'') \<noteq> id_suffix (ex_parts ''b2'')"
  by code_simp+


end
