(* ===== verification/Replacement_Store.thy ===== *)
theory Replacement_Store
  imports Replacement_Policy "HOL-Library.List_Lexorder" "HOL-Library.Char_ord"
begin

section \<open>The tables behind task replacement\<close>

text \<open>
  \<^verbatim>\<open>src/taskReplacement/store.ts\<close>: the rows of \<open>tasks\<close>, \<open>task_history\<close> and
  \<open>llm_executions\<close>, and every query and update the replacement service makes of them. A table is the list of its
  rows in insertion order; an update is the conditional update of SQL and counts the rows it changed. Each operation is
  atomic, as one statement or one transaction is.

  The JSON column \<open>replacement_request\<close> is written by this store only and is a record with optional fields;
  \<open>{}\<close> is the record without any. Its text is compared in \<open>withdrawRequest\<close>; the fields are always written in the same
  order, so that equal texts are equal records. Job data and history metadata are JSON objects. A timestamp is a
  number of milliseconds: texts of \<open>toISOString()\<close> compare in the order of the instants. Amounts are exact.
\<close>

type_synonym json_object = "(string \<times> jsval) list"
type_synonym timestamp = int

datatype ReplacementState = RS_pending | RS_dispatched | RS_skipped | RS_exhausted

record FailureNoticeRecord =
  n_id :: string
  n_cause :: ReplacementCause
  n_reason :: "ReplacementSkipReason option"
  n_exhausted :: bool
  n_maxReplacements :: "nat option"
  n_failure :: "string option"
  n_replacementTaskId :: "string option"
  n_attemptNumber :: "nat option"
  n_publish :: bool
  n_recordedAt :: timestamp
  n_commentAttempts :: "nat option"
  n_commentDelivered :: bool

record ReplacementDispatchRecord =
  d_replacementTaskId :: string
  d_jobId :: string
  d_jobData :: json_object
  d_attemptNumber :: nat
  d_maxReplacements :: nat
  d_remainingBudgetUsd :: "rat option"
  d_failure :: "string option"
  d_claimedAt :: timestamp

record ReplacementRequestRecord =
  rq_cause :: "ReplacementCause option"
  rq_terminalReason :: "string option"
  rq_requestedAt :: "timestamp option"
  rq_finalizedBy :: "string option"
  rq_dispatch :: "ReplacementDispatchRecord option"
  rq_failureNotice :: "FailureNoticeRecord option"

definition empty_request :: ReplacementRequestRecord where
  "empty_request =
     \<lparr>rq_cause = None, rq_terminalReason = None, rq_requestedAt = None, rq_finalizedBy = None, rq_dispatch = None, rq_failureNotice = None\<rparr>"

subsection \<open>Rows\<close>

record task_row =
  task_id :: string
  job_id :: "string option"
  correlation_id :: string
  repository :: string
  issue_number :: "int option"
  task_type :: "string option"
  model_name :: "string option"
  replaces_task_id :: "string option"
  replaced_by_task_id :: "string option"
  attempt_number :: "int option"
  lineage_root_task_id :: "string option"
  replacement_cause :: "ReplacementCause option"
  replacement_state :: "ReplacementState option"
  replacement_request :: "ReplacementRequestRecord option"
  replay_job_data :: "json_object option"
  branch_name :: "string option"

record history_row =
  h_task :: string
  h_state :: string
  h_timestamp :: timestamp
  h_reason :: string
  h_metadata :: "json_object option"

record task_db =
  db_tasks :: "task_row list"
  db_history :: "history_row list"
  db_executions :: "(string \<times> rat) list"

definition sql_update :: "(task_row \<Rightarrow> bool) \<Rightarrow> (task_row \<Rightarrow> task_row) \<Rightarrow> task_db \<Rightarrow> nat \<times> task_db" where
  "sql_update P f db =
     (length (filter P (db_tasks db)), db\<lparr>db_tasks := map (\<lambda>r. if P r then f r else r) (db_tasks db)\<rparr>)"

subsection \<open>Reading a task\<close>

record ReplaceableTask =
  t_taskId :: string
  t_repository :: string
  t_issueNumber :: "nat option"
  t_taskType :: "string option"
  t_modelName :: "string option"
  t_replacesTaskId :: "string option"
  t_replacedByTaskId :: "string option"
  t_attemptNumber :: nat
  t_lineageRootTaskId :: string
  t_replacementCause :: "ReplacementCause option"
  t_replacementState :: "ReplacementState option"
  t_replacementRequest :: "ReplacementRequestRecord option"
  t_replayJobData :: "json_object option"
  t_branchName :: "string option"
  t_latestState :: "string option"
  t_latestTerminalReason :: "string option"
  t_latestFinalizedBy :: "string option"

text \<open>The helper \<open>text\<close> reads an empty column as absent.\<close>

definition text_column :: "string option \<Rightarrow> string option" where
  "text_column v = (if v = Some [] then None else v)"

definition positiveInteger :: "int option \<Rightarrow> nat option" where
  "positiveInteger v = (case v of Some i \<Rightarrow> (if i > 0 then Some (nat i) else None) | None \<Rightarrow> None)"

definition metadata_field :: "history_row \<Rightarrow> string \<Rightarrow> jsval" where
  "metadata_field h k = (case h_metadata h of None \<Rightarrow> JUndefined | Some m \<Rightarrow> js_get m k)"

definition task_history :: "string \<Rightarrow> task_db \<Rightarrow> history_row list" where
  "task_history t db = filter (\<lambda>h. h_task h = t) (db_history db)"

definition last_opt :: "'a list \<Rightarrow> 'a option" where
  "last_opt xs = (if xs = [] then None else Some (last xs))"

definition latest_state :: "string \<Rightarrow> task_db \<Rightarrow> string option" where
  "latest_state t db = text_column (map_option h_state (last_opt (task_history t db)))"

text \<open>The metadata of the last transition; timeline events, which carry an \<open>event\<close>, are passed over.\<close>

definition latest_transition :: "string \<Rightarrow> task_db \<Rightarrow> history_row option" where
  "latest_transition t db = last_opt (filter (\<lambda>h. js_nullish (metadata_field h ''event'')) (task_history t db))"

definition latest_metadata_text :: "string \<Rightarrow> task_db \<Rightarrow> string \<Rightarrow> string option" where
  "latest_metadata_text t db k =
     (case latest_transition t db of None \<Rightarrow> None | Some h \<Rightarrow> js_string_of (metadata_field h k))"

definition finalizedBy :: "string \<Rightarrow> task_db \<Rightarrow> string option" where
  "finalizedBy t db = latest_metadata_text t db ''finalizedBy''"

definition row_root :: "task_row \<Rightarrow> string" where
  "row_root r = (case text_column (lineage_root_task_id r) of Some rootTaskId \<Rightarrow> rootTaskId | None \<Rightarrow> task_id r)"

definition row_attempt :: "task_row \<Rightarrow> nat" where
  "row_attempt r = (case positiveInteger (attempt_number r) of Some n \<Rightarrow> n | None \<Rightarrow> 1)"

definition taskFromRow :: "task_db \<Rightarrow> task_row \<Rightarrow> ReplaceableTask" where
  "taskFromRow db r =
     \<lparr>t_taskId = task_id r, t_repository = repository r, t_issueNumber = positiveInteger (issue_number r),
      t_taskType = text_column (task_type r), t_modelName = text_column (model_name r),
      t_replacesTaskId = text_column (replaces_task_id r), t_replacedByTaskId = text_column (replaced_by_task_id r),
      t_attemptNumber = row_attempt r, t_lineageRootTaskId = row_root r,
      t_replacementCause = replacement_cause r, t_replacementState = replacement_state r,
      t_replacementRequest = replacement_request r, t_replayJobData = replay_job_data r, t_branchName = text_column (branch_name r),
      t_latestState = latest_state (task_id r) db,
      t_latestTerminalReason = latest_metadata_text (task_id r) db ''terminalReason'',
      t_latestFinalizedBy = finalizedBy (task_id r) db\<rparr>"

definition find_task :: "string \<Rightarrow> task_db \<Rightarrow> task_row option" where
  "find_task t db = find (\<lambda>r. task_id r = t) (db_tasks db)"

definition loadTask :: "string \<Rightarrow> task_db \<Rightarrow> ReplaceableTask option" where
  "loadTask t db = map_option (taskFromRow db) (find_task t db)"

subsection \<open>Reading a lineage\<close>

record LineageAttempt =
  la_taskId :: string
  la_attemptNumber :: nat
  la_replacementCause :: "ReplacementCause option"
  la_state :: "string option"
  la_costUsd :: rat

definition task_cost :: "string \<Rightarrow> task_db \<Rightarrow> rat" where
  "task_cost t db = sum_list (map snd (filter (\<lambda>e. fst e = t) (db_executions db)))"

definition lineage_rows :: "string \<Rightarrow> task_db \<Rightarrow> task_row list" where
  "lineage_rows rootTaskId db = filter (\<lambda>r. task_id r = rootTaskId \<or> lineage_root_task_id r = Some rootTaskId) (db_tasks db)"

definition lineage_attempt :: "task_db \<Rightarrow> task_row \<Rightarrow> LineageAttempt" where
  "lineage_attempt db r =
     \<lparr>la_taskId = task_id r, la_attemptNumber = row_attempt r, la_replacementCause = replacement_cause r,
      la_state = latest_state (task_id r) db, la_costUsd = task_cost (task_id r) db\<rparr>"

definition loadLineage :: "string \<Rightarrow> task_db \<Rightarrow> LineageAttempt list" where
  "loadLineage rootTaskId db = sort_key la_attemptNumber (map (lineage_attempt db) (lineage_rows rootTaskId db))"

subsection \<open>Decisions and follow-ups\<close>

definition markRequested :: "string \<Rightarrow> ReplacementRequestRecord \<Rightarrow> task_db \<Rightarrow> bool \<times> task_db" where
  "markRequested t request db =
     (case sql_update (\<lambda>r. task_id r = t \<and> replaced_by_task_id r = None)
             (\<lambda>r. r\<lparr>replacement_state := Some RS_pending, replacement_request := Some request\<rparr>) db of
        (updated, db1) \<Rightarrow> (updated > 0, db1))"

definition setState :: "string \<Rightarrow> ReplacementState option \<Rightarrow> task_db \<Rightarrow> task_db" where
  "setState t st db = snd (sql_update (\<lambda>r. task_id r = t) (\<lambda>r. r\<lparr>replacement_state := st\<rparr>) db)"

definition request_or_empty :: "ReplacementRequestRecord option \<Rightarrow> ReplacementRequestRecord" where
  "request_or_empty rq = (case rq of Some x \<Rightarrow> x | None \<Rightarrow> empty_request)"

definition recordSkipped :: "string \<Rightarrow> ReplacementState \<Rightarrow> FailureNoticeRecord \<Rightarrow> task_db \<Rightarrow> task_db" where
  "recordSkipped t st notice db =
     snd (sql_update (\<lambda>r. task_id r = t)
            (\<lambda>r. r\<lparr>replacement_state := Some st,
                   replacement_request := Some ((request_or_empty (replacement_request r))\<lparr>rq_failureNotice := Some notice\<rparr>)\<rparr>) db)"

definition row_notice :: "task_row \<Rightarrow> FailureNoticeRecord option" where
  "row_notice r = (case replacement_request r of None \<Rightarrow> None | Some rq \<Rightarrow> rq_failureNotice rq)"

definition has_notice :: "string \<Rightarrow> string \<Rightarrow> task_row \<Rightarrow> bool" where
  "has_notice t noticeId r = (task_id r = t \<and> map_option n_id (row_notice r) = Some noticeId)"

definition updateFailureNotice :: "string \<Rightarrow> string \<Rightarrow> (FailureNoticeRecord \<Rightarrow> FailureNoticeRecord) \<Rightarrow> task_db \<Rightarrow> task_db" where
  "updateFailureNotice t noticeId patch db =
     snd (sql_update (has_notice t noticeId)
            (\<lambda>r. r\<lparr>replacement_request :=
                     Some ((request_or_empty (replacement_request r))\<lparr>rq_failureNotice := map_option patch (row_notice r)\<rparr>)\<rparr>) db)"

definition clearFailureNotice :: "string \<Rightarrow> string \<Rightarrow> task_db \<Rightarrow> task_db" where
  "clearFailureNotice t noticeId db =
     snd (sql_update (has_notice t noticeId)
            (\<lambda>r. let remaining = (request_or_empty (replacement_request r))\<lparr>rq_failureNotice := None\<rparr>
                 in r\<lparr>replacement_request := (if remaining = empty_request then None else Some remaining)\<rparr>) db)"

definition listFailureNotices :: "timestamp \<Rightarrow> nat \<Rightarrow> task_db \<Rightarrow> (string \<times> FailureNoticeRecord) list" where
  "listFailureNotices recordedBefore n db =
     List.map_filter (\<lambda>r. map_option (Pair (task_id r)) (row_notice r))
       (take n (sort_key task_id
          (filter (\<lambda>r. case row_notice r of Some x \<Rightarrow> n_recordedAt x \<le> recordedBefore | None \<Rightarrow> False) (db_tasks db))))"

definition withdrawRequest :: "string \<Rightarrow> ReplacementRequestRecord \<Rightarrow> FailureNoticeRecord \<Rightarrow> task_db \<Rightarrow> bool \<times> task_db" where
  "withdrawRequest t request notice db =
     (case sql_update
             (\<lambda>r. task_id r = t \<and> replacement_state r = Some RS_pending \<and> replacement_request r = Some request
                  \<and> replaced_by_task_id r = None)
             (\<lambda>r. r\<lparr>replacement_state := None, replacement_request := Some (empty_request\<lparr>rq_failureNotice := Some notice\<rparr>)\<rparr>) db of
        (updated, db1) \<Rightarrow> (updated > 0, db1))"

subsection \<open>Claiming the replacement slot\<close>

definition TRANSIENT_JOB_FIELDS :: "string list" where
  "TRANSIENT_JOB_FIELDS = [''issuePayload'', ''repoPayload'', ''isRetryFromRateLimit'', ''replacementBranch'', ''costBudgetTaskIds'']"

definition replayJobData :: "json_object \<Rightarrow> json_object" where
  "replayJobData data = filter (\<lambda>(k, v). k \<notin> set TRANSIENT_JOB_FIELDS \<and> \<not> prefix ''repositoryWorkflow'' k) data"

record CreateReplacementInput =
  cr_original :: ReplaceableTask
  cr_replacementTaskId :: string
  cr_jobId :: string
  cr_correlationId :: string
  cr_attemptNumber :: nat
  cr_cause :: ReplacementCause
  cr_jobData :: json_object
  cr_replayData :: json_object
  cr_timestamp :: timestamp
  cr_maxReplacements :: nat
  cr_remainingBudgetUsd :: "rat option"
  cr_failure :: "string option"

definition nonempty :: "string option \<Rightarrow> string option" where
  "nonempty v = (if v = Some [] then None else v)"

definition dispatch_record :: "CreateReplacementInput \<Rightarrow> ReplacementDispatchRecord" where
  "dispatch_record i =
     \<lparr>d_replacementTaskId = cr_replacementTaskId i, d_jobId = cr_jobId i, d_jobData = cr_jobData i, d_attemptNumber = cr_attemptNumber i,
      d_maxReplacements = cr_maxReplacements i, d_remainingBudgetUsd = cr_remainingBudgetUsd i, d_failure = nonempty (cr_failure i),
      d_claimedAt = cr_timestamp i\<rparr>"

definition claim_request :: "CreateReplacementInput \<Rightarrow> ReplacementRequestRecord" where
  "claim_request i =
     (case t_replacementRequest (cr_original i) of Some rq \<Rightarrow> rq | None \<Rightarrow> empty_request\<lparr>rq_requestedAt := Some (cr_timestamp i)\<rparr>)
       \<lparr>rq_cause := Some (cr_cause i), rq_dispatch := Some (dispatch_record i)\<rparr>"

fun cause_text :: "ReplacementCause \<Rightarrow> string" where
  "cause_text Infra_lost = ''infra_lost''"
| "cause_text Provider_transient = ''provider_transient''"

definition replacement_row :: "CreateReplacementInput \<Rightarrow> task_row" where
  "replacement_row i =
     (let original = cr_original i
      in \<lparr>task_id = cr_replacementTaskId i, job_id = Some (cr_jobId i), correlation_id = cr_correlationId i,
          repository = t_repository original, issue_number = map_option int (t_issueNumber original),
          task_type = Some (option_or (t_taskType original) ''issue''),
          model_name = (case js_string_of (js_get (cr_jobData i) ''modelName'') of Some m \<Rightarrow> Some m | None \<Rightarrow> t_modelName original),
          replaces_task_id = Some (t_taskId original), replaced_by_task_id = None,
          attempt_number = Some (int (cr_attemptNumber i)), lineage_root_task_id = Some (t_lineageRootTaskId original),
          replacement_cause = Some (cr_cause i), replacement_state = None, replacement_request = None,
          replay_job_data = Some (replayJobData (cr_replayData i)), branch_name = None\<rparr>)"

definition replacement_history :: "CreateReplacementInput \<Rightarrow> history_row" where
  "replacement_history i =
     \<lparr>h_task = cr_replacementTaskId i, h_state = ''pending'', h_timestamp = cr_timestamp i,
      h_reason = ''Replacement attempt '' @ show_nat (cr_attemptNumber i) @ '' queued'',
      h_metadata = Some [(''replacesTaskId'', JStr (t_taskId (cr_original i))),
        (''attemptNumber'', JNum (Fin (of_nat (cr_attemptNumber i)))), (''replacementCause'', JStr (cause_text (cr_cause i)))]\<rparr>"

text \<open>
  The transaction. The claim is the conditional update of \<open>replaced_by_task_id\<close>; a \<open>task_id\<close> that is taken already
  violates the primary key, which rolls everything back and rejects.
\<close>

definition claim_slot :: "CreateReplacementInput \<Rightarrow> task_db \<Rightarrow> nat \<times> task_db" where
  "claim_slot i db =
     sql_update (\<lambda>r. task_id r = t_taskId (cr_original i) \<and> replaced_by_task_id r = None)
       (\<lambda>r. r\<lparr>replaced_by_task_id := Some (cr_replacementTaskId i), replacement_state := Some RS_pending,
              replacement_request := Some (claim_request i)\<rparr>) db"

definition free_job_id :: "CreateReplacementInput \<Rightarrow> task_db \<Rightarrow> task_db" where
  "free_job_id i db =
     snd (sql_update (\<lambda>r. job_id r = Some (cr_jobId i) \<and> task_id r \<noteq> cr_replacementTaskId i) (\<lambda>r. r\<lparr>job_id := None\<rparr>) db)"

definition stamp_root :: "CreateReplacementInput \<Rightarrow> task_db \<Rightarrow> task_db" where
  "stamp_root i db =
     snd (sql_update (\<lambda>r. task_id r = t_taskId (cr_original i) \<and> lineage_root_task_id r = None)
            (\<lambda>r. r\<lparr>lineage_root_task_id := Some (t_lineageRootTaskId (cr_original i))\<rparr>) db)"

definition createReplacement :: "CreateReplacementInput \<Rightarrow> task_db \<Rightarrow> bool result \<times> task_db" where
  "createReplacement i db =
     (case claim_slot i db of
        (claimed, db1) \<Rightarrow>
          if claimed = 0 then (Return False, db)
          else let db2 = free_job_id i db1
               in if \<exists>r \<in> set (db_tasks db2). task_id r = cr_replacementTaskId i
                  then (Throw ''UNIQUE constraint failed: tasks.task_id'', db)
                  else let db3 = db2\<lparr>db_tasks := db_tasks db2 @ [replacement_row i],
                                     db_history := db_history db2 @ [replacement_history i]\<rparr>
                       in (Return True, stamp_root i db3))"

subsection \<open>Timeline events and recovery queries\<close>

datatype once = Always | Once | Once_for string

record TimelineEvent =
  ev_taskId :: string
  ev_event :: string
  ev_reason :: string
  ev_metadata :: json_object
  ev_timestamp :: timestamp
  ev_once :: once

fun event_recorded :: "once \<Rightarrow> string \<Rightarrow> history_row \<Rightarrow> bool" where
  "event_recorded Always e h = False"
| "event_recorded Once e h = (metadata_field h ''event'' = JStr e)"
| "event_recorded (Once_for noticeId) e h = (metadata_field h ''event'' = JStr e \<and> metadata_field h ''noticeId'' = JStr noticeId)"

definition appendEvent :: "TimelineEvent \<Rightarrow> task_db \<Rightarrow> bool \<times> task_db" where
  "appendEvent ev db =
     (if list_ex (event_recorded (ev_once ev) (ev_event ev)) (task_history (ev_taskId ev) db) then (False, db)
      else (True, db\<lparr>db_history := db_history db @
              [\<lparr>h_task = ev_taskId ev,
                h_state = option_or (map_option h_state (last_opt (task_history (ev_taskId ev) db))) ''failed'',
                h_timestamp = ev_timestamp ev, h_reason = ev_reason ev,
                h_metadata = Some (js_spread (ev_metadata ev) [(''event'', JStr (ev_event ev))])\<rparr>]\<rparr>))"

definition hasRunTransition :: "string \<Rightarrow> task_db \<Rightarrow> bool" where
  "hasRunTransition t db =
     list_ex (\<lambda>h. h_state h \<noteq> ''pending'' \<and> metadata_field h ''event'' = JUndefined \<and> js_string_of (metadata_field h ''finalizedBy'') = None)
       (task_history t db)"

record PendingReplacementRequest =
  pr_taskId :: string
  pr_request :: ReplacementRequestRecord
  pr_latestState :: "string option"
  pr_latestFinalizedBy :: "string option"
  pr_replacedByTaskId :: "string option"

definition pending_entry :: "timestamp \<Rightarrow> task_db \<Rightarrow> task_row \<Rightarrow> PendingReplacementRequest option" where
  "pending_entry requestedBefore db r =
     (case replacement_request r of
        None \<Rightarrow> None
      | Some rq \<Rightarrow>
          (case rq_requestedAt rq of
             None \<Rightarrow> None
           | Some requestedAt \<Rightarrow>
               let replacedBy = text_column (replaced_by_task_id r);
                   entry = \<lparr>pr_taskId = task_id r, pr_request = rq, pr_latestState = latest_state (task_id r) db,
                     pr_latestFinalizedBy = finalizedBy (task_id r) db, pr_replacedByTaskId = replacedBy\<rparr>
               in case replacedBy of
                    None \<Rightarrow> (if requestedAt > requestedBefore then None else Some entry)
                  | Some s \<Rightarrow>
                      (case rq_dispatch rq of
                         None \<Rightarrow> None
                       | Some d \<Rightarrow> (if d_replacementTaskId d \<noteq> s \<or> d_claimedAt d > requestedBefore then None else Some entry))))"

definition listPendingRequests :: "timestamp \<Rightarrow> nat \<Rightarrow> task_db \<Rightarrow> PendingReplacementRequest list" where
  "listPendingRequests requestedBefore n db =
     List.map_filter (pending_entry requestedBefore db)
       (take n (sort_key task_id (filter (\<lambda>r. replacement_state r = Some RS_pending) (db_tasks db))))"

subsection \<open>What a running task records\<close>

definition cause_of_text :: "jsval \<Rightarrow> ReplacementCause option" where
  "cause_of_text v = (if v = JStr ''infra_lost'' then Some Infra_lost else if v = JStr ''provider_transient'' then Some Provider_transient else None)"

definition number_field :: "json_object \<Rightarrow> string \<Rightarrow> rat option" where
  "number_field d k = (case js_get d k of JNum (Fin r) \<Rightarrow> Some r | _ \<Rightarrow> None)"

definition text_field :: "json_object \<Rightarrow> string \<Rightarrow> string" where
  "text_field d k = option_or (js_string_of (js_get d k)) []"

definition recordReplayableIssueTask :: "string \<Rightarrow> json_object \<Rightarrow> task_db \<Rightarrow> task_db" where
  "recordReplayableIssueTask t data db =
     (let db1 = snd (sql_update (\<lambda>r. task_id r = t \<and> replay_job_data r = None)
                       (\<lambda>r. r\<lparr>replay_job_data := Some (replayJobData data)\<rparr>) db);
          replaces = text_field data ''replacesTaskId''
      in if replaces = [] then db1
         else snd (sql_update (\<lambda>r. task_id r = t \<and> replaces_task_id r = None)
                (\<lambda>r. r\<lparr>replaces_task_id := Some replaces,
                       attempt_number := Some (case number_field data ''attemptNumber'' of Some n \<Rightarrow> \<lfloor>n\<rfloor> | None \<Rightarrow> 2),
                       lineage_root_task_id := Some (option_or (js_string_of (js_get data ''lineageRootTaskId'')) replaces),
                       replacement_cause := cause_of_text (js_get data ''replacementCause'')\<rparr>) db1))"

definition recordLineageCostCap :: "string \<Rightarrow> rat option \<Rightarrow> task_db \<Rightarrow> task_db" where
  "recordLineageCostCap t capUsd db =
     snd (sql_update (\<lambda>r. task_id r = t \<and> replaces_task_id r = None \<and> replay_job_data r \<noteq> None)
            (\<lambda>r. r\<lparr>replay_job_data := map_option
                     (\<lambda>d. case capUsd of None \<Rightarrow> AList.delete ''lineageCostCapUsd'' d
                                      | Some c \<Rightarrow> AList.update ''lineageCostCapUsd'' (JNum (Fin c)) d) (replay_job_data r)\<rparr>) db)"

definition recordPushedBranch :: "string \<Rightarrow> string \<Rightarrow> task_db \<Rightarrow> task_db" where
  "recordPushedBranch t branchName db = snd (sql_update (\<lambda>r. task_id r = t) (\<lambda>r. r\<lparr>branch_name := Some branchName\<rparr>) db)"

end
