(* ===== verification/Replacement_Ledger.thy ===== *)
theory Replacement_Ledger
  imports Replacement_Policy
begin

section \<open>The abstract ledger of attempts\<close>

text \<open>
  What the replacement service promises, free of tables: a ledger of attempts, each in the lineage of its root. An
  attempt is added by creating an original or by claiming the single replacement slot of an attempt. A claim rests on a
  decision that was made earlier, from what the ledger said then; \<open>decision_ok\<close> is what such a decision still guarantees
  when it is acted on. The point of the ledger is that a stale decision never does harm: while the attempt it was made for is still
  without a replacement, nothing was added to its lineage.
\<close>

record attempt =
  a_id :: string
  a_root :: string
  a_by :: "string option"
  a_of :: "string option"
  a_cause :: "ReplacementCause option"
  a_no :: nat

fun cause_cap :: "ReplacementCause \<Rightarrow> nat" where
  "cause_cap Infra_lost = MAX_INFRA_LOST_REPLACEMENTS"
| "cause_cap Provider_transient = MAX_PROVIDER_REPLACEMENTS_LIMIT"

definition cause_count :: "attempt list \<Rightarrow> string \<Rightarrow> ReplacementCause \<Rightarrow> nat" where
  "cause_count L rt c = length (filter (\<lambda>k. a_root k = rt \<and> a_cause k = Some c) L)"

definition ledger_create :: "string \<Rightarrow> attempt list \<Rightarrow> attempt list" where
  "ledger_create t L = L @ [\<lparr>a_id = t, a_root = t, a_by = None, a_of = None, a_cause = None, a_no = 1\<rparr>]"

definition close_slot :: "string \<Rightarrow> string \<Rightarrow> attempt \<Rightarrow> attempt" where
  "close_slot t s k = (if a_id k = t \<and> a_by k = None then k\<lparr>a_by := Some s\<rparr> else k)"

definition ledger_claim :: "string \<Rightarrow> string \<Rightarrow> ReplacementCause \<Rightarrow> nat \<Rightarrow> attempt list \<Rightarrow> attempt list" where
  "ledger_claim t s c n L =
     (case find (\<lambda>k. a_id k = t \<and> a_by k = None) L of
        None \<Rightarrow> L
      | Some k0 \<Rightarrow> map (close_slot t s) L
          @ [\<lparr>a_id = s, a_root = a_root k0, a_by = None, a_of = Some t, a_cause = Some c, a_no = n\<rparr>])"

subsection \<open>The invariant\<close>

definition ids_ok :: "attempt list \<Rightarrow> bool" where
  "ids_ok L = (distinct (map a_id L) \<and> (\<forall>k \<in> set L. a_id k \<noteq> []))"

definition roots_ok :: "attempt list \<Rightarrow> bool" where
  "roots_ok L = (\<forall>k \<in> set L. \<exists>q \<in> set L. a_id q = a_root k \<and> a_root q = a_id q)"

definition one_open :: "attempt list \<Rightarrow> bool" where
  "one_open L = (\<forall>k \<in> set L. \<forall>q \<in> set L. a_root k = a_root q \<and> a_by k = None \<and> a_by q = None \<longrightarrow> k = q)"

definition links_ok :: "attempt list \<Rightarrow> bool" where
  "links_ok L = (\<forall>k \<in> set L. \<forall>p. a_of k = Some p \<longrightarrow> (\<exists>q \<in> set L. a_id q = p \<and> a_by q = Some (a_id k)))"

definition causes_ok :: "attempt list \<Rightarrow> bool" where
  "causes_ok L = (\<forall>k \<in> set L. a_cause k = None \<longrightarrow> a_root k = a_id k)"

definition caps_ok :: "attempt list \<Rightarrow> bool" where
  "caps_ok L = (\<forall>rt c. cause_count L rt c \<le> cause_cap c)"

definition numbers_ok :: "attempt list \<Rightarrow> bool" where
  "numbers_ok L = (\<forall>k \<in> set L. \<forall>q \<in> set L. a_root k = a_root q \<and> a_no k = a_no q \<longrightarrow> k = q)"

definition ledger_ok :: "attempt list \<Rightarrow> bool" where
  "ledger_ok L = (ids_ok L \<and> roots_ok L \<and> one_open L \<and> links_ok L \<and> causes_ok L \<and> caps_ok L \<and> numbers_ok L)"

definition decision_ok :: "attempt list \<Rightarrow> string \<Rightarrow> string \<Rightarrow> ReplacementCause \<Rightarrow> nat \<Rightarrow> bool" where
  "decision_ok L t rt c n =
     (\<exists>k \<in> set L. a_id k = t \<and> a_root k = rt
        \<and> (a_by k = None \<longrightarrow> cause_count L rt c < cause_cap c \<and> (\<forall>q \<in> set L. a_root q = rt \<longrightarrow> a_no q < n)))"

lemmas ledger_defs = ids_ok_def roots_ok_def one_open_def links_ok_def causes_ok_def caps_ok_def numbers_ok_def

subsection \<open>Creating an original\<close>

lemma close_slot_keeps [simp]:
  "a_id (close_slot t s k) = a_id k" "a_root (close_slot t s k) = a_root k" "a_of (close_slot t s k) = a_of k"
  "a_cause (close_slot t s k) = a_cause k" "a_no (close_slot t s k) = a_no k"
  by (simp_all add: close_slot_def)

lemma cause_count_append: "cause_count (L @ M) rt c = cause_count L rt c + cause_count M rt c"
  by (simp add: cause_count_def)

lemma cause_count_close [simp]: "cause_count (map (close_slot t s) L) rt c = cause_count L rt c"
  by (simp add: cause_count_def filter_map comp_def)

lemma root_in_ids: "roots_ok L \<Longrightarrow> k \<in> set L \<Longrightarrow> a_root k \<in> a_id ` set L"
  by (force simp: roots_ok_def)

lemma ledger_create_ok:
  assumes "ledger_ok L" "t \<notin> a_id ` set L" "t \<noteq> []"
  shows "ledger_ok (ledger_create t L)"
proof -
  let ?new = "\<lparr>a_id = t, a_root = t, a_by = None, a_of = None, a_cause = None, a_no = 1\<rparr>"
  have fresh: "a_root k \<noteq> t" if "k \<in> set L" for k
    using root_in_ids [of L k] assms that by (auto simp: ledger_ok_def)
  have "ids_ok (ledger_create t L)" using assms by (auto simp: ledger_ok_def ids_ok_def ledger_create_def)
  moreover have "roots_ok (ledger_create t L)" using assms(1) by (auto simp: ledger_ok_def roots_ok_def ledger_create_def)
  moreover have "one_open (ledger_create t L)" using assms(1) fresh by (auto simp: ledger_ok_def one_open_def ledger_create_def)
  moreover have "links_ok (ledger_create t L)" using assms(1) by (auto simp: ledger_ok_def links_ok_def ledger_create_def)
  moreover have "causes_ok (ledger_create t L)" using assms(1) by (auto simp: ledger_ok_def causes_ok_def ledger_create_def)
  moreover have "caps_ok (ledger_create t L)"
    using assms(1) by (simp add: ledger_ok_def caps_ok_def ledger_create_def cause_count_append) (simp add: cause_count_def)
  moreover have "numbers_ok (ledger_create t L)" using assms(1) fresh by (auto simp: ledger_ok_def numbers_ok_def ledger_create_def)
  ultimately show ?thesis by (simp add: ledger_ok_def)
qed

lemma decision_ok_create:
  assumes "decision_ok L t rt c n" "roots_ok L" "u \<notin> a_id ` set L"
  shows "decision_ok (ledger_create u L) t rt c n"
proof -
  obtain k where k: "k \<in> set L" "a_id k = t" "a_root k = rt"
    "a_by k = None \<longrightarrow> cause_count L rt c < cause_cap c \<and> (\<forall>q \<in> set L. a_root q = rt \<longrightarrow> a_no q < n)"
    using assms(1) by (auto simp: decision_ok_def)
  have "rt \<noteq> u" using root_in_ids [OF assms(2) k(1)] k(3) assms(3) by auto
  then show ?thesis
    using k unfolding decision_ok_def ledger_create_def
    by (intro bexI [of _ k]) (auto simp: cause_count_append, auto simp: cause_count_def)
qed

subsection \<open>Claiming a replacement\<close>

lemma ledger_claim_cases:
  assumes "ids_ok L"
  obtains (Taken) "ledger_claim t s c n L = L"
  | (Open) k0 where "k0 \<in> set L" "a_id k0 = t" "a_by k0 = None" "\<And>k. k \<in> set L \<Longrightarrow> a_id k = t \<Longrightarrow> k = k0"
      "ledger_claim t s c n L = map (close_slot t s) L
         @ [\<lparr>a_id = s, a_root = a_root k0, a_by = None, a_of = Some t, a_cause = Some c, a_no = n\<rparr>]"
proof (cases "find (\<lambda>k. a_id k = t \<and> a_by k = None) L")
  case None
  then show ?thesis using Taken by (simp add: ledger_claim_def)
next
  case (Some k0)
  then have k0: "k0 \<in> set L" "a_id k0 = t" "a_by k0 = None" by (auto simp: find_Some_iff)
  have unique: "k = k0" if "k \<in> set L" "a_id k = t" for k
    using assms that k0(1,2) by (auto simp: ids_ok_def distinct_map inj_on_def)
  show ?thesis by (rule Open [OF k0 unique]) (simp_all add: ledger_claim_def Some)
qed

lemma closed_open: "a_by (close_slot t s k) = None \<longleftrightarrow> a_by k = None \<and> a_id k \<noteq> t"
  by (auto simp: close_slot_def)

lemma ledger_claim_ok:
  assumes ok: "ledger_ok L" and dec: "decision_ok L t rt c n" and s: "s \<notin> a_id ` set L" "s \<noteq> []"
  shows "ledger_ok (ledger_claim t s c n L)"
proof -
  have ids: "ids_ok L" using ok by (simp add: ledger_ok_def)
  from ids show ?thesis
  proof (cases rule: ledger_claim_cases [of _ t s c n])
    case Taken
    then show ?thesis using ok by simp
  next
    case (Open k0)
    let ?new = "\<lparr>a_id = s, a_root = a_root k0, a_by = None, a_of = Some t, a_cause = Some c, a_no = n\<rparr>"
    let ?L = "map (close_slot t s) L @ [?new]"
    obtain k where k: "k \<in> set L" "a_id k = t" "a_root k = rt"
      "a_by k = None \<longrightarrow> cause_count L rt c < cause_cap c \<and> (\<forall>q \<in> set L. a_root q = rt \<longrightarrow> a_no q < n)"
      using dec by (auto simp: decision_ok_def)
    have "k = k0" using Open(4) k(1,2) .
    then have d: "cause_count L (a_root k0) c < cause_cap c" "\<And>q. q \<in> set L \<Longrightarrow> a_root q = a_root k0 \<Longrightarrow> a_no q < n"
      using k(3,4) Open(3) by auto
    have only: "a_id k = t" if "k \<in> set L" "a_root k = a_root k0" "a_by k = None" for k
      using ok Open(1-3) that by (auto simp: ledger_ok_def one_open_def)
    have "ids_ok ?L" using ids s by (auto simp: ids_ok_def comp_def)
    moreover have "roots_ok ?L"
      using ok Open(1) by (auto simp: ledger_ok_def roots_ok_def)
    moreover have "one_open ?L" using ok only by (auto simp: ledger_ok_def one_open_def closed_open)
    moreover have "links_ok ?L"
    proof -
      have "\<exists>q \<in> set ?L. a_id q = p \<and> a_by q = Some (a_id k)" if "k \<in> set L" "a_of k = Some p" for k p
        using ok that by (fastforce simp: ledger_ok_def links_ok_def close_slot_def)
      moreover have "\<exists>q \<in> set ?L. a_id q = t \<and> a_by q = Some s"
        using Open(1-3) by (intro bexI [of _ "close_slot t s k0"]) (auto simp: close_slot_def)
      ultimately show ?thesis by (auto simp: links_ok_def)
    qed
    moreover have "causes_ok ?L" using ok by (auto simp: ledger_ok_def causes_ok_def)
    moreover have "caps_ok ?L"
    proof -
      have "cause_count L r d \<le> cause_cap d" for r d using ok by (simp add: ledger_ok_def caps_ok_def)
      then show ?thesis using d(1) by (auto simp: caps_ok_def cause_count_append) (auto simp: cause_count_def)
    qed
    moreover have "numbers_ok ?L" using ok d(2) by (fastforce simp: ledger_ok_def numbers_ok_def)
    ultimately show ?thesis using Open(5) by (simp add: ledger_ok_def)
  qed
qed

lemma decision_ok_claim:
  assumes ok: "ledger_ok L" and dec: "decision_ok L t rt c n"
  shows "decision_ok (ledger_claim u s d m L) t rt c n"
proof -
  have ids: "ids_ok L" using ok by (simp add: ledger_ok_def)
  obtain k where k: "k \<in> set L" "a_id k = t" "a_root k = rt"
    "a_by k = None \<longrightarrow> cause_count L rt c < cause_cap c \<and> (\<forall>q \<in> set L. a_root q = rt \<longrightarrow> a_no q < n)"
    using dec by (auto simp: decision_ok_def)
  from ids show ?thesis
  proof (cases rule: ledger_claim_cases [of _ u s d m])
    case Taken
    then show ?thesis using dec by simp
  next
    case (Open k0)
    have "a_root k0 \<noteq> rt" if "a_by (close_slot u s k) = None"
      using ok k Open(1-3) that by (auto simp: ledger_ok_def one_open_def closed_open)
    then show ?thesis
      using k unfolding decision_ok_def Open(5)
      by (intro bexI [of _ "close_slot u s k"]) (auto simp: cause_count_append closed_open, auto simp: cause_count_def)
  qed
qed

subsection \<open>What the invariant says of a lineage\<close>

lemma lineage_size:
  assumes "ledger_ok L"
  shows "length (filter (\<lambda>k. a_root k = rt) L) \<le> 1 + cause_cap Infra_lost + cause_cap Provider_transient"
proof -
  have split: "length (filter (\<lambda>k. a_root k = rt) M)
      = length (filter (\<lambda>k. a_root k = rt \<and> a_cause k = None) M) + cause_count M rt Infra_lost + cause_count M rt Provider_transient" for M
    by (induction M) (auto simp: cause_count_def split: option.splits, metis ReplacementCause.exhaust not_None_eq)
  have "set (filter (\<lambda>k. a_root k = rt \<and> a_cause k = None) L) \<subseteq> {k \<in> set L. a_id k = rt}"
    using assms by (auto simp: ledger_ok_def causes_ok_def)
  moreover have "distinct (map a_id (filter (\<lambda>k. a_root k = rt \<and> a_cause k = None) L))"
    using assms by (auto simp: ledger_ok_def ids_ok_def distinct_map_filter)
  ultimately have "length (map a_id (filter (\<lambda>k. a_root k = rt \<and> a_cause k = None) L)) \<le> card {rt}"
    using distinct_card [of "map a_id (filter (\<lambda>k. a_root k = rt \<and> a_cause k = None) L)"]
      card_mono [of "{rt}" "set (map a_id (filter (\<lambda>k. a_root k = rt \<and> a_cause k = None) L))"] by force
  moreover have "cause_count L rt Infra_lost \<le> cause_cap Infra_lost" "cause_count L rt Provider_transient \<le> cause_cap Provider_transient"
    using assms by (simp_all only: ledger_ok_def caps_ok_def)
  ultimately show ?thesis using split [of L] by simp
qed

lemma one_replacement:
  assumes "ledger_ok L" "k \<in> set L" "q \<in> set L" "a_of k = Some p" "a_of q = Some p"
  shows "k = q"
proof -
  obtain x y where "x \<in> set L" "a_id x = p" "a_by x = Some (a_id k)" "y \<in> set L" "a_id y = p" "a_by y = Some (a_id q)"
    using assms by (auto simp: ledger_ok_def links_ok_def) blast
  then have "a_id k = a_id q" using assms(1) by (auto simp: ledger_ok_def ids_ok_def distinct_map inj_on_def)
  then show ?thesis using assms(1-3) by (auto simp: ledger_ok_def ids_ok_def distinct_map inj_on_def)
qed

end
