(* ===== verification/Task_Replacement.thy ===== *)
theory Task_Replacement
  imports Replacement_Store Replacement_Ledger
begin

section \<open>Replacing failed task attempts\<close>

text \<open>
  \<^verbatim>\<open>src/taskReplacement/{service,delivery,exhaustedComment,index}.ts\<close>. A task that was lost with its worker, or ended by a
  transient provider error, is run again by a replacement attempt. The service decides (\<open>evaluate\<close>), claims the
  replacement slot of the failed attempt and queues the new one (\<open>dispatch\<close>), or releases the decision and tells why there is no
  replacement (\<open>recordSkip\<close>); what an interruption leaves undone is finished by \<open>resumePending\<close>.

  The world of the service is the database of \<open>Replacement_Store\<close> and logs of what it hands to the queue, to the event
  publisher and to GitHub. What those answer, the time, the random identifiers and SHA-256 are the fields of a \<open>rep_env\<close>; an absent
  dependency is \<open>None\<close>. A call of the database does not fail, except for the violated key of
  \<open>createReplacement\<close>. The log, the release of a lost worktree and the wording of the comment are not modelled.
\<close>

subsection \<open>Requests, evaluations and the environment\<close>

record ReplacementRequest =
  q_taskId :: string
  q_cause :: ReplacementCause
  q_terminalReason :: "string option"
  q_error :: "string option"
  q_finalizedBy :: "string option"

record replacement_plan =
  e_task :: ReplaceableTask
  e_lineage :: "LineageAttempt list"
  e_attemptNumber :: nat
  e_maxReplacements :: nat
  e_remainingBudgetUsd :: "rat option"

datatype ReplacementEvaluation =
    Eligible replacement_plan
  | Ineligible ReplacementSkipReason ReplaceableTask "LineageAttempt list" nat
  | Nothing_to_decide

datatype ReplacementOutcome =
    Outcome_dispatched string nat "LineageAttempt list"
  | Outcome_delivery_pending string nat
  | Outcome_skipped ReplacementSkipReason bool "LineageAttempt list"
  | Outcome_none

record rep_env =
  env_settings :: "jsval option"
  env_maxProviderVariable :: jsval
  env_infraLostVariable :: "string option"
  env_readIssueState :: "(string \<Rightarrow> string \<Rightarrow> nat \<Rightarrow> string option result) option"
  env_now :: timestamp
  env_randomId :: string
  env_sha256 :: "string \<Rightarrow> string"
  env_enqueueConfirmed :: bool
  env_publishTaskUpdate :: "bool option"
  env_postIssueComment :: "bool option"
  env_findIssueComment :: "bool result option"

record rep_world =
  w_db :: task_db
  w_adds :: "(string \<times> json_object \<times> bool) list"
  w_published :: "(string \<times> string \<times> bool) list"
  w_comments :: "(string \<times> bool) list"

definition REPLACEMENT_JOB_NAME :: string where "REPLACEMENT_JOB_NAME = ''processGitHubIssue''"
definition TERMINAL_STATES :: "string list" where "TERMINAL_STATES = [''completed'', ''failed'', ''cancelled'']"
definition PENDING_REPLACEMENT_RECOVERY_MS :: int where "PENDING_REPLACEMENT_RECOVERY_MS = 5 * 60 * 1000"
definition MAX_EXHAUSTED_COMMENT_ATTEMPTS :: nat where "MAX_EXHAUSTED_COMMENT_ATTEMPTS = 5"

text \<open>The settings are \<open>None\<close> when they cannot be loaded.\<close>

definition loadMaxProviderReplacements :: "rep_env \<Rightarrow> nat" where
  "loadMaxProviderReplacements e =
     (case env_settings e of
        Some v \<Rightarrow> resolveMaxProviderReplacements v (env_maxProviderVariable e)
      | None \<Rightarrow> resolveMaxProviderReplacements JUndefined (env_maxProviderVariable e))"

definition infraLostEnabled :: "rep_env \<Rightarrow> bool" where
  "infraLostEnabled e = infraLostReplacementEnabled (env_infraLostVariable e)"

subsection \<open>The decision\<close>

definition splitRepository :: "string \<Rightarrow> (string \<times> string) option" where
  "splitRepository repo =
     (case js_split (CHR ''/'') repo of [owner, name] \<Rightarrow> (if owner \<noteq> [] \<and> name \<noteq> [] then Some (owner, name) else None) | _ \<Rightarrow> None)"

definition causeCount :: "LineageAttempt list \<Rightarrow> ReplacementCause \<Rightarrow> nat" where
  "causeCount lineage c = length (filter (\<lambda>a. la_replacementCause a = Some c) lineage)"

definition first_some :: "'a option \<Rightarrow> 'a option \<Rightarrow> 'a option" where
  "first_some x y = (if x = None then y else x)"

definition replay_supported :: "ReplaceableTask \<Rightarrow> bool" where
  "replay_supported task =
     (option_or (t_taskType task) ''issue'' = ''issue''
      \<and> (case t_replayJobData task of
           None \<Rightarrow> False
         | Some d \<Rightarrow> text_field d ''agentAlias'' \<noteq> [] \<and> text_field d ''modelName'' \<noteq> [])
      \<and> t_issueNumber task \<noteq> None)"

definition exclusionFor :: "ReplaceableTask \<Rightarrow> ReplacementRequest \<Rightarrow> nat \<Rightarrow> ReplacementSkipReason option" where
  "exclusionFor task request maxReplacements =
     (if t_taskType task = Some ''goal'' then Some Skip_goal_task
      else let stopped = first_some (stopReasonExclusion (q_terminalReason request))
                 (first_some (stopReasonExclusion (t_latestTerminalReason task))
                    (if t_latestState task = Some ''cancelled'' then Some Skip_user_cancelled else None))
           in if stopped \<noteq> None then stopped
              else if maxReplacements = 0 then Some Skip_disabled
              else if \<not> replay_supported task then Some Skip_unsupported_task
              else None)"

definition lineageCostCap :: "json_object \<Rightarrow> rat option" where
  "lineageCostCap replay = (case number_field replay ''lineageCostCapUsd'' of Some c \<Rightarrow> (if c > 0 then Some c else None) | None \<Rightarrow> None)"

definition remainingBudget :: "json_object \<Rightarrow> LineageAttempt list \<Rightarrow> rat option" where
  "remainingBudget replay lineage =
     (case lineageCostCap replay of
        None \<Rightarrow> None
      | Some cap \<Rightarrow>
          let spent = sum_list (map la_costUsd lineage)
          in Some (of_int \<lfloor>(cap - spent) * 1000000 + 1 / 2\<rfloor> / 1000000))"

definition closedIssue :: "rep_env \<Rightarrow> ReplaceableTask \<Rightarrow> bool" where
  "closedIssue e task =
     (case (env_readIssueState e, splitRepository (t_repository task), t_issueNumber task) of
        (Some readIssue, Some (owner, name), Some n) \<Rightarrow> readIssue owner name n = Return (Some ''closed'')
      | _ \<Rightarrow> False)"

definition replay_data :: "ReplaceableTask \<Rightarrow> json_object" where
  "replay_data task = option_or (t_replayJobData task) []"

definition max_replacements :: "rep_env \<Rightarrow> ReplacementCause \<Rightarrow> nat" where
  "max_replacements e c =
     (case c of
        Infra_lost \<Rightarrow> (if infraLostEnabled e then MAX_INFRA_LOST_REPLACEMENTS else 0)
      | Provider_transient \<Rightarrow> loadMaxProviderReplacements e)"

text \<open>\<open>evaluate\<close> reads the task first and its lineage later; \<open>decide\<close> is what it makes of the two.\<close>

definition decide :: "rep_env \<Rightarrow> ReplacementRequest \<Rightarrow> ReplaceableTask \<Rightarrow> LineageAttempt list \<Rightarrow> ReplacementEvaluation" where
  "decide e request task lineage =
     (let maxReplacements = max_replacements e (q_cause request);
          skip = (\<lambda>reason. Ineligible reason task lineage maxReplacements)
      in case exclusionFor task request maxReplacements of
           Some reason \<Rightarrow> skip reason
         | None \<Rightarrow>
             (if causeCount lineage (q_cause request) \<ge> maxReplacements then skip Skip_cap_reached
              else let remaining = remainingBudget (replay_data task) lineage
                   in if (case remaining of Some b \<Rightarrow> b \<le> 0 | None \<Rightarrow> False) then skip Skip_budget_exhausted
                      else if closedIssue e task then skip Skip_issue_closed
                      else Eligible \<lparr>e_task = task, e_lineage = lineage,
                             e_attemptNumber = Max (set (t_attemptNumber task # map la_attemptNumber lineage)) + 1,
                             e_maxReplacements = maxReplacements, e_remainingBudgetUsd = remaining\<rparr>))"

definition undecided :: "ReplaceableTask option \<Rightarrow> ReplaceableTask option" where
  "undecided t = (case t of Some task \<Rightarrow> (if t_replacedByTaskId task = None then Some task else None) | None \<Rightarrow> None)"

definition evaluate :: "rep_env \<Rightarrow> ReplacementRequest \<Rightarrow> task_db \<Rightarrow> ReplacementEvaluation" where
  "evaluate e request db =
     (case undecided (loadTask (q_taskId request) db) of
        None \<Rightarrow> Nothing_to_decide
      | Some task \<Rightarrow> decide e request task (loadLineage (t_lineageRootTaskId task) db))"

subsection \<open>The replacement attempt\<close>

text \<open>The payload of an issue job always has its issue number.\<close>

definition issue_no :: "json_object \<Rightarrow> int" where
  "issue_no replay = \<lfloor>option_or (number_field replay ''number'') 0\<rfloor>"

definition shortHash :: "rep_env \<Rightarrow> string \<Rightarrow> string" where
  "shortHash e value = take 16 (env_sha256 e value)"

definition replacement_id :: "rep_env \<Rightarrow> json_object \<Rightarrow> string" where
  "replacement_id e replay =
     buildIssueTaskId
       \<lparr>p_repoOwner = text_field replay ''repoOwner'', p_repoName = text_field replay ''repoName'',
        p_issueNumber = issue_no replay, p_agentAlias = text_field replay ''agentAlias'',
        p_modelName = text_field replay ''modelName'', p_correlationId = env_randomId e\<rparr>"

definition opt_field :: "string \<Rightarrow> jsval option \<Rightarrow> json_object" where
  "opt_field k v = (case v of Some x \<Rightarrow> [(k, x)] | None \<Rightarrow> [])"

definition job_data :: "rep_env \<Rightarrow> replacement_plan \<Rightarrow> ReplacementRequest \<Rightarrow> json_object" where
  "job_data e plan request =
     (let task = e_task plan; originalCap = lineageCostCap (replay_data task);
          replay = AList.delete ''lineageCostCapUsd'' (replay_data task)
      in js_spread replay
           ([(''correlationId'', JStr (env_randomId e)), (''isChildJob'', JBool True), (''replacesTaskId'', JStr (t_taskId task)),
             (''attemptNumber'', JNum (Fin (of_nat (e_attemptNumber plan)))), (''lineageRootTaskId'', JStr (t_lineageRootTaskId task)),
             (''replacementCause'', JStr (cause_text (q_cause request)))]
            @ opt_field ''replacementBranch'' (map_option JStr (t_branchName task))
            @ opt_field ''maxCostUsd'' (map_option (\<lambda>c. JNum (Fin c)) originalCap)
            @ [(''costBudgetTaskIds'', JArr (map JStr (js_unique (map la_taskId (e_lineage plan) @ [t_taskId task]))))]))"

definition replacement_input :: "rep_env \<Rightarrow> replacement_plan \<Rightarrow> ReplacementRequest \<Rightarrow> CreateReplacementInput" where
  "replacement_input e plan request =
     (let task = e_task plan; replay = AList.delete ''lineageCostCapUsd'' (replay_data task);
          replacementTaskId = replacement_id e replay; jobData = job_data e plan request
      in \<lparr>cr_original = task, cr_replacementTaskId = replacementTaskId,
          cr_jobId = ''issue-'' @ text_field replay ''repoOwner'' @ ''-'' @ text_field replay ''repoName'' @ ''-''
            @ show_int (issue_no replay) @ ''-replacement-'' @ shortHash e replacementTaskId,
          cr_correlationId = env_randomId e, cr_attemptNumber = e_attemptNumber plan, cr_cause = q_cause request,
          cr_jobData = jobData,
          cr_replayData = js_spread jobData (opt_field ''lineageCostCapUsd'' (map_option (\<lambda>c. JNum (Fin c)) (lineageCostCap (replay_data task)))),
          cr_timestamp = env_now e, cr_maxReplacements = e_maxReplacements plan, cr_remainingBudgetUsd = e_remainingBudgetUsd plan,
          cr_failure = nonempty (map_option (take 500) (q_error request))\<rparr>)"

subsection \<open>The tables as a ledger\<close>

definition row_key :: "task_row \<Rightarrow> attempt" where
  "row_key r =
     \<lparr>a_id = task_id r, a_root = row_root r, a_by = replaced_by_task_id r, a_of = replaces_task_id r, a_cause = replacement_cause r,
      a_no = row_attempt r\<rparr>"

definition ledger :: "task_db \<Rightarrow> attempt list" where
  "ledger db = map row_key (db_tasks db)"

lemma row_key_simps [simp]:
  "a_id (row_key r) = task_id r" "a_root (row_key r) = row_root r" "a_by (row_key r) = replaced_by_task_id r"
  "a_of (row_key r) = replaces_task_id r" "a_cause (row_key r) = replacement_cause r" "a_no (row_key r) = row_attempt r"
  by (simp_all add: row_key_def)

lemma ledger_update:
  assumes "\<And>r. r \<in> set (db_tasks db) \<Longrightarrow> P r \<Longrightarrow> row_key (f r) = g (row_key r)"
    and "\<And>r. r \<in> set (db_tasks db) \<Longrightarrow> \<not> P r \<Longrightarrow> row_key r = g (row_key r)"
  shows "ledger (snd (sql_update P f db)) = map g (ledger db)"
  using assms by (auto simp: ledger_def sql_update_def)

lemma ledger_kept:
  assumes "\<And>r. r \<in> set (db_tasks db) \<Longrightarrow> P r \<Longrightarrow> row_key (f r) = row_key r"
  shows "ledger (snd (sql_update P f db)) = ledger db"
  using ledger_update [of db P f "\<lambda>k. k"] assms by simp

named_theorems keeps_ledger

lemma row_root_upd [simp]:
  "row_root (r\<lparr>replaced_by_task_id := v\<rparr>) = row_root r" "row_root (r\<lparr>replacement_state := st\<rparr>) = row_root r"
  "row_root (r\<lparr>replacement_request := rq\<rparr>) = row_root r" "row_root (r\<lparr>replay_job_data := d\<rparr>) = row_root r"
  "row_root (r\<lparr>job_id := j\<rparr>) = row_root r" "row_root (r\<lparr>branch_name := b\<rparr>) = row_root r"
  by (simp_all add: row_root_def split: option.split)

lemma row_attempt_upd [simp]:
  "row_attempt (r\<lparr>replaced_by_task_id := v\<rparr>) = row_attempt r" "row_attempt (r\<lparr>replacement_state := st\<rparr>) = row_attempt r"
  "row_attempt (r\<lparr>replacement_request := rq\<rparr>) = row_attempt r" "row_attempt (r\<lparr>replay_job_data := d\<rparr>) = row_attempt r"
  "row_attempt (r\<lparr>job_id := j\<rparr>) = row_attempt r" "row_attempt (r\<lparr>branch_name := b\<rparr>) = row_attempt r"
  "row_attempt (r\<lparr>lineage_root_task_id := x\<rparr>) = row_attempt r"
  by (simp_all add: row_attempt_def)

lemma snd_case_pair: "snd (case p of (n, x) \<Rightarrow> (f n, x)) = snd p"
  by (cases p) simp

lemma ledger_markRequested [keeps_ledger]: "ledger (snd (markRequested t rq db)) = ledger db"
  unfolding markRequested_def by (subst snd_case_pair) (rule ledger_kept, simp add: row_key_def)

lemma ledger_setState [keeps_ledger]: "ledger (setState t st db) = ledger db"
  unfolding setState_def by (rule ledger_kept) (simp add: row_key_def)

lemma ledger_recordSkipped [keeps_ledger]: "ledger (recordSkipped t st n db) = ledger db"
  unfolding recordSkipped_def by (rule ledger_kept) (simp add: row_key_def)

lemma ledger_updateFailureNotice [keeps_ledger]: "ledger (updateFailureNotice t n f db) = ledger db"
  unfolding updateFailureNotice_def by (rule ledger_kept) (simp add: row_key_def)

lemma ledger_clearFailureNotice [keeps_ledger]: "ledger (clearFailureNotice t n db) = ledger db"
  unfolding clearFailureNotice_def by (rule ledger_kept) (simp add: row_key_def Let_def)

lemma ledger_withdrawRequest [keeps_ledger]: "ledger (snd (withdrawRequest t rq n db)) = ledger db"
  unfolding withdrawRequest_def by (subst snd_case_pair) (rule ledger_kept, simp add: row_key_def)

lemma ledger_recordLineageCostCap [keeps_ledger]: "ledger (recordLineageCostCap t c db) = ledger db"
  unfolding recordLineageCostCap_def by (rule ledger_kept) (simp add: row_key_def)

lemma ledger_recordPushedBranch [keeps_ledger]: "ledger (recordPushedBranch t b db) = ledger db"
  unfolding recordPushedBranch_def by (rule ledger_kept) (simp add: row_key_def)

lemma ledger_history [keeps_ledger]: "ledger (db\<lparr>db_history := h\<rparr>) = ledger db" "ledger (db\<lparr>db_executions := x\<rparr>) = ledger db"
  by (simp_all add: ledger_def)

lemma ledger_appendEvent [keeps_ledger]: "ledger (snd (appendEvent ev db)) = ledger db"
  by (simp add: appendEvent_def keeps_ledger)

text \<open>
  A worker records its job data for a row that is a replacement already, or for a job that replaces nothing: the row of a
  replacement is written with its claim, before the job is queued.
\<close>

definition stamped :: "string \<Rightarrow> json_object \<Rightarrow> task_db \<Rightarrow> bool" where
  "stamped t data db =
     (text_field data ''replacesTaskId'' = [] \<or> list_all (\<lambda>r. task_id r = t \<longrightarrow> replaces_task_id r \<noteq> None) (db_tasks db))"

lemma sql_update_none:
  assumes "\<And>r. r \<in> set (db_tasks db) \<Longrightarrow> \<not> P r"
  shows "snd (sql_update P f db) = db"
proof -
  have "map (\<lambda>r. if P r then f r else r) (db_tasks db) = db_tasks db" using assms by (intro map_idI) simp
  then show ?thesis by (simp add: sql_update_def)
qed

definition keep_replay_data :: "string \<Rightarrow> json_object \<Rightarrow> task_db \<Rightarrow> task_db" where
  "keep_replay_data t data db =
     snd (sql_update (\<lambda>r. task_id r = t \<and> replay_job_data r = None) (\<lambda>r. r\<lparr>replay_job_data := Some (replayJobData data)\<rparr>) db)"

lemma stamped_keep_replay_data: "stamped t data db \<Longrightarrow> stamped t data (keep_replay_data t data db)"
proof -
  assume "stamped t data db"
  moreover have "list_all Q (db_tasks (keep_replay_data t data db))"
    if "list_all Q (db_tasks db)" "\<And>r d. Q r \<Longrightarrow> Q (r\<lparr>replay_job_data := d\<rparr>)" for Q
    using that by (auto simp: keep_replay_data_def sql_update_def list_all_iff)
  ultimately show ?thesis unfolding stamped_def by (elim disjE) (blast, simp)
qed

lemma recordReplayable_stamped:
  assumes "stamped t data db"
  shows "recordReplayableIssueTask t data db = keep_replay_data t data db"
proof (cases "text_field data ''replacesTaskId'' = []")
  case True
  show ?thesis unfolding recordReplayableIssueTask_def Let_def keep_replay_data_def True by (simp only: if_True simp_thms)
next
  case False
  then have "\<not> (task_id r = t \<and> replaces_task_id r = None)" if "r \<in> set (db_tasks (keep_replay_data t data db))" for r
    using stamped_keep_replay_data [OF assms] that unfolding stamped_def list_all_iff by blast
  then have "snd (sql_update (\<lambda>r. task_id r = t \<and> replaces_task_id r = None) f (keep_replay_data t data db)) = keep_replay_data t data db" for f
    by (rule sql_update_none)
  with False show ?thesis unfolding recordReplayableIssueTask_def Let_def keep_replay_data_def by (simp only: if_False simp_thms)
qed

lemma ledger_recordReplayable [keeps_ledger]: "stamped t data db \<Longrightarrow> ledger (recordReplayableIssueTask t data db) = ledger db"
  unfolding recordReplayable_stamped keep_replay_data_def by (rule ledger_kept) (simp add: row_key_def)

subsection \<open>A claim of the tables is a claim of the ledger\<close>

text \<open>The task an evaluation has read: its row is still there, and still in the lineage it named.\<close>

definition known_task :: "attempt list \<Rightarrow> ReplaceableTask \<Rightarrow> bool" where
  "known_task L task = (\<exists>k \<in> set L. a_id k = t_taskId task \<and> a_root k = t_lineageRootTaskId task)"

lemma loadTask_known: "loadTask t db = Some task \<Longrightarrow> known_task (ledger db) task"
  by (auto simp: loadTask_def find_task_def known_task_def ledger_def taskFromRow_def find_Some_iff intro!: bexI [of _ "db_tasks db ! _"])

lemma same_row:
  assumes "ids_ok (ledger db)" "r \<in> set (db_tasks db)" "q \<in> set (db_tasks db)" "task_id r = task_id q"
  shows "row_key r = row_key q"
proof -
  have "inj_on a_id (set (ledger db))" using assms(1) by (simp add: ids_ok_def distinct_map)
  moreover have "row_key r \<in> set (ledger db)" "row_key q \<in> set (ledger db)" using assms(2,3) by (auto simp: ledger_def)
  ultimately show ?thesis using assms(4) by (simp add: inj_on_eq_iff [symmetric])
qed

lemma ledger_claim_slot:
  "ledger (snd (claim_slot i db)) = map (close_slot (t_taskId (cr_original i)) (cr_replacementTaskId i)) (ledger db)"
  unfolding claim_slot_def by (rule ledger_update) (simp_all add: row_key_def close_slot_def)

lemma ledger_free_job_id: "ledger (free_job_id i db) = ledger db"
  unfolding free_job_id_def by (rule ledger_kept) (simp add: row_key_def)

lemma ledger_stamp_root:
  assumes "\<And>r. r \<in> set (db_tasks db) \<Longrightarrow> task_id r = t_taskId (cr_original i) \<Longrightarrow> row_root r = t_lineageRootTaskId (cr_original i)"
    and "t_lineageRootTaskId (cr_original i) \<noteq> []"
  shows "ledger (stamp_root i db) = ledger db"
  unfolding stamp_root_def
proof (rule ledger_kept)
  fix r assume r: "r \<in> set (db_tasks db)" "task_id r = t_taskId (cr_original i) \<and> lineage_root_task_id r = None"
  then have "row_root r = t_lineageRootTaskId (cr_original i)" using assms(1) by blast
  then show "row_key (r\<lparr>lineage_root_task_id := Some (t_lineageRootTaskId (cr_original i))\<rparr>) = row_key r"
    using assms(2) by (simp add: row_key_def) (simp add: row_root_def text_column_def)
qed

lemma replacement_row_key:
  assumes "t_lineageRootTaskId (cr_original i) \<noteq> []" "0 < cr_attemptNumber i"
  shows "row_key (replacement_row i) =
           \<lparr>a_id = cr_replacementTaskId i, a_root = t_lineageRootTaskId (cr_original i), a_by = None,
            a_of = Some (t_taskId (cr_original i)), a_cause = Some (cr_cause i), a_no = cr_attemptNumber i\<rparr>"
  using assms by (simp add: row_key_def replacement_row_def Let_def row_root_def row_attempt_def text_column_def positiveInteger_def)

text \<open>
  The transaction refines the claim of the ledger: it closes the slot and adds the attempt when the slot is open, and
  changes nothing when the slot is taken or the identifier exists.
\<close>

lemma find_none_unchanged:
  assumes "\<And>k. k \<in> set L \<Longrightarrow> \<not> (a_id k = t \<and> a_by k = None)"
  shows "ledger_claim t s c n L = L"
proof -
  have "find (\<lambda>k. a_id k = t \<and> a_by k = None) L = None" using assms by (auto simp: find_None_iff)
  then show ?thesis by (simp add: ledger_claim_def)
qed

lemma createReplacement_cases:
  assumes "createReplacement i db = (Return b, db')"
  defines "t \<equiv> t_taskId (cr_original i)" and "s \<equiv> cr_replacementTaskId i" and "db2 \<equiv> free_job_id i (snd (claim_slot i db))"
  obtains (Taken) "\<not> b" "db' = db" "\<And>k. k \<in> set (ledger db) \<Longrightarrow> \<not> (a_id k = t \<and> a_by k = None)"
  | (Claimed) "b" "s \<notin> a_id ` set (ledger db)" "\<exists>k \<in> set (ledger db). a_id k = t \<and> a_by k = None"
      "db' = stamp_root i (db2\<lparr>db_tasks := db_tasks db2 @ [replacement_row i], db_history := db_history db2 @ [replacement_history i]\<rparr>)"
proof -
  let ?P = "\<lambda>r. task_id r = t \<and> replaced_by_task_id r = None"
  have "a_id ` set (ledger db2) = a_id ` set (ledger db)" by (simp add: db2_def ledger_free_job_id ledger_claim_slot image_image)
  moreover have "(\<exists>r \<in> set (db_tasks x). task_id r = s) \<longleftrightarrow> s \<in> a_id ` set (ledger x)" for x
    by (auto simp: ledger_def image_iff)
  ultimately have fresh: "\<not> (\<exists>r \<in> set (db_tasks db2). task_id r = s) \<longleftrightarrow> s \<notin> a_id ` set (ledger db)" by simp
  have claimed: "fst (claim_slot i db) = length (filter ?P (db_tasks db))" by (simp add: claim_slot_def sql_update_def t_def)
  show ?thesis
  proof (cases "filter ?P (db_tasks db) = []")
    case True
    then have "\<not> b \<and> db' = db" using assms(1) claimed by (auto simp: createReplacement_def split: prod.splits)
    moreover have "\<not> (a_id k = t \<and> a_by k = None)" if "k \<in> set (ledger db)" for k
      using True that by (auto simp: ledger_def filter_empty_conv)
    ultimately show ?thesis using Taken by blast
  next
    case False
    then have "fst (claim_slot i db) \<noteq> 0" using claimed by simp
    then have "b \<and> \<not> (\<exists>r \<in> set (db_tasks db2). task_id r = s)
        \<and> db' = stamp_root i (db2\<lparr>db_tasks := db_tasks db2 @ [replacement_row i], db_history := db_history db2 @ [replacement_history i]\<rparr>)"
      using assms(1) by (auto simp: createReplacement_def Let_def db2_def s_def split: prod.splits if_splits)
    moreover have "\<exists>k \<in> set (ledger db). a_id k = t \<and> a_by k = None"
      using False by (auto simp: ledger_def filter_empty_conv)
    ultimately show ?thesis using Claimed fresh by blast
  qed
qed

lemma known_root:
  assumes "ledger_ok L" "known_task L task"
  shows "t_lineageRootTaskId task \<noteq> []" and "\<And>k. k \<in> set L \<Longrightarrow> a_id k = t_taskId task \<Longrightarrow> a_root k = t_lineageRootTaskId task"
proof -
  obtain q where q: "q \<in> set L" "a_id q = t_taskId task" "a_root q = t_lineageRootTaskId task" using assms(2) by (auto simp: known_task_def)
  then show "t_lineageRootTaskId task \<noteq> []" using assms(1) by (force simp: ledger_ok_def roots_ok_def ids_ok_def)
  show "a_root k = t_lineageRootTaskId task" if "k \<in> set L" "a_id k = t_taskId task" for k
  proof -
    have "inj_on a_id (set L)" using assms(1) by (simp add: ledger_ok_def ids_ok_def distinct_map)
    then have "k = q" by (rule inj_onD) (simp_all add: that q(1,2))
    then show ?thesis using q(3) by simp
  qed
qed

lemma createReplacement_refines:
  assumes ok: "ledger_ok (ledger db)" and known: "known_task (ledger db) (cr_original i)" and n: "0 < cr_attemptNumber i"
    and run: "createReplacement i db = (Return b, db')"
  shows "ledger db' = ledger_claim (t_taskId (cr_original i)) (cr_replacementTaskId i) (cr_cause i) (cr_attemptNumber i) (ledger db)"
  using run
proof (cases rule: createReplacement_cases)
  case Taken
  then show ?thesis by (simp add: find_none_unchanged)
next
  case Claimed
  let ?t = "t_taskId (cr_original i)" and ?s = "cr_replacementTaskId i"
  let ?db2 = "free_job_id i (snd (claim_slot i db))"
  let ?db3 = "?db2\<lparr>db_tasks := db_tasks ?db2 @ [replacement_row i], db_history := db_history ?db2 @ [replacement_history i]\<rparr>"
  note root = known_root [OF ok known]
  note new = replacement_row_key [OF root(1) n]
  have L3: "ledger ?db3 = map (close_slot ?t ?s) (ledger db) @ [row_key (replacement_row i)]"
    using ledger_free_job_id [of i "snd (claim_slot i db)"] ledger_claim_slot [of i db] by (simp add: ledger_def)
  have "row_root r = t_lineageRootTaskId (cr_original i)" if "r \<in> set (db_tasks ?db3)" "task_id r = ?t" for r
  proof -
    have "row_key r \<in> set (map (close_slot ?t ?s) (ledger db) @ [row_key (replacement_row i)])"
      unfolding L3 [symmetric] using imageI [OF that(1), of row_key] by (simp only: ledger_def set_map)
    then have "\<exists>k. a_id (row_key r) = a_id k \<and> a_root (row_key r) = a_root k
        \<and> (k \<in> set (ledger db) \<or> a_root k = t_lineageRootTaskId (cr_original i))"
      using new by (auto simp del: row_key_simps)
    then show ?thesis using root(2) that(2) by auto
  qed
  then have "ledger db' = map (close_slot ?t ?s) (ledger db) @ [row_key (replacement_row i)]"
    using ledger_stamp_root [of ?db3 i] root(1) L3 Claimed(4) by metis
  moreover obtain k0 where "find (\<lambda>k. a_id k = ?t \<and> a_by k = None) (ledger db) = Some k0"
    using Claimed(3) by (cases "find (\<lambda>k. a_id k = ?t \<and> a_by k = None) (ledger db)") (auto simp: find_None_iff)
  moreover then have "a_root k0 = t_lineageRootTaskId (cr_original i)" using root(2) by (auto simp: find_Some_iff)
  ultimately show ?thesis using new by (simp add: ledger_claim_def)
qed

subsection \<open>A decision is right when it is made\<close>

lemma lineage_rows_root:
  assumes "ledger_ok (ledger db)" "known_task (ledger db) task"
  shows "lineage_rows (t_lineageRootTaskId task) db = filter (\<lambda>r. row_root r = t_lineageRootTaskId task) (db_tasks db)"
  unfolding lineage_rows_def
proof (rule filter_cong [OF refl])
  let ?rt = "t_lineageRootTaskId task"
  fix r assume r: "r \<in> set (db_tasks db)"
  obtain k where k: "k \<in> set (ledger db)" "a_root k = ?rt" using assms(2) by (auto simp: known_task_def)
  then obtain q where q: "q \<in> set (ledger db)" "a_id q = ?rt" "a_root q = ?rt"
    using assms(1) by (auto simp: ledger_ok_def roots_ok_def)
  have ids: "ids_ok (ledger db)" using assms(1) by (simp add: ledger_ok_def)
  have "row_root r = ?rt" if "task_id r = ?rt"
    using q same_row [OF ids r] that by (auto simp: ledger_def) (metis row_key_simps(2))
  moreover have "row_root r = ?rt" if "lineage_root_task_id r = Some ?rt"
    using that known_root(1) [OF assms] by (simp add: row_root_def text_column_def)
  moreover have "task_id r = ?rt \<or> lineage_root_task_id r = Some ?rt" if "row_root r = ?rt"
    using that by (auto simp: row_root_def text_column_def split: option.splits if_splits)
  ultimately show "(task_id r = ?rt \<or> lineage_root_task_id r = Some ?rt) = (row_root r = ?rt)" by blast
qed

lemma length_filter_sort_key: "length (filter P (sort_key f xs)) = length (filter P xs)"
  by (simp add: filter_sort)

lemma causeCount_ledger:
  assumes "ledger_ok (ledger db)" "known_task (ledger db) task"
  shows "causeCount (loadLineage (t_lineageRootTaskId task) db) c = cause_count (ledger db) (t_lineageRootTaskId task) c"
  by (simp add: causeCount_def loadLineage_def length_filter_sort_key filter_map comp_def lineage_attempt_def
      lineage_rows_root [OF assms] cause_count_def ledger_def conj_commute)

lemma loadLineage_numbers:
  assumes "ledger_ok (ledger db)" "known_task (ledger db) task" "k \<in> set (ledger db)" "a_root k = t_lineageRootTaskId task"
  shows "a_no k \<in> set (map la_attemptNumber (loadLineage (t_lineageRootTaskId task) db))"
  using assms(3,4) by (auto simp: loadLineage_def lineage_rows_root [OF assms(1,2)] ledger_def lineage_attempt_def image_image)

lemma max_replacements_cap: "max_replacements e c \<le> cause_cap c"
  using provider_cap_le_limit by (cases c) (simp_all add: max_replacements_def loadMaxProviderReplacements_def split: option.splits)

lemma decide_EligibleD:
  assumes "decide e q task lineage = Eligible plan"
  shows "e_task plan = task" "e_lineage plan = lineage" "causeCount lineage (q_cause q) < max_replacements e (q_cause q)"
    "e_attemptNumber plan = Max (set (t_attemptNumber task # map la_attemptNumber lineage)) + 1"
    "exclusionFor task q (max_replacements e (q_cause q)) = None" "\<not> closedIssue e task"
    "e_maxReplacements plan = max_replacements e (q_cause q)"
    "e_remainingBudgetUsd plan = remainingBudget (replay_data task) lineage"
    "\<And>b. remainingBudget (replay_data task) lineage = Some b \<Longrightarrow> 0 < b"
  using assms by (auto simp: decide_def Let_def split: option.splits if_splits)

lemma decide_decision_ok:
  assumes "ledger_ok (ledger db)" "known_task (ledger db) task"
    and "decide e q task (loadLineage (t_lineageRootTaskId task) db) = Eligible plan"
  shows "decision_ok (ledger db) (t_taskId task) (t_lineageRootTaskId task) (q_cause q) (e_attemptNumber plan)"
proof -
  note D = decide_EligibleD [OF assms(3)]
  obtain k where k: "k \<in> set (ledger db)" "a_id k = t_taskId task" "a_root k = t_lineageRootTaskId task"
    using assms(2) by (auto simp: known_task_def)
  have "cause_count (ledger db) (t_lineageRootTaskId task) (q_cause q) < cause_cap (q_cause q)"
    using D(3) max_replacements_cap [of e "q_cause q"] by (simp add: causeCount_ledger [OF assms(1,2)])
  moreover have "a_no x < e_attemptNumber plan" if "x \<in> set (ledger db)" "a_root x = t_lineageRootTaskId task" for x
  proof -
    have "a_no x \<in> set (t_attemptNumber task # map la_attemptNumber (loadLineage (t_lineageRootTaskId task) db))"
      using loadLineage_numbers [OF assms(1,2) that] by simp
    then show ?thesis unfolding D(4) by (metis List.finite_set Max_ge Suc_eq_plus1 le_imp_less_Suc)
  qed
  ultimately show ?thesis using k unfolding decision_ok_def by blast
qed

subsection \<open>Interleaved decisions and claims\<close>

text \<open>
  Any number of workers and reconcilers run at once. An evaluation reads the task (\<open>ls_loaded\<close>), later its lineage
  (\<open>ls_decided\<close>), and later still claims with what it has decided; a decision may be acted on any number of times and at any
  time. In between tasks are created, run, spend and end, and every other operation of the store happens with any arguments. Rows
  are not deleted.
\<close>

record lineage_state =
  ls_db :: task_db
  ls_loaded :: "(ReplacementRequest \<times> ReplaceableTask) set"
  ls_decided :: "(ReplacementRequest \<times> replacement_plan) set"

definition new_task :: "task_row \<Rightarrow> bool" where
  "new_task r =
     (task_id r \<noteq> [] \<and> replaces_task_id r = None \<and> replaced_by_task_id r = None \<and> attempt_number r = None
      \<and> lineage_root_task_id r = None \<and> replacement_cause r = None)"

inductive lineage_step :: "lineage_state \<Rightarrow> lineage_state \<Rightarrow> bool" where
  Task_created: "new_task r \<Longrightarrow> task_id r \<notin> task_id ` set (db_tasks (ls_db s))
     \<Longrightarrow> lineage_step s (s\<lparr>ls_db := (ls_db s)\<lparr>db_tasks := db_tasks (ls_db s) @ [r]\<rparr>\<rparr>)"
| Task_transition: "lineage_step s (s\<lparr>ls_db := (ls_db s)\<lparr>db_history := db_history (ls_db s) @ [h]\<rparr>\<rparr>)"
| Task_spends: "lineage_step s (s\<lparr>ls_db := (ls_db s)\<lparr>db_executions := db_executions (ls_db s) @ [x]\<rparr>\<rparr>)"
| Evaluate_load: "undecided (loadTask (q_taskId q) (ls_db s)) = Some task
     \<Longrightarrow> lineage_step s (s\<lparr>ls_loaded := insert (q, task) (ls_loaded s)\<rparr>)"
| Evaluate_decide: "(q, task) \<in> ls_loaded s \<Longrightarrow> decide e q task (loadLineage (t_lineageRootTaskId task) (ls_db s)) = Eligible plan
     \<Longrightarrow> lineage_step s (s\<lparr>ls_decided := insert (q, plan) (ls_decided s)\<rparr>)"
| Claim: "(q, plan) \<in> ls_decided s \<Longrightarrow> createReplacement (replacement_input e plan q) (ls_db s) = (res, db')
     \<Longrightarrow> lineage_step s (s\<lparr>ls_db := db'\<rparr>)"
| Mark_requested: "lineage_step s (s\<lparr>ls_db := snd (markRequested t rq (ls_db s))\<rparr>)"
| Set_state: "lineage_step s (s\<lparr>ls_db := setState t st (ls_db s)\<rparr>)"
| Record_skipped: "lineage_step s (s\<lparr>ls_db := recordSkipped t st' n (ls_db s)\<rparr>)"
| Update_notice: "lineage_step s (s\<lparr>ls_db := updateFailureNotice t nid f (ls_db s)\<rparr>)"
| Clear_notice: "lineage_step s (s\<lparr>ls_db := clearFailureNotice t nid (ls_db s)\<rparr>)"
| Withdraw: "lineage_step s (s\<lparr>ls_db := snd (withdrawRequest t rq n (ls_db s))\<rparr>)"
| Append_event: "lineage_step s (s\<lparr>ls_db := snd (appendEvent ev (ls_db s))\<rparr>)"
| Record_replayable: "stamped t data (ls_db s) \<Longrightarrow> lineage_step s (s\<lparr>ls_db := recordReplayableIssueTask t data (ls_db s)\<rparr>)"
| Record_cap: "lineage_step s (s\<lparr>ls_db := recordLineageCostCap t cap (ls_db s)\<rparr>)"
| Record_branch: "lineage_step s (s\<lparr>ls_db := recordPushedBranch t br (ls_db s)\<rparr>)"

definition empty_db :: task_db where
  "empty_db = \<lparr>db_tasks = [], db_history = [], db_executions = []\<rparr>"

inductive lineage_reachable :: "lineage_state \<Rightarrow> bool" where
  Start: "lineage_reachable \<lparr>ls_db = empty_db, ls_loaded = {}, ls_decided = {}\<rparr>"
| Step: "lineage_reachable s \<Longrightarrow> lineage_step s s' \<Longrightarrow> lineage_reachable s'"

definition decisions_ok :: "attempt list \<Rightarrow> (ReplacementRequest \<times> replacement_plan) set \<Rightarrow> bool" where
  "decisions_ok L D =
     (\<forall>(q, plan) \<in> D. known_task L (e_task plan) \<and> 0 < e_attemptNumber plan
        \<and> decision_ok L (t_taskId (e_task plan)) (t_lineageRootTaskId (e_task plan)) (q_cause q) (e_attemptNumber plan))"

definition lineage_inv :: "lineage_state \<Rightarrow> bool" where
  "lineage_inv s =
     (ledger_ok (ledger (ls_db s)) \<and> (\<forall>(q, task) \<in> ls_loaded s. known_task (ledger (ls_db s)) task)
      \<and> decisions_ok (ledger (ls_db s)) (ls_decided s))"

lemma lineage_inv_kept:
  assumes "lineage_inv s" "ledger db = ledger (ls_db s)"
  shows "lineage_inv (s\<lparr>ls_db := db\<rparr>)"
  using assms by (simp add: lineage_inv_def)

text \<open>What a change of the ledger has to keep.\<close>

lemma lineage_inv_grows:
  assumes inv: "lineage_inv s" and L: "ledger db = L" and ok: "ledger_ok L"
    and known: "\<And>task. known_task (ledger (ls_db s)) task \<Longrightarrow> known_task L task"
    and decision: "\<And>t rt c n. decision_ok (ledger (ls_db s)) t rt c n \<Longrightarrow> decision_ok L t rt c n"
  shows "lineage_inv (s\<lparr>ls_db := db\<rparr>)"
  using assms by (auto simp: lineage_inv_def decisions_ok_def split: prod.splits)

lemma known_task_create: "known_task L task \<Longrightarrow> known_task (ledger_create t L) task"
  by (auto simp: known_task_def ledger_create_def)

lemma known_task_claim:
  assumes "ids_ok L" "known_task L task"
  shows "known_task (ledger_claim t s c n L) task"
  using assms(1)
proof (cases rule: ledger_claim_cases [of _ t s c n])
  case Taken
  then show ?thesis using assms(2) by simp
next
  case (Open k0)
  obtain k where "k \<in> set L" "a_id k = t_taskId task" "a_root k = t_lineageRootTaskId task" using assms(2) by (auto simp: known_task_def)
  then have "close_slot t s k \<in> set (ledger_claim t s c n L)" "a_id (close_slot t s k) = t_taskId task"
    "a_root (close_slot t s k) = t_lineageRootTaskId task" by (simp_all add: Open(5))
  then show ?thesis unfolding known_task_def by blast
qed

lemma buildIssueTaskId_nonempty: "buildIssueTaskId parts \<noteq> []"
  using buildIssueTaskId_parts [of parts] by (auto simp: id_suffix_def)

lemma replacement_input_fields:
  "cr_original (replacement_input e plan q) = e_task plan" "cr_cause (replacement_input e plan q) = q_cause q"
  "cr_attemptNumber (replacement_input e plan q) = e_attemptNumber plan" "cr_replacementTaskId (replacement_input e plan q) \<noteq> []"
  by (simp_all add: replacement_input_def Let_def replacement_id_def buildIssueTaskId_nonempty)

lemma createReplacement_Throw: "createReplacement i db = (Throw x, db') \<Longrightarrow> db' = db"
  by (auto simp: createReplacement_def Let_def split: prod.splits if_splits)

lemma lineage_inv_claim:
  assumes inv: "lineage_inv s" and dec: "(q, plan) \<in> ls_decided s"
    and run: "createReplacement (replacement_input e plan q) (ls_db s) = (res, db')"
  shows "lineage_inv (s\<lparr>ls_db := db'\<rparr>)"
proof (cases res)
  case (Inl x)
  then have "db' = ls_db s" using run createReplacement_Throw by blast
  then show ?thesis using inv by simp
next
  case (Inr b)
  let ?i = "replacement_input e plan q" and ?L = "ledger (ls_db s)" and ?task = "e_task plan"
  have ok: "ledger_ok ?L" and known: "known_task ?L ?task" and n: "0 < e_attemptNumber plan"
    and d: "decision_ok ?L (t_taskId ?task) (t_lineageRootTaskId ?task) (q_cause q) (e_attemptNumber plan)"
    using inv dec by (auto simp: lineage_inv_def decisions_ok_def)
  have ids: "ids_ok ?L" using ok by (simp add: ledger_ok_def)
  have run': "createReplacement ?i (ls_db s) = (Return b, db')" using run Inr by simp
  show ?thesis
  proof (cases b)
    case False
    have "ledger db' = ?L" using run' by (cases rule: createReplacement_cases) (use False in auto)
    then show ?thesis using inv lineage_inv_kept by blast
  next
    case True
    have fresh: "cr_replacementTaskId ?i \<notin> a_id ` set ?L" using run' by (cases rule: createReplacement_cases) (use True in auto)
    have "ledger db' = ledger_claim (t_taskId ?task) (cr_replacementTaskId ?i) (q_cause q) (e_attemptNumber plan) ?L"
      using createReplacement_refines [OF ok _ _ run'] known n by (simp add: replacement_input_fields)
    then show ?thesis
    proof (rule lineage_inv_grows [OF inv])
      show "ledger_ok (ledger_claim (t_taskId ?task) (cr_replacementTaskId ?i) (q_cause q) (e_attemptNumber plan) ?L)"
        by (rule ledger_claim_ok [OF ok d fresh]) (simp add: replacement_input_fields)
    qed (auto intro: known_task_claim [OF ids] decision_ok_claim [OF ok])
  qed
qed

lemma lineage_inv_created:
  assumes "lineage_inv s" "new_task r" "task_id r \<notin> task_id ` set (db_tasks (ls_db s))"
  shows "lineage_inv (s\<lparr>ls_db := (ls_db s)\<lparr>db_tasks := db_tasks (ls_db s) @ [r]\<rparr>\<rparr>)"
proof -
  have fresh: "task_id r \<notin> a_id ` set (ledger (ls_db s))" using assms(3) by (simp add: ledger_def image_image)
  have ok: "ledger_ok (ledger (ls_db s))" using assms(1) by (simp add: lineage_inv_def)
  have "row_key r = \<lparr>a_id = task_id r, a_root = task_id r, a_by = None, a_of = None, a_cause = None, a_no = 1\<rparr>"
    using assms(2) by (simp add: row_key_def new_task_def row_root_def row_attempt_def text_column_def positiveInteger_def)
  then have "ledger ((ls_db s)\<lparr>db_tasks := db_tasks (ls_db s) @ [r]\<rparr>) = ledger_create (task_id r) (ledger (ls_db s))"
    by (simp add: ledger_def ledger_create_def)
  then show ?thesis
  proof (rule lineage_inv_grows [OF assms(1)])
    show "ledger_ok (ledger_create (task_id r) (ledger (ls_db s)))"
      using ledger_create_ok [OF ok fresh] assms(2) by (simp add: new_task_def)
  next
    fix t rt c n assume "decision_ok (ledger (ls_db s)) t rt c n"
    then show "decision_ok (ledger_create (task_id r) (ledger (ls_db s))) t rt c n"
      by (rule decision_ok_create) (use ok fresh in \<open>auto simp: ledger_ok_def\<close>)
  qed (rule known_task_create)
qed

lemma lineage_step_inv: "lineage_step s s' \<Longrightarrow> lineage_inv s \<Longrightarrow> lineage_inv s'"
proof (induction rule: lineage_step.induct)
  case (Task_created r s)
  then show ?case by (simp add: lineage_inv_created)
next
  case (Evaluate_load q s task)
  then have "loadTask (q_taskId q) (ls_db s) = Some task" by (auto simp: undecided_def split: option.splits if_splits)
  then show ?case using Evaluate_load.prems loadTask_known by (auto simp: lineage_inv_def)
next
  case (Evaluate_decide q task s e plan)
  then have ok: "ledger_ok (ledger (ls_db s))" "known_task (ledger (ls_db s)) task" by (auto simp: lineage_inv_def)
  have "0 < e_attemptNumber plan" "e_task plan = task" using decide_EligibleD [OF Evaluate_decide.hyps(2)] by simp_all
  then show ?case
    using Evaluate_decide.prems ok decide_decision_ok [OF ok Evaluate_decide.hyps(2)] by (simp add: lineage_inv_def decisions_ok_def)
next
  case (Claim q plan s e res db')
  then show ?case using lineage_inv_claim by blast
qed (rule lineage_inv_kept, assumption, simp add: keeps_ledger)+

lemma reachable_inv: "lineage_reachable s \<Longrightarrow> lineage_inv s"
proof (induction rule: lineage_reachable.induct)
  case Start
  then show ?case by (simp add: lineage_inv_def ledger_ok_def ledger_defs empty_db_def ledger_def decisions_ok_def cause_count_def)
next
  case (Step s s')
  then show ?case by (simp add: lineage_step_inv)
qed

lemma distinct_lineage_numbers:
  assumes "ledger_ok (ledger db)" "known_task (ledger db) task"
  shows "distinct (map la_attemptNumber (loadLineage (t_lineageRootTaskId task) db))"
proof -
  let ?rt = "t_lineageRootTaskId task"
  let ?rows = "filter (\<lambda>r. row_root r = ?rt) (db_tasks db)"
  have "distinct (map task_id (db_tasks db))" using assms(1) by (simp add: ledger_ok_def ids_ok_def ledger_def comp_def)
  then have "distinct (map task_id ?rows)" by (rule distinct_map_filter)
  moreover have "task_id r = task_id q" if "r \<in> set ?rows" "q \<in> set ?rows" "row_attempt r = row_attempt q" for r q
  proof -
    have "row_key r = row_key q" using assms(1) that by (auto simp: ledger_ok_def numbers_ok_def ledger_def)
    then show ?thesis by (metis row_key_simps(1))
  qed
  ultimately have "distinct (map row_attempt ?rows)" unfolding distinct_map inj_on_def by blast
  moreover have "map la_attemptNumber (map (lineage_attempt db) ?rows) = map row_attempt ?rows" by (simp add: lineage_attempt_def)
  ultimately have "distinct (map la_attemptNumber (map (lineage_attempt db) ?rows))" by (simp only:)
  then show ?thesis
    unfolding loadLineage_def lineage_rows_root [OF assms] distinct_map [of la_attemptNumber] by (simp only: distinct_sort set_sort simp_thms)
qed

lemma length_lineage:
  assumes "ledger_ok (ledger db)" "known_task (ledger db) task"
  shows "length (loadLineage (t_lineageRootTaskId task) db) = length (filter (\<lambda>k. a_root k = t_lineageRootTaskId task) (ledger db))"
  by (simp add: loadLineage_def lineage_rows_root [OF assms] ledger_def filter_map comp_def)

text \<open>
  C4: whatever the workers and reconcilers do at the same time, with decisions however stale and settings however changed, a
  lineage never holds more than one replacement of a lost run and ten replacements of provider errors, so never more
  than twelve attempts; its attempts have different numbers; and no attempt is ever replaced twice.
\<close>

theorem lineage_is_bounded:
  assumes "lineage_reachable s" "loadTask t (ls_db s) = Some task"
  shows "causeCount (loadLineage (t_lineageRootTaskId task) (ls_db s)) Infra_lost \<le> 1
       \<and> causeCount (loadLineage (t_lineageRootTaskId task) (ls_db s)) Provider_transient \<le> 10
       \<and> length (loadLineage (t_lineageRootTaskId task) (ls_db s)) \<le> 12
       \<and> distinct (map la_attemptNumber (loadLineage (t_lineageRootTaskId task) (ls_db s)))
       \<and> (\<forall>r \<in> set (db_tasks (ls_db s)). \<forall>r' \<in> set (db_tasks (ls_db s)).
            replaces_task_id r = Some t \<and> replaces_task_id r' = Some t \<longrightarrow> task_id r = task_id r')"
proof -
  let ?L = "ledger (ls_db s)" and ?rt = "t_lineageRootTaskId task"
  have ok: "ledger_ok ?L" using reachable_inv [OF assms(1)] by (simp add: lineage_inv_def)
  have known: "known_task ?L task" using assms(2) by (rule loadTask_known)
  have "cause_count ?L ?rt c \<le> cause_cap c" for c using ok by (simp add: ledger_ok_def caps_ok_def)
  from this [of Infra_lost] this [of Provider_transient] lineage_size [OF ok, of ?rt]
  have caps: "causeCount (loadLineage ?rt (ls_db s)) Infra_lost \<le> 1" "causeCount (loadLineage ?rt (ls_db s)) Provider_transient \<le> 10"
    "length (loadLineage ?rt (ls_db s)) \<le> 12"
    by (simp_all add: causeCount_ledger [OF ok known] length_lineage [OF ok known] MAX_INFRA_LOST_REPLACEMENTS_def MAX_PROVIDER_REPLACEMENTS_LIMIT_def)
  have "task_id r = task_id r'" if "r \<in> set (db_tasks (ls_db s))" "r' \<in> set (db_tasks (ls_db s))"
    "replaces_task_id r = Some t" "replaces_task_id r' = Some t" for r r'
  proof -
    have "row_key r = row_key r'" by (rule one_replacement [OF ok]) (use that in \<open>auto simp: ledger_def\<close>)
    then show ?thesis by (metis row_key_simps(1))
  qed
  then show ?thesis using caps distinct_lineage_numbers [OF ok known] by blast
qed

text \<open>A task is created, decided on and replaced.\<close>

definition ex_row :: task_row where
  "ex_row =
     \<lparr>task_id = ''t1'', job_id = None, correlation_id = ''c1'', repository = ''integry/propr'', issue_number = Some 42, task_type = Some ''issue'',
      model_name = Some ''gpt'', replaces_task_id = None, replaced_by_task_id = None, attempt_number = None, lineage_root_task_id = None,
      replacement_cause = None, replacement_state = None, replacement_request = None,
      replay_job_data = Some [(''number'', JNum (Fin 42)), (''repoOwner'', JStr ''integry''), (''repoName'', JStr ''propr''),
        (''agentAlias'', JStr ''codex''), (''modelName'', JStr ''gpt''), (''lineageCostCapUsd'', JNum (Fin 5))],
      branch_name = None\<rparr>"

definition ex_db :: task_db where
  "ex_db = empty_db\<lparr>db_tasks := [ex_row], db_history := [\<lparr>h_task = ''t1'', h_state = ''failed'', h_timestamp = 10, h_reason = ''lost'', h_metadata = None\<rparr>],
      db_executions := [(''t1'', 2)]\<rparr>"

definition ex_env :: rep_env where
  "ex_env =
     \<lparr>env_settings = None, env_maxProviderVariable = JUndefined, env_infraLostVariable = None, env_readIssueState = None, env_now = 20,
      env_randomId = ''c2'', env_sha256 = (\<lambda>s. rev s), env_enqueueConfirmed = True, env_publishTaskUpdate = Some True,
      env_postIssueComment = Some True, env_findIssueComment = None\<rparr>"

definition ex_request :: ReplacementRequest where
  "ex_request = \<lparr>q_taskId = ''t1'', q_cause = Infra_lost, q_terminalReason = None, q_error = None, q_finalizedBy = None\<rparr>"

definition ex_task :: ReplaceableTask where
  "ex_task = taskFromRow ex_db ex_row"

definition ex_plan :: replacement_plan where
  "ex_plan = \<lparr>e_task = ex_task, e_lineage = loadLineage ''t1'' ex_db, e_attemptNumber = 2, e_maxReplacements = 1, e_remainingBudgetUsd = Some 3\<rparr>"

definition ex_replaced :: task_db where
  "ex_replaced = snd (createReplacement (replacement_input ex_env ex_plan ex_request) ex_db)"

lemma ex_decide: "undecided (loadTask ''t1'' ex_db) = Some ex_task"
  "decide ex_env ex_request ex_task (loadLineage (t_lineageRootTaskId ex_task) ex_db) = Eligible ex_plan"
  by code_simp+

lemma ex_claim: "createReplacement (replacement_input ex_env ex_plan ex_request) ex_db = (Return True, ex_replaced)"
  by code_simp

lemma ex_loaded: "map_option t_lineageRootTaskId (loadTask ''integry-propr-42-codex-gpt-c2'' ex_replaced) = Some ''t1''"
  "map la_attemptNumber (loadLineage ''t1'' ex_replaced) = [1, 2]"
  by code_simp+

lemma ex_reachable:
  "lineage_reachable \<lparr>ls_db = ex_replaced, ls_loaded = {(ex_request, ex_task)}, ls_decided = {(ex_request, ex_plan)}\<rparr>"
proof -
  let ?s = "\<lambda>db A D. \<lparr>ls_db = db, ls_loaded = A, ls_decided = D\<rparr>"
  have "lineage_reachable (?s (empty_db\<lparr>db_tasks := [ex_row]\<rparr>) {} {})"
    using lineage_reachable.Step [OF lineage_reachable.Start lineage_step.Task_created [of ex_row]]
    by (simp add: empty_db_def new_task_def ex_row_def)
  from lineage_reachable.Step [OF this lineage_step.Task_transition]
  have "lineage_reachable (?s (empty_db\<lparr>db_tasks := [ex_row], db_history := [h]\<rparr>) {} {})" for h by (simp add: empty_db_def)
  from lineage_reachable.Step [OF this lineage_step.Task_spends [of _ "(''t1'', 2)"]]
  have "lineage_reachable (?s ex_db {} {})" by (simp add: empty_db_def ex_db_def)
  from lineage_reachable.Step [OF this lineage_step.Evaluate_load [of ex_request]]
  have "lineage_reachable (?s ex_db {(ex_request, ex_task)} {})" using ex_decide(1) by (simp add: ex_request_def)
  from lineage_reachable.Step [OF this lineage_step.Evaluate_decide [of ex_request ex_task _ ex_env ex_plan]]
  have "lineage_reachable (?s ex_db {(ex_request, ex_task)} {(ex_request, ex_plan)})" using ex_decide(2) by simp
  from lineage_reachable.Step [OF this lineage_step.Claim [of ex_request ex_plan _ ex_env "Return True" ex_replaced]]
  show ?thesis using ex_claim by simp
qed

theorem lineage_is_bounded_witness:
  "\<exists>task. loadTask ''integry-propr-42-codex-gpt-c2'' ex_replaced = Some task \<and> map la_attemptNumber (loadLineage ''t1'' ex_replaced) = [1, 2]
     \<and> causeCount (loadLineage (t_lineageRootTaskId task) ex_replaced) Infra_lost \<le> 1 \<and> length (loadLineage (t_lineageRootTaskId task) ex_replaced) \<le> 12"
proof -
  obtain task where "loadTask ''integry-propr-42-codex-gpt-c2'' ex_replaced = Some task" using ex_loaded(1) by auto
  then show ?thesis using lineage_is_bounded [OF ex_reachable, of _ task] ex_loaded(2) by auto
qed

end
