(* ===== verification/Replacement_Delivery.thy ===== *)
theory Replacement_Delivery
  imports Task_Replacement
begin

section \<open>Delivering a claimed replacement and telling of a skipped one\<close>

text \<open>
  The effects of \<^verbatim>\<open>service.ts\<close>, \<^verbatim>\<open>delivery.ts\<close> and \<^verbatim>\<open>exhaustedComment.ts\<close>: a claim is followed by the
  queue, the timeline and the announcement, a released decision by its notice, and both can be interrupted anywhere and are finished
  by recovery.
\<close>

subsection \<open>Effects\<close>

definition on_db :: "(task_db \<Rightarrow> task_db) \<Rightarrow> rep_world \<Rightarrow> rep_world" where
  "on_db f w = w\<lparr>w_db := f (w_db w)\<rparr>"

text \<open>An unconfirmed add may have reached the queue or not; the log keeps every call and whether it was confirmed.\<close>

definition enqueue :: "rep_env \<Rightarrow> json_object \<Rightarrow> string \<Rightarrow> rep_world \<Rightarrow> bool \<times> rep_world" where
  "enqueue e jobData jobId w =
     (env_enqueueConfirmed e, w\<lparr>w_adds := w_adds w @ [(jobId, jobData, env_enqueueConfirmed e)]\<rparr>)"

definition publishTaskUpdate :: "bool \<Rightarrow> string \<Rightarrow> string \<Rightarrow> rep_world \<Rightarrow> rep_world" where
  "publishTaskUpdate ok t st w = w\<lparr>w_published := w_published w @ [(t, st, ok)]\<rparr>"

definition append_event :: "TimelineEvent \<Rightarrow> rep_world \<Rightarrow> rep_world" where
  "append_event ev w = on_db (\<lambda>db. snd (appendEvent ev db)) w"

definition number_value :: "nat \<Rightarrow> jsval" where "number_value n = JNum (Fin (of_nat n))"

subsection \<open>The final comment of an exhausted lineage\<close>

definition exhaustedCommentMarker :: "string \<Rightarrow> string" where
  "exhaustedCommentMarker noticeId = ''<!-- propr-replacement-exhausted:'' @ noticeId @ '' -->''"

definition comment_owed :: "rep_env \<Rightarrow> ReplaceableTask \<Rightarrow> FailureNoticeRecord \<Rightarrow> bool" where
  "comment_owed e task notice =
     (\<not> n_commentDelivered notice \<and> n_cause notice = Infra_lost \<and> env_postIssueComment e \<noteq> None
      \<and> splitRepository (t_repository task) \<noteq> None \<and> t_issueNumber task \<noteq> None)"

definition patch_notice :: "ReplaceableTask \<Rightarrow> FailureNoticeRecord \<Rightarrow> (FailureNoticeRecord \<Rightarrow> FailureNoticeRecord) \<Rightarrow> rep_world \<Rightarrow> rep_world" where
  "patch_notice task notice patch w = on_db (updateFailureNotice (t_taskId task) (n_id notice) patch) w"

text \<open>Posting with the marker of the notice; the text of the comment is left out.\<close>

definition post_comment :: "rep_env \<Rightarrow> FailureNoticeRecord \<Rightarrow> rep_world \<Rightarrow> bool \<times> rep_world" where
  "post_comment e notice w =
     (let ok = (env_postIssueComment e = Some True)
      in (ok, w\<lparr>w_comments := w_comments w @ [(exhaustedCommentMarker (n_id notice), ok)]\<rparr>))"

definition deliverExhaustedComment :: "rep_env \<Rightarrow> ReplaceableTask \<Rightarrow> FailureNoticeRecord \<Rightarrow> rep_world \<Rightarrow> bool \<times> rep_world" where
  "deliverExhaustedComment e task notice w =
     (if \<not> comment_owed e task notice then (True, w)
      else let attempts = option_or (n_commentAttempts notice) 0;
               delivered = patch_notice task notice (\<lambda>n. n\<lparr>n_commentDelivered := True\<rparr>)
           in case (if attempts > 0 then option_or (env_findIssueComment e) (Return False) else Return False) of
                Inl err \<Rightarrow> (False, w)
              | Inr True \<Rightarrow> (True, delivered w)
              | Inr False \<Rightarrow>
                  (if attempts \<ge> MAX_EXHAUSTED_COMMENT_ATTEMPTS then (True, w)
                   else case post_comment e notice (patch_notice task notice (\<lambda>n. n\<lparr>n_commentAttempts := Some (attempts + 1)\<rparr>) w) of
                          (ok, w1) \<Rightarrow> (if ok then (True, delivered w1) else (False, w1))))"

subsection \<open>The follow-up of a released decision\<close>

definition lineageOrSelf :: "ReplaceableTask \<Rightarrow> LineageAttempt list \<Rightarrow> LineageAttempt list" where
  "lineageOrSelf task lineage =
     (if lineage \<noteq> [] then lineage
      else [\<lparr>la_taskId = t_taskId task, la_attemptNumber = t_attemptNumber task, la_replacementCause = t_replacementCause task,
             la_state = t_latestState task, la_costUsd = 0\<rparr>])"

text \<open>The part of a notice that its caller gives; \<open>newNotice\<close> adds the rest.\<close>

definition newNotice :: "rep_env \<Rightarrow> ReplaceableTask \<Rightarrow> FailureNoticeRecord \<Rightarrow> FailureNoticeRecord" where
  "newNotice e task given =
     given\<lparr>n_id := env_randomId e, n_publish := (t_replacementState task = Some RS_pending), n_recordedAt := env_now e\<rparr>"

fun skip_code :: "ReplacementSkipReason \<Rightarrow> string" where
  "skip_code Skip_disabled = ''disabled''"
| "skip_code Skip_cap_reached = ''cap_reached''"
| "skip_code Skip_budget_exhausted = ''budget_exhausted''"
| "skip_code Skip_user_cancelled = ''user_cancelled''"
| "skip_code Skip_issue_closed = ''issue_closed''"
| "skip_code Skip_watchdog_stop = ''watchdog_stop''"
| "skip_code Skip_cost_cap_stop = ''cost_cap_stop''"
| "skip_code Skip_goal_task = ''goal_task''"
| "skip_code Skip_unsupported_task = ''unsupported_task''"
| "skip_code Skip_replacement_not_started = ''replacement_not_started''"

definition notice_metadata :: "FailureNoticeRecord \<Rightarrow> ReplacementSkipReason \<Rightarrow> json_object" where
  "notice_metadata notice reason =
     [(''reason'', JStr (skip_code reason)), (''cause'', JStr (cause_text (n_cause notice))), (''noticeId'', JStr (n_id notice))]
     @ opt_field ''maxReplacements'' (map_option number_value (n_maxReplacements notice))"

definition skipped_event :: "ReplaceableTask \<Rightarrow> FailureNoticeRecord \<Rightarrow> ReplacementSkipReason \<Rightarrow> TimelineEvent" where
  "skipped_event task notice reason =
     \<lparr>ev_taskId = t_taskId task, ev_event = ''replacement.skipped'', ev_reason = ''Replacement skipped: '' @ describeReplacementSkip reason,
      ev_metadata = notice_metadata notice reason
        @ opt_field ''failure'' (map_option JStr (nonempty (n_failure notice)))
        @ (case nonempty (n_replacementTaskId notice) of
             None \<Rightarrow> []
           | Some s \<Rightarrow> (''replacementTaskId'', JStr s) # opt_field ''attemptNumber'' (map_option number_value (n_attemptNumber notice))),
      ev_timestamp = n_recordedAt notice, ev_once = Once_for (n_id notice)\<rparr>"

definition exhausted_event :: "ReplaceableTask \<Rightarrow> FailureNoticeRecord \<Rightarrow> ReplacementSkipReason \<Rightarrow> LineageAttempt list \<Rightarrow> TimelineEvent" where
  "exhausted_event task notice reason lineage =
     \<lparr>ev_taskId = t_taskId task, ev_event = ''replacement.exhausted'', ev_reason = ''All '' @ show_nat (length lineage) @ '' attempts failed'',
      ev_metadata = notice_metadata notice reason
        @ [(''attempts'', JArr (map (\<lambda>a. JObj [(''taskId'', JStr (la_taskId a)), (''attemptNumber'', number_value (la_attemptNumber a)),
             (''state'', (case la_state a of Some st \<Rightarrow> JStr st | None \<Rightarrow> JNull))]) lineage))],
      ev_timestamp = n_recordedAt notice, ev_once = Once_for (n_id notice)\<rparr>"

text \<open>The alert that was held back; \<open>None\<close> when none is due.\<close>

definition failure_alert :: "rep_env \<Rightarrow> ReplaceableTask \<Rightarrow> FailureNoticeRecord \<Rightarrow> bool option" where
  "failure_alert e task notice =
     (if n_publish notice \<and> (n_reason notice \<noteq> None \<or> t_latestState task = Some ''failed'') then env_publishTaskUpdate e else None)"

definition notice_comment ::
  "rep_env \<Rightarrow> ReplaceableTask \<Rightarrow> FailureNoticeRecord \<Rightarrow> LineageAttempt list option \<Rightarrow> rep_world \<Rightarrow> bool \<times> rep_world" where
  "notice_comment e task notice knownLineage w =
     (case n_reason notice of
        Some reason \<Rightarrow>
          (let w1 = append_event (skipped_event task notice reason) w
           in if n_exhausted notice
              then let lineage = lineageOrSelf task
                         (case knownLineage of Some l \<Rightarrow> l | None \<Rightarrow> loadLineage (t_lineageRootTaskId task) (w_db w1))
                   in deliverExhaustedComment e task notice (append_event (exhausted_event task notice reason lineage) w1)
              else (True, w1))
      | None \<Rightarrow> (True, w))"

definition deliverFailureNotice ::
  "rep_env \<Rightarrow> ReplaceableTask \<Rightarrow> FailureNoticeRecord \<Rightarrow> LineageAttempt list option \<Rightarrow> rep_world \<Rightarrow> rep_world" where
  "deliverFailureNotice e task notice knownLineage w =
     (case notice_comment e task notice knownLineage w of
        (settled, w1) \<Rightarrow>
          let w2 = (case failure_alert e task notice of
                      Some published \<Rightarrow> publishTaskUpdate published (t_taskId task) ''failed'' w1
                    | None \<Rightarrow> w1)
          in if failure_alert e task notice = Some False then w2
             else if \<not> settled then (if n_publish notice then patch_notice task notice (\<lambda>n. n\<lparr>n_publish := False\<rparr>) w2 else w2)
             else on_db (clearFailureNotice (t_taskId task) (n_id notice)) w2)"

definition releaseSkipped ::
  "rep_env \<Rightarrow> ReplaceableTask \<Rightarrow> ReplacementState \<Rightarrow> FailureNoticeRecord \<Rightarrow> LineageAttempt list option \<Rightarrow> rep_world \<Rightarrow> rep_world" where
  "releaseSkipped e task st given lineage w =
     (let notice = newNotice e task given
      in deliverFailureNotice e task notice lineage (on_db (recordSkipped (t_taskId task) st notice) w))"

definition notice_fields :: "ReplacementCause \<Rightarrow> ReplacementSkipReason option \<Rightarrow> FailureNoticeRecord" where
  "notice_fields c reason =
     \<lparr>n_id = [], n_cause = c, n_reason = reason, n_exhausted = False, n_maxReplacements = None, n_failure = None, n_replacementTaskId = None,
      n_attemptNumber = None, n_publish = False, n_recordedAt = 0, n_commentAttempts = None, n_commentDelivered = False\<rparr>"

subsection \<open>Confirming and resuming a dispatch\<close>

definition dispatched_event :: "ReplaceableTask \<Rightarrow> ReplacementCause \<Rightarrow> ReplacementDispatchRecord \<Rightarrow> timestamp \<Rightarrow> TimelineEvent" where
  "dispatched_event task c d ts =
     \<lparr>ev_taskId = t_taskId task, ev_event = ''replacement.dispatched'',
      ev_reason = ''Replacement attempt '' @ show_nat (d_attemptNumber d) @ '' dispatched'',
      ev_metadata = [(''cause'', JStr (cause_text c)), (''replacementTaskId'', JStr (d_replacementTaskId d)),
          (''attemptNumber'', number_value (d_attemptNumber d)), (''maxReplacements'', number_value (d_maxReplacements d))]
        @ opt_field ''branch'' (map_option JStr (t_branchName task))
        @ opt_field ''remainingBudgetUsd'' (map_option (\<lambda>r. JNum (Fin r)) (d_remainingBudgetUsd d))
        @ opt_field ''failure'' (map_option JStr (nonempty (d_failure d))),
      ev_timestamp = ts, ev_once = Once\<rparr>"

definition confirmDispatched ::
  "rep_env \<Rightarrow> ReplaceableTask \<Rightarrow> ReplacementCause \<Rightarrow> ReplacementDispatchRecord \<Rightarrow> timestamp \<Rightarrow> string option \<Rightarrow> rep_world \<Rightarrow> bool \<times> rep_world" where
  "confirmDispatched e task c d ts announceState w =
     (let w1 = append_event (dispatched_event task c d ts) w
      in case (announceState, env_publishTaskUpdate e) of
           (Some st, Some published) \<Rightarrow>
             (let w2 = publishTaskUpdate published (d_replacementTaskId d) st w1
              in if published then (True, on_db (setState (t_taskId task) (Some RS_dispatched)) w2) else (False, w2))
         | _ \<Rightarrow> (True, on_db (setState (t_taskId task) (Some RS_dispatched)) w1))"

definition releaseNotStarted :: "rep_env \<Rightarrow> ReplaceableTask \<Rightarrow> ReplacementCause \<Rightarrow> ReplacementDispatchRecord \<Rightarrow> rep_world \<Rightarrow> rep_world" where
  "releaseNotStarted e task c d w =
     releaseSkipped e task RS_skipped
       ((notice_fields c (Some Skip_replacement_not_started))
          \<lparr>n_replacementTaskId := Some (d_replacementTaskId d), n_attemptNumber := Some (d_attemptNumber d)\<rparr>) None w"

definition resumeClaimed :: "rep_env \<Rightarrow> string \<Rightarrow> ReplacementCause \<Rightarrow> ReplacementDispatchRecord \<Rightarrow> rep_world \<Rightarrow> bool \<times> rep_world" where
  "resumeClaimed e originalTaskId c d w =
     (case (loadTask originalTaskId (w_db w), loadTask (d_replacementTaskId d) (w_db w)) of
        (Some task, Some replacement) \<Rightarrow>
          (if t_replacedByTaskId task \<noteq> Some (d_replacementTaskId d) then (False, w)
           else let st = t_latestState replacement;
                    announceState = (case st of Some x \<Rightarrow> (if x \<notin> set TERMINAL_STATES then Some x else None) | None \<Rightarrow> None);
                    confirm = confirmDispatched e task c d (env_now e) announceState
                in if st = Some ''pending''
                   then (case enqueue e (d_jobData d) (d_jobId d) w of (ok, w1) \<Rightarrow> if ok then confirm w1 else (False, w1))
                   else if \<not> hasRunTransition (t_taskId replacement) (w_db w) then (True, releaseNotStarted e task c d w)
                   else confirm w)
      | _ \<Rightarrow> (False, w))"

definition awaitingDelivery :: "string \<Rightarrow> task_db \<Rightarrow> bool" where
  "awaitingDelivery taskId db =
     (case loadTask taskId db of
        None \<Rightarrow> False
      | Some replacement \<Rightarrow>
          (case t_replacesTaskId replacement of
             None \<Rightarrow> False
           | Some p \<Rightarrow>
               (case loadTask p db of
                  None \<Rightarrow> False
                | Some original \<Rightarrow>
                    t_replacedByTaskId original = Some taskId \<and> t_replacementState original = Some RS_pending
                    \<and> (case t_replacementRequest original of
                         None \<Rightarrow> False
                       | Some rq \<Rightarrow> map_option d_replacementTaskId (rq_dispatch rq) = Some taskId))))"

subsection \<open>The service\<close>

definition dispatch :: "rep_env \<Rightarrow> replacement_plan \<Rightarrow> ReplacementRequest \<Rightarrow> rep_world \<Rightarrow> ReplacementOutcome result \<times> rep_world" where
  "dispatch e plan request w =
     (let i = replacement_input e plan request; s = cr_replacementTaskId i
      in case createReplacement i (w_db w) of
           (Inl err, db1) \<Rightarrow> (Throw err, w\<lparr>w_db := db1\<rparr>)
         | (Inr claimed, db1) \<Rightarrow>
             let w1 = w\<lparr>w_db := db1\<rparr>
             in if \<not> claimed then (Return Outcome_none, w1)
                else case enqueue e (cr_jobData i) (cr_jobId i) w1 of
                       (confirmed, w2) \<Rightarrow>
                         if \<not> confirmed then (Return (Outcome_delivery_pending s (e_attemptNumber plan)), w2)
                         else case confirmDispatched e (e_task plan) (q_cause request) (dispatch_record i) (env_now e) (Some ''pending'') w2 of
                                (announced, w3) \<Rightarrow>
                                  if \<not> announced then (Return (Outcome_delivery_pending s (e_attemptNumber plan)), w3)
                                  else (Return (Outcome_dispatched s (e_attemptNumber plan)
                                         (e_lineage plan @ [\<lparr>la_taskId = s, la_attemptNumber = e_attemptNumber plan,
                                            la_replacementCause = Some (q_cause request), la_state = Some ''pending'', la_costUsd = 0\<rparr>])), w3))"

definition EXHAUSTING_REASONS :: "ReplacementSkipReason list" where
  "EXHAUSTING_REASONS = [Skip_cap_reached, Skip_budget_exhausted]"

definition recordSkip ::
  "rep_env \<Rightarrow> ReplacementSkipReason \<Rightarrow> ReplaceableTask \<Rightarrow> LineageAttempt list \<Rightarrow> nat \<Rightarrow> ReplacementRequest \<Rightarrow> rep_world \<Rightarrow> ReplacementOutcome \<times> rep_world" where
  "recordSkip e reason task lineage0 maxReplacements request w =
     (let lineage = lineageOrSelf task lineage0; exhausted = (reason \<in> set EXHAUSTING_REASONS)
      in (Outcome_skipped reason exhausted lineage,
          releaseSkipped e task (if exhausted then RS_exhausted else RS_skipped)
            ((notice_fields (q_cause request) (Some reason))
               \<lparr>n_exhausted := exhausted, n_maxReplacements := Some maxReplacements, n_failure := map_option (take 500) (nonempty (q_error request))\<rparr>)
            (Some lineage) w))"

text \<open>A decision that waits for a failure that was not written is withdrawn. The request always has its cause.\<close>

definition withdraw :: "rep_env \<Rightarrow> string \<Rightarrow> ReplacementRequestRecord \<Rightarrow> rep_world \<Rightarrow> bool \<times> rep_world" where
  "withdraw e taskId request w =
     (let notice = (notice_fields (option_or (rq_cause request) Infra_lost) None)
            \<lparr>n_id := env_randomId e, n_publish := True, n_recordedAt := env_now e\<rparr>
      in case withdrawRequest taskId request notice (w_db w) of
           (withdrawn, db1) \<Rightarrow>
             (let w1 = w\<lparr>w_db := db1\<rparr>
              in if \<not> withdrawn then (False, w1)
                 else (True, (case loadTask taskId (w_db w1) of
                                Some task \<Rightarrow> deliverFailureNotice e task notice None w1
                              | None \<Rightarrow> w1))))"

definition withdrawUnbound :: "rep_env \<Rightarrow> ReplaceableTask \<Rightarrow> string \<Rightarrow> rep_world \<Rightarrow> bool \<times> rep_world" where
  "withdrawUnbound e task finalizer w =
     (case (if t_replacementState task = Some RS_pending then t_replacementRequest task else None) of
        None \<Rightarrow> (False, w)
      | Some request \<Rightarrow>
          (if rq_dispatch request \<noteq> None \<or> rq_finalizedBy request \<noteq> Some finalizer then (False, w)
           else withdraw e (t_taskId task) request w))"

definition bound_elsewhere :: "ReplacementRequest \<Rightarrow> task_db \<Rightarrow> ReplaceableTask option" where
  "bound_elsewhere request db =
     (case nonempty (q_finalizedBy request) of
        None \<Rightarrow> None
      | Some finalizer \<Rightarrow>
          (case loadTask (q_taskId request) db of
             None \<Rightarrow> None
           | Some task \<Rightarrow>
               (if t_replacedByTaskId task = None \<and> t_latestFinalizedBy task \<noteq> Some finalizer then Some task else None)))"

definition complete :: "rep_env \<Rightarrow> ReplacementRequest \<Rightarrow> rep_world \<Rightarrow> ReplacementOutcome result \<times> rep_world" where
  "complete e request w =
     (case bound_elsewhere request (w_db w) of
        Some task \<Rightarrow> (Return Outcome_none, snd (withdrawUnbound e task (option_or (q_finalizedBy request) []) w))
      | None \<Rightarrow>
          (case evaluate e request (w_db w) of
             Eligible plan \<Rightarrow> dispatch e plan request w
           | Nothing_to_decide \<Rightarrow> (Return Outcome_none, w)
           | Ineligible reason task lineage maxReplacements \<Rightarrow>
               (case recordSkip e reason task lineage maxReplacements request w of (out, w1) \<Rightarrow> (Return out, w1))))"

definition prepare ::
  "rep_env \<Rightarrow> ReplacementRequest \<Rightarrow> rep_world \<Rightarrow> (ReplacementEvaluation \<times> ReplacementRequestRecord option) \<times> rep_world" where
  "prepare e request w =
     (let evaluation = evaluate e request (w_db w);
          record = \<lparr>rq_cause = Some (q_cause request), rq_terminalReason = nonempty (q_terminalReason request), rq_requestedAt = Some (env_now e),
            rq_finalizedBy = nonempty (q_finalizedBy request), rq_dispatch = None, rq_failureNotice = None\<rparr>
      in case evaluation of
           Nothing_to_decide \<Rightarrow> ((evaluation, None), w)
         | _ \<Rightarrow> (case markRequested (q_taskId request) record (w_db w) of
                   (marked, db1) \<Rightarrow> ((evaluation, if marked then Some record else None), w\<lparr>w_db := db1\<rparr>)))"

datatype entry_effect = Resumed | Cleared_entry | Untouched

definition resume_entry :: "rep_env \<Rightarrow> PendingReplacementRequest \<Rightarrow> rep_world \<Rightarrow> entry_effect result \<times> rep_world" where
  "resume_entry e entry w =
     (let rq = pr_request entry; c = option_or (rq_cause rq) Infra_lost;
          ended = (case pr_latestState entry of Some st \<Rightarrow> st \<in> set TERMINAL_STATES | None \<Rightarrow> False)
      in case (pr_replacedByTaskId entry, rq_dispatch rq) of
           (Some s, Some d) \<Rightarrow>
             (case resumeClaimed e (pr_taskId entry) c d w of (ok, w1) \<Rightarrow> (Return (if ok then Resumed else Untouched), w1))
         | _ \<Rightarrow>
             (if nonempty (rq_finalizedBy rq) \<noteq> None \<and> ended \<and> pr_latestFinalizedBy entry \<noteq> rq_finalizedBy rq
              then (case withdraw e (pr_taskId entry) rq w of (ok, w1) \<Rightarrow> (Return (if ok then Cleared_entry else Untouched), w1))
              else if pr_latestState entry = Some ''failed''
              then (case complete e \<lparr>q_taskId = pr_taskId entry, q_cause = c, q_terminalReason = rq_terminalReason rq, q_error = None,
                            q_finalizedBy = nonempty (rq_finalizedBy rq)\<rparr> w of
                      (Inl err, w1) \<Rightarrow> (Throw err, w1)
                    | (Inr out, w1) \<Rightarrow> (Return Resumed, w1))
              else if ended then (Return Cleared_entry, on_db (setState (pr_taskId entry) None) w)
              else (Return Untouched, w)))"

fun resume_entries :: "(nat \<Rightarrow> rep_env) \<Rightarrow> nat \<Rightarrow> PendingReplacementRequest list \<Rightarrow> nat \<times> nat \<Rightarrow> rep_world \<Rightarrow> (nat \<times> nat) result \<times> rep_world" where
  "resume_entries env n [] counts w = (Return counts, w)"
| "resume_entries env n (entry # entries) (resumed, cleared) w =
     (case resume_entry (env n) entry w of
        (Inl err, w1) \<Rightarrow> (Throw err, w1)
      | (Inr eff, w1) \<Rightarrow>
          resume_entries env (Suc n) entries
            (case eff of Resumed \<Rightarrow> (Suc resumed, cleared) | Cleared_entry \<Rightarrow> (resumed, Suc cleared) | Untouched \<Rightarrow> (resumed, cleared)) w1)"

fun resume_notices :: "(nat \<Rightarrow> rep_env) \<Rightarrow> nat \<Rightarrow> (string \<times> FailureNoticeRecord) list \<Rightarrow> nat \<Rightarrow> rep_world \<Rightarrow> nat \<times> rep_world" where
  "resume_notices env n [] resumed w = (resumed, w)"
| "resume_notices env n ((t, notice) # notices) resumed w =
     (case loadTask t (w_db w) of
        None \<Rightarrow> resume_notices env (Suc n) notices resumed w
      | Some task \<Rightarrow> resume_notices env (Suc n) notices (Suc resumed) (deliverFailureNotice (env n) task notice None w))"

definition resumePending :: "(nat \<Rightarrow> rep_env) \<Rightarrow> nat option \<Rightarrow> rep_world \<Rightarrow> (nat \<times> nat) result \<times> rep_world" where
  "resumePending env limit0 w =
     (let cutoff = env_now (env 0) - PENDING_REPLACEMENT_RECOVERY_MS; n = option_or limit0 20;
          pending = listPendingRequests cutoff n (w_db w)
      in case resume_entries env 0 pending (0, 0) w of
           (Inl err, w1) \<Rightarrow> (Throw err, w1)
         | (Inr (resumed, cleared), w1) \<Rightarrow>
             (case resume_notices env (length pending) (listFailureNotices cutoff n (w_db w1)) resumed w1 of
                (resumed', w2) \<Rightarrow> (Return (resumed', cleared), w2)))"

definition lineage_of :: "string \<Rightarrow> task_db \<Rightarrow> LineageAttempt list" where
  "lineage_of t db = (case loadTask t db of Some task \<Rightarrow> loadLineage (t_lineageRootTaskId task) db | None \<Rightarrow> [])"

subsection \<open>What an operation on one task leaves of another\<close>

definition row_claim :: "task_row \<Rightarrow> string option \<times> ReplacementState option \<times> ReplacementRequestRecord option" where
  "row_claim r = (replaced_by_task_id r, replacement_state r, replacement_request r)"

definition claim_view :: "string \<Rightarrow> task_db \<Rightarrow> (string option \<times> ReplacementState option \<times> ReplacementRequestRecord option) option" where
  "claim_view t db = map_option row_claim (find_task t db)"

definition distinct_ids :: "task_db \<Rightarrow> bool" where
  "distinct_ids db = distinct (map task_id (db_tasks db))"

text \<open>The history, the ids and the logs only grow; the claim of \<open>t\<close> is as it was.\<close>

definition grows :: "rep_world \<Rightarrow> rep_world \<Rightarrow> bool" where
  "grows w w' =
     ((distinct_ids (w_db w) \<longrightarrow> distinct_ids (w_db w')) \<and> set (db_history (w_db w)) \<subseteq> set (db_history (w_db w'))
      \<and> set (w_adds w) \<subseteq> set (w_adds w') \<and> set (w_published w) \<subseteq> set (w_published w'))"

definition frame :: "string \<Rightarrow> rep_world \<Rightarrow> rep_world \<Rightarrow> bool" where
  "frame t w w' = (grows w w' \<and> (claim_view t (w_db w) \<noteq> None \<longrightarrow> claim_view t (w_db w') = claim_view t (w_db w)))"

lemma grows_refl [simp]: "grows w w"
  by (simp add: grows_def)

lemma grows_trans [trans]: "grows w w' \<Longrightarrow> grows w' w'' \<Longrightarrow> grows w w''"
  by (auto simp: grows_def)

lemma claim_frame_refl [simp]: "frame t w w"
  by (simp add: frame_def)

lemma claim_frame_trans [trans]: "frame t w w' \<Longrightarrow> frame t w' w'' \<Longrightarrow> frame t w w''"
  unfolding frame_def by (metis grows_trans)

text \<open>Updates that keep the identifiers.\<close>

definition keeps_id :: "(task_row \<Rightarrow> task_row) \<Rightarrow> bool" where
  "keeps_id f = (\<forall>r. task_id (f r) = task_id r)"

lemma find_map_id:
  assumes "keeps_id f"
  shows "find (\<lambda>r. task_id r = t) (map (\<lambda>r. if P r then f r else r) xs) = map_option (\<lambda>r. if P r then f r else r) (find (\<lambda>r. task_id r = t) xs)"
  using assms by (induction xs) (auto simp: keeps_id_def)

lemma find_task_update:
  assumes "keeps_id f"
  shows "find_task t (snd (sql_update P f db)) = map_option (\<lambda>r. if P r then f r else r) (find_task t db)"
  using find_map_id [OF assms] by (simp add: find_task_def sql_update_def)

lemma find_task_id: "find_task t db = Some r \<Longrightarrow> task_id r = t"
  by (auto simp: find_task_def find_Some_iff)

lemma distinct_ids_update: "keeps_id f \<Longrightarrow> distinct_ids (snd (sql_update P f db)) = distinct_ids db"
  by (simp add: distinct_ids_def sql_update_def comp_def keeps_id_def if_distrib [of task_id] cong: if_cong)

lemma grows_update: "keeps_id f \<Longrightarrow> grows w (on_db (\<lambda>db. snd (sql_update P f db)) w)"
  by (simp add: grows_def on_db_def distinct_ids_update) (simp add: sql_update_def)

lemma frame_update_found:
  assumes "keeps_id f" "\<And>r. find_task t (w_db w) = Some r \<Longrightarrow> P r \<Longrightarrow> row_claim (f r) = row_claim r"
  shows "frame t w (on_db (\<lambda>db. snd (sql_update P f db)) w)"
  using assms grows_update [OF assms(1)]
  by (cases "find_task t (w_db w)") (auto simp: frame_def claim_view_def on_db_def find_task_update)

lemma frame_update:
  assumes "keeps_id f" "\<And>r. task_id r = t \<Longrightarrow> P r \<Longrightarrow> row_claim (f r) = row_claim r"
  shows "frame t w (on_db (\<lambda>db. snd (sql_update P f db)) w)"
  using assms(1) by (rule frame_update_found) (use assms(2) find_task_id in blast)

named_theorems frames

lemma frame_setState [frames]: "u \<noteq> t \<Longrightarrow> frame t w (on_db (setState u st) w)"
  unfolding setState_def [abs_def] by (rule frame_update) (auto simp: keeps_id_def)

lemma frame_recordSkipped [frames]: "u \<noteq> t \<Longrightarrow> frame t w (on_db (recordSkipped u st n) w)"
  unfolding recordSkipped_def [abs_def] by (rule frame_update) (auto simp: keeps_id_def)

lemma frame_updateFailureNotice [frames]: "u \<noteq> t \<Longrightarrow> frame t w (on_db (updateFailureNotice u n p) w)"
  unfolding updateFailureNotice_def [abs_def] by (rule frame_update) (auto simp: keeps_id_def has_notice_def)

lemma frame_clearFailureNotice [frames]: "u \<noteq> t \<Longrightarrow> frame t w (on_db (clearFailureNotice u n) w)"
  unfolding clearFailureNotice_def [abs_def] by (rule frame_update) (auto simp: keeps_id_def has_notice_def Let_def)

lemma frame_markRequested [frames]: "u \<noteq> t \<Longrightarrow> frame t w (on_db (\<lambda>db. snd (markRequested u rq db)) w)"
  unfolding markRequested_def snd_case_pair by (rule frame_update) (auto simp: keeps_id_def)

lemma frame_withdrawRequest [frames]: "u \<noteq> t \<Longrightarrow> frame t w (on_db (\<lambda>db. snd (withdrawRequest u rq n db)) w)"
  unfolding withdrawRequest_def snd_case_pair by (rule frame_update) (auto simp: keeps_id_def)

lemma frame_history [frames]: "frame t w (on_db (\<lambda>db. db\<lparr>db_history := db_history db @ hs\<rparr>) w)"
  by (auto simp: frame_def grows_def on_db_def claim_view_def find_task_def distinct_ids_def)

lemma append_event_world: "\<exists>hs. append_event ev w = on_db (\<lambda>db. db\<lparr>db_history := db_history db @ hs\<rparr>) w"
proof (cases "fst (appendEvent ev (w_db w))")
  case True
  then show ?thesis by (auto simp: append_event_def on_db_def appendEvent_def split: if_splits)
next
  case False
  then have "append_event ev w = on_db (\<lambda>db. db\<lparr>db_history := db_history db @ []\<rparr>) w"
    by (auto simp: append_event_def on_db_def appendEvent_def split: if_splits)
  then show ?thesis by blast
qed

lemma frame_append_event [frames]: "frame t w (append_event ev w)"
  using append_event_world [of ev w] frame_history by metis

lemma frame_publish [frames]: "frame t w (publishTaskUpdate ok u st w)"
  by (auto simp: frame_def grows_def publishTaskUpdate_def)

lemma frame_enqueue [frames]: "frame t w (snd (enqueue e d j w))"
  by (auto simp: frame_def grows_def enqueue_def)

lemma frame_post_comment [frames]: "frame t w (snd (post_comment e n w))"
  by (auto simp: frame_def grows_def post_comment_def Let_def)

lemma frame_patch_notice [frames]: "t_taskId task \<noteq> t \<Longrightarrow> frame t w (patch_notice task n p w)"
  unfolding patch_notice_def by (rule frame_updateFailureNotice)

lemma frame_comment:
  assumes "t_taskId task \<noteq> t"
  shows "frame t w (snd (deliverExhaustedComment e task notice w))"
proof -
  let ?p = "patch_notice task notice (\<lambda>n. n\<lparr>n_commentAttempts := Some (option_or (n_commentAttempts notice) 0 + 1)\<rparr>) w"
  have "frame t w (snd (post_comment e notice ?p))"
    using claim_frame_trans [OF frame_patch_notice [OF assms] frame_post_comment] .
  moreover from this have "frame t w (patch_notice task notice p (snd (post_comment e notice ?p)))" for p
    by (rule claim_frame_trans) (rule frame_patch_notice [OF assms])
  ultimately show ?thesis
    by (auto simp: deliverExhaustedComment_def Let_def frame_patch_notice [OF assms] split: sum.split bool.split prod.split)
qed

lemma frame_notice_comment:
  assumes "t_taskId task \<noteq> t"
  shows "frame t w (snd (notice_comment e task notice l w))"
proof -
  have one: "frame t w (append_event a w)" for a by (rule frame_append_event)
  have two: "frame t w (append_event b (append_event a w))" for a b by (rule claim_frame_trans [OF one frame_append_event])
  have "frame t w (snd (deliverExhaustedComment e task notice (append_event b (append_event a w))))" for a b
    by (rule claim_frame_trans [OF two frame_comment [OF assms]])
  then show ?thesis using one by (auto simp: notice_comment_def Let_def split: option.split)
qed

lemma frame_deliver:
  assumes "t_taskId task \<noteq> t"
  shows "frame t w (deliverFailureNotice e task notice l w)"
proof -
  obtain settled w1 where c: "notice_comment e task notice l w = (settled, w1)" by fastforce
  define w2 where "w2 = (case failure_alert e task notice of
      Some published \<Rightarrow> publishTaskUpdate published (t_taskId task) ''failed'' w1 | None \<Rightarrow> w1)"
  have "frame t w w1" using frame_notice_comment [OF assms, of w e notice l] c by simp
  then have w2: "frame t w w2" unfolding w2_def by (auto intro: claim_frame_trans frame_publish split: option.split)
  have "frame t w (patch_notice task notice p w2)" for p by (rule claim_frame_trans [OF w2 frame_patch_notice [OF assms]])
  moreover have "frame t w (on_db (clearFailureNotice (t_taskId task) (n_id notice)) w2)"
    by (rule claim_frame_trans [OF w2 frame_clearFailureNotice [OF assms]])
  moreover have "deliverFailureNotice e task notice l w =
      (if failure_alert e task notice = Some False then w2
       else if \<not> settled then (if n_publish notice then patch_notice task notice (\<lambda>n. n\<lparr>n_publish := False\<rparr>) w2 else w2)
       else on_db (clearFailureNotice (t_taskId task) (n_id notice)) w2)"
    by (simp only: deliverFailureNotice_def c Let_def prod.case w2_def)
  ultimately show ?thesis using w2 by simp
qed

lemma frame_releaseSkipped: "t_taskId task \<noteq> t \<Longrightarrow> frame t w (releaseSkipped e task st g l w)"
  unfolding releaseSkipped_def Let_def by (rule claim_frame_trans [OF frame_recordSkipped frame_deliver])

lemma frame_confirm:
  assumes "t_taskId task \<noteq> t"
  shows "frame t w (snd (confirmDispatched e task c d ts a w))"
proof -
  have one: "frame t w (append_event ev w)" for ev by (rule frame_append_event)
  have two: "frame t w (publishTaskUpdate ok u st (append_event ev w))" for ok u st ev by (rule claim_frame_trans [OF one frame_publish])
  have "frame t w (on_db (setState (t_taskId task) x) (publishTaskUpdate ok u st (append_event ev w)))" for ok u st ev x
    by (rule claim_frame_trans [OF two frame_setState [OF assms]])
  moreover have "frame t w (on_db (setState (t_taskId task) x) (append_event ev w))" for ev x
    by (rule claim_frame_trans [OF one frame_setState [OF assms]])
  ultimately show ?thesis using two by (auto simp: confirmDispatched_def Let_def split: option.split)
qed

lemma loadTask_id: "loadTask t db = Some task \<Longrightarrow> t_taskId task = t"
  using find_task_id by (auto simp: loadTask_def taskFromRow_def)

lemma frame_resumeClaimed:
  assumes "u \<noteq> t"
  shows "frame t w (snd (resumeClaimed e u c d w))"
proof (cases "loadTask u (w_db w)")
  case (Some task)
  then have u: "t_taskId task \<noteq> t" using loadTask_id assms by blast
  obtain ok w1 where q: "enqueue e (d_jobData d) (d_jobId d) w = (ok, w1)" by fastforce
  have w1: "frame t w w1" using frame_enqueue [of t w e "d_jobData d" "d_jobId d"] q by simp
  then have "frame t w (snd (confirmDispatched e task c d ts a w1))" for ts a by (rule claim_frame_trans [OF _ frame_confirm [OF u]])
  then show ?thesis
    using Some q w1 frame_confirm [OF u, of w] frame_releaseSkipped [OF u, of w]
    by (auto simp: resumeClaimed_def Let_def releaseNotStarted_def split: option.split)
qed (simp add: resumeClaimed_def)

lemma find_append: "find P (xs @ ys) = (case find P xs of None \<Rightarrow> find P ys | Some x \<Rightarrow> Some x)"
  by (induction xs) auto

text \<open>After the slot is closed the transaction leaves every claim as it is.\<close>

lemma frame_after_claim:
  assumes "createReplacement i (w_db w) = (Return True, db')"
  shows "frame t (on_db (\<lambda>db. snd (claim_slot i db)) w) (w\<lparr>w_db := db'\<rparr>)"
proof -
  let ?w1 = "on_db (\<lambda>db. snd (claim_slot i db)) w"
  let ?w2 = "on_db (free_job_id i) ?w1"
  let ?w3 = "on_db (\<lambda>db. db\<lparr>db_tasks := db_tasks db @ [replacement_row i], db_history := db_history db @ [replacement_history i]\<rparr>) ?w2"
  have fresh: "\<not> (\<exists>r \<in> set (db_tasks (w_db ?w2)). task_id r = cr_replacementTaskId i)" and run: "w\<lparr>w_db := db'\<rparr> = on_db (stamp_root i) ?w3"
    using assms by (auto simp: createReplacement_def Let_def on_db_def split: prod.splits if_splits)
  have f2: "frame t ?w1 ?w2"
    unfolding free_job_id_def [abs_def] by (rule frame_update) (auto simp: keeps_id_def row_claim_def)
  have f3: "frame t ?w2 ?w3"
    using fresh by (auto simp: frame_def grows_def on_db_def claim_view_def find_task_def distinct_ids_def find_append replacement_row_def Let_def
        split: option.splits)
  have f4: "frame t ?w3 (on_db (stamp_root i) ?w3)"
    unfolding stamp_root_def [abs_def] by (rule frame_update) (auto simp: keeps_id_def row_claim_def)
  show ?thesis unfolding run by (rule claim_frame_trans [OF claim_frame_trans [OF f2 f3] f4])
qed

lemma createReplacement_unclaimed:
  "createReplacement i db = (res, db') \<Longrightarrow> res \<noteq> Return True \<Longrightarrow> db' = db"
  by (auto simp: createReplacement_def Let_def split: prod.splits if_splits)

lemma frame_createReplacement:
  assumes run: "createReplacement i (w_db w) = (res, db')" and t: "t_taskId (cr_original i) \<noteq> t"
  shows "frame t w (w\<lparr>w_db := db'\<rparr>)"
proof (cases "res = Return True")
  case True
  have "frame t w (on_db (\<lambda>db. snd (claim_slot i db)) w)"
    unfolding claim_slot_def by (rule frame_update) (use t in \<open>auto simp: keeps_id_def\<close>)
  then show ?thesis using claim_frame_trans frame_after_claim run True by blast
next
  case False
  then show ?thesis using createReplacement_unclaimed [OF run] by simp
qed

lemma frame_withdraw:
  assumes "u \<noteq> t"
  shows "frame t w (snd (withdraw e u rq w))"
proof -
  have db: "on_db (\<lambda>db. snd (withdrawRequest u rq n db)) w = w\<lparr>w_db := snd (withdrawRequest u rq n (w_db w))\<rparr>" for n
    by (simp add: on_db_def)
  have one: "frame t w (w\<lparr>w_db := snd (withdrawRequest u rq n (w_db w))\<rparr>)" for n
    using frame_withdrawRequest [OF assms, of w rq n] by (simp only: db)
  have "frame t w (deliverFailureNotice e task m l (w\<lparr>w_db := snd (withdrawRequest u rq n (w_db w))\<rparr>))"
    if "loadTask u db = Some task" for task m l n db
    using claim_frame_trans [OF one frame_deliver] loadTask_id [OF that] assms by blast
  then show ?thesis using one
    by (auto simp: withdraw_def Let_def split: prod.splits option.splits) (metis snd_conv)+
qed

lemma frame_dispatch:
  assumes "t_taskId (e_task plan) \<noteq> t"
  shows "frame t w (snd (dispatch e plan q w))"
proof -
  let ?i = "replacement_input e plan q"
  obtain res db1 where run: "createReplacement ?i (w_db w) = (res, db1)" by fastforce
  have one: "frame t w (w\<lparr>w_db := db1\<rparr>)"
    using frame_createReplacement [OF run] assms by (simp add: replacement_input_fields)
  obtain ok w2 where q2: "enqueue e (cr_jobData ?i) (cr_jobId ?i) (w\<lparr>w_db := db1\<rparr>) = (ok, w2)" by fastforce
  have two: "frame t w w2" using claim_frame_trans [OF one frame_enqueue] q2 by (metis snd_conv)
  have "frame t w (snd (confirmDispatched e (e_task plan) c d ts a w2))" for c d ts a
    by (rule claim_frame_trans [OF two frame_confirm [OF assms]])
  then show ?thesis using run one two q2
    by (auto simp: dispatch_def Let_def split: sum.split prod.split) (metis snd_conv)+
qed

text \<open>A task whose replacement is claimed.\<close>

definition claimed :: "string \<Rightarrow> string \<Rightarrow> rep_world \<Rightarrow> bool" where
  "claimed t s w = (s \<noteq> [] \<and> distinct_ids (w_db w) \<and> (\<exists>st rq. claim_view t (w_db w) = Some (Some s, st, rq)))"

lemma claimed_row: "claimed t s w \<Longrightarrow> \<exists>r. find_task t (w_db w) = Some r \<and> replaced_by_task_id r = Some s \<and> s \<noteq> []"
  by (auto simp: claimed_def claim_view_def row_claim_def)

lemma only_row: "distinct_ids db \<Longrightarrow> find_task t db = Some r \<Longrightarrow> q \<in> set (db_tasks db) \<Longrightarrow> task_id q = t \<Longrightarrow> q = r"
  unfolding distinct_ids_def find_task_def find_Some_iff by (auto simp: distinct_map dest: inj_onD)

lemma frame_claimed: "frame t w w' \<Longrightarrow> claimed t s w \<Longrightarrow> claimed t s w'"
  by (auto simp: frame_def claimed_def grows_def)

lemma claimed_evaluate: "claimed t s w \<Longrightarrow> q_taskId q = t \<Longrightarrow> evaluate e q (w_db w) = Nothing_to_decide"
  using claimed_row [of t s w] by (auto simp: evaluate_def loadTask_def undecided_def taskFromRow_def text_column_def)

lemma claimed_not_bound: "claimed t s w \<Longrightarrow> q_taskId q = t \<Longrightarrow> bound_elsewhere q (w_db w) = None"
  using claimed_row [of t s w] by (auto simp: bound_elsewhere_def loadTask_def taskFromRow_def text_column_def split: option.splits)

lemma claimed_withdrawRequest: "claimed t s w \<Longrightarrow> frame t w (on_db (\<lambda>db. snd (withdrawRequest u rq n db)) w)"
  unfolding withdrawRequest_def snd_case_pair
  using claimed_row [of t s w] by (intro frame_update_found) (auto simp: keeps_id_def)

lemma evaluate_task:
  "evaluate e q db = Eligible plan \<Longrightarrow> t_taskId (e_task plan) = q_taskId q"
  "evaluate e q db = Ineligible reason task l m \<Longrightarrow> t_taskId task = q_taskId q"
  using loadTask_id [of "q_taskId q" db]
  by (auto simp: evaluate_def undecided_def decide_def Let_def split: option.splits if_splits)

lemma frame_complete:
  assumes "claimed t s w"
  shows "frame t w (snd (complete e q w))"
proof (cases "q_taskId q = t")
  case True
  then show ?thesis using claimed_evaluate [OF assms True] claimed_not_bound [OF assms True] by (simp add: complete_def)
next
  case False
  have unbound: "frame t w (snd (withdrawUnbound e task f w))" if "t_taskId task \<noteq> t" for task f
    using frame_withdraw [OF that] by (auto simp: withdrawUnbound_def split: option.split)
  have bound: "t_taskId task \<noteq> t" if "bound_elsewhere q (w_db w) = Some task" for task
    using that False loadTask_id by (auto simp: bound_elsewhere_def split: option.splits if_splits)
  have "frame t w (snd (recordSkip e reason task l m q w))" if "t_taskId task \<noteq> t" for reason task l m
    using frame_releaseSkipped [OF that] by (simp add: recordSkip_def Let_def)
  then show ?thesis
    using unbound bound frame_dispatch evaluate_task False
    by (simp add: complete_def split: option.split ReplacementEvaluation.split prod.split) (metis snd_conv)
qed

lemma frame_prepare:
  assumes "claimed t s w"
  shows "frame t w (snd (prepare e q w))"
proof (cases "q_taskId q = t")
  case True
  then show ?thesis using claimed_evaluate [OF assms True] by (simp add: prepare_def)
next
  case False
  have "on_db (\<lambda>db. snd (markRequested u rq db)) w = w\<lparr>w_db := snd (markRequested u rq (w_db w))\<rparr>" for u rq by (simp add: on_db_def)
  then have "frame t w (w\<lparr>w_db := snd (markRequested (q_taskId q) rq (w_db w))\<rparr>)" for rq using frame_markRequested [OF False, of w rq] by metis
  then show ?thesis by (auto simp: prepare_def Let_def split: ReplacementEvaluation.split prod.split) (metis snd_conv)+
qed

lemma frame_withdraw_claimed:
  assumes "claimed t s w"
  shows "frame t w (snd (withdraw e u rq w))"
proof (cases "u = t")
  case True
  obtain r where r: "find_task t (w_db w) = Some r" "replaced_by_task_id r = Some s" using claimed_row [OF assms] by blast
  have "q = r" if "q \<in> set (db_tasks (w_db w))" "task_id q = t" for q
    using only_row [OF _ r(1) that] assms by (simp add: claimed_def)
  then have none: "\<not> (task_id q = t \<and> replacement_state q = Some RS_pending \<and> replacement_request q = Some rq \<and> replaced_by_task_id q = None)"
    if "q \<in> set (db_tasks (w_db w))" for q using r(2) that by (metis option.distinct(1))
  have "withdrawRequest t rq n (w_db w) = (False, w_db w)" for n
    using none sql_update_none [of "w_db w", OF none] by (simp add: withdrawRequest_def sql_update_def filter_empty_conv)
  then show ?thesis by (simp add: withdraw_def True)
qed (rule frame_withdraw)

subsection \<open>A claimed replacement is delivered, released or still owed\<close>

definition owed :: "string \<Rightarrow> ReplacementDispatchRecord \<Rightarrow> rep_world \<Rightarrow> bool" where
  "owed t d w =
     (claimed t (d_replacementTaskId d) w
      \<and> (\<exists>rq. claim_view t (w_db w) = Some (Some (d_replacementTaskId d), Some RS_pending, Some rq)
           \<and> rq_requestedAt rq \<noteq> None \<and> rq_dispatch rq = Some d \<and> rq_failureNotice rq = None))"

text \<open>The queue confirmed the job, or the replacement ran.\<close>

definition reached_queue :: "ReplacementDispatchRecord \<Rightarrow> rep_world \<Rightarrow> bool" where
  "reached_queue d w = ((\<exists>j. (d_jobId d, j, True) \<in> set (w_adds w)) \<or> hasRunTransition (d_replacementTaskId d) (w_db w))"

definition delivered :: "string \<Rightarrow> ReplacementDispatchRecord \<Rightarrow> rep_world \<Rightarrow> bool" where
  "delivered t d w =
     (claimed t (d_replacementTaskId d) w \<and> reached_queue d w
      \<and> (\<exists>rq. claim_view t (w_db w) = Some (Some (d_replacementTaskId d), Some RS_dispatched, Some rq) \<and> rq_failureNotice rq = None))"

text \<open>The failure of the original is published, or its notice is still stored.\<close>

definition told :: "string \<Rightarrow> FailureNoticeRecord option \<Rightarrow> rep_world \<Rightarrow> bool" where
  "told t notice w =
     (case notice of
        Some n \<Rightarrow> n_publish n \<and> n_reason n \<noteq> None \<and> \<not> n_exhausted n
      | None \<Rightarrow> (t, ''failed'', True) \<in> set (w_published w))"

definition released :: "string \<Rightarrow> ReplacementDispatchRecord \<Rightarrow> rep_world \<Rightarrow> bool" where
  "released t d w =
     (claimed t (d_replacementTaskId d) w
      \<and> (\<exists>rq. claim_view t (w_db w) = Some (Some (d_replacementTaskId d), Some RS_skipped, Some rq)
           \<and> rq_dispatch rq = Some d \<and> told t (rq_failureNotice rq) w))"

definition accounted :: "string \<Rightarrow> ReplacementDispatchRecord \<Rightarrow> rep_world \<Rightarrow> bool" where
  "accounted t d w = (owed t d w \<or> delivered t d w \<or> released t d w)"

lemma hasRunTransition_mono: "set (db_history db) \<subseteq> set (db_history db') \<Longrightarrow> hasRunTransition s db \<Longrightarrow> hasRunTransition s db'"
  by (fastforce simp: hasRunTransition_def list_ex_iff task_history_def)

lemma reached_queue_mono: "grows w w' \<Longrightarrow> reached_queue d w \<Longrightarrow> reached_queue d w'"
  using hasRunTransition_mono by (fastforce simp: reached_queue_def grows_def)

lemma told_mono: "grows w w' \<Longrightarrow> told t n w \<Longrightarrow> told t n w'"
  by (auto simp: told_def grows_def split: option.splits)

lemma frame_view: "frame t w w' \<Longrightarrow> claim_view t (w_db w) = Some v \<Longrightarrow> claim_view t (w_db w') = Some v"
  by (simp add: frame_def)

lemma frame_grows: "frame t w w' \<Longrightarrow> grows w w'"
  by (simp add: frame_def)

lemma frame_owed: "frame t w w' \<Longrightarrow> owed t d w \<Longrightarrow> owed t d w'"
  unfolding owed_def using frame_claimed frame_view by blast

lemma frame_delivered: "frame t w w' \<Longrightarrow> delivered t d w \<Longrightarrow> delivered t d w'"
  unfolding delivered_def using frame_claimed frame_view reached_queue_mono [OF frame_grows] by blast

lemma frame_released: "frame t w w' \<Longrightarrow> released t d w \<Longrightarrow> released t d w'"
  unfolding released_def using frame_claimed frame_view told_mono [OF frame_grows] by blast

lemma frame_accounted: "frame t w w' \<Longrightarrow> accounted t d w \<Longrightarrow> accounted t d w'"
  unfolding accounted_def using frame_owed frame_delivered frame_released by blast

lemma accounted_claimed: "accounted t d w \<Longrightarrow> claimed t (d_replacementTaskId d) w"
  by (auto simp: accounted_def owed_def delivered_def released_def)

text \<open>An update of the row of \<open>t\<close> itself.\<close>

lemma claim_view_update:
  assumes "keeps_id f" "find_task t db = Some r"
  shows "claim_view t (snd (sql_update P f db)) = Some (row_claim (if P r then f r else r))"
  by (simp add: claim_view_def find_task_update [OF assms(1)] assms(2))

lemma claim_view_row: "claim_view t db = Some (a, b, c) \<Longrightarrow> \<exists>r. find_task t db = Some r \<and> task_id r = t \<and> replaced_by_task_id r = a \<and> replacement_state r = b \<and> replacement_request r = c"
  using find_task_id by (auto simp: claim_view_def row_claim_def)

lemma claimed_update:
  assumes "claimed t s w" "keeps_id f" "claim_view t (snd (sql_update P f (w_db w))) = Some (Some s, st, rq)"
  shows "claimed t s (on_db (\<lambda>db. snd (sql_update P f db)) w)"
  using assms distinct_ids_update [OF assms(2)] by (auto simp: claimed_def on_db_def)

lemma setState_delivered:
  assumes "owed t d w" "reached_queue d w"
  shows "delivered t d (on_db (setState t (Some RS_dispatched)) w)"
proof -
  let ?f = "\<lambda>r. r\<lparr>replacement_state := Some RS_dispatched\<rparr>"
  obtain rq where v: "claim_view t (w_db w) = Some (Some (d_replacementTaskId d), Some RS_pending, Some rq)" "rq_failureNotice rq = None"
    and c: "claimed t (d_replacementTaskId d) w" using assms(1) by (auto simp: owed_def)
  have k: "keeps_id ?f" by (simp add: keeps_id_def)
  have view: "claim_view t (snd (sql_update (\<lambda>r. task_id r = t) ?f (w_db w))) = Some (Some (d_replacementTaskId d), Some RS_dispatched, Some rq)"
    using claim_view_row [OF v(1)] by (auto simp: claim_view_update [OF k] row_claim_def)
  have "reached_queue d (on_db (\<lambda>db. snd (sql_update (\<lambda>r. task_id r = t) ?f db)) w)"
    using reached_queue_mono [OF grows_update [OF k] assms(2)] .
  then show ?thesis
    unfolding setState_def [abs_def] delivered_def using claimed_update [OF c k view] view v(2) by (auto simp: on_db_def)
qed

lemma confirm_accounted:
  assumes "owed t d w" "reached_queue d w" "t_taskId task = t"
  shows "accounted t d (snd (confirmDispatched e task c d ts a w))"
proof -
  have one: "frame t w (append_event ev w)" for ev by (rule frame_append_event)
  have two: "frame t w (publishTaskUpdate ok u st (append_event ev w))" for ok u st ev by (rule claim_frame_trans [OF one frame_publish])
  have "delivered t d (on_db (setState t (Some RS_dispatched)) w')" if "frame t w w'" for w'
    using setState_delivered [OF frame_owed [OF that assms(1)] reached_queue_mono [OF frame_grows [OF that] assms(2)]] .
  then show ?thesis using one two assms frame_owed [OF two assms(1)]
    by (auto simp: confirmDispatched_def Let_def accounted_def split: option.split)
qed

lemma recordSkipped_released:
  assumes "owed t d w" "n_publish n" "n_reason n \<noteq> None" "\<not> n_exhausted n"
  shows "released t d (on_db (recordSkipped t RS_skipped n) w)
       \<and> (\<exists>rq. claim_view t (w_db (on_db (recordSkipped t RS_skipped n) w)) = Some (Some (d_replacementTaskId d), Some RS_skipped, Some rq) \<and> rq_failureNotice rq = Some n)"
proof -
  let ?f = "\<lambda>r. r\<lparr>replacement_state := Some RS_skipped,
                   replacement_request := Some ((request_or_empty (replacement_request r))\<lparr>rq_failureNotice := Some n\<rparr>)\<rparr>"
  obtain rq where v: "claim_view t (w_db w) = Some (Some (d_replacementTaskId d), Some RS_pending, Some rq)" "rq_dispatch rq = Some d"
    and c: "claimed t (d_replacementTaskId d) w" using assms(1) by (auto simp: owed_def)
  obtain r where r: "find_task t (w_db w) = Some r" "task_id r = t" "replaced_by_task_id r = Some (d_replacementTaskId d)" "replacement_request r = Some rq"
    using claim_view_row [OF v(1)] by blast
  have k: "keeps_id ?f" by (simp add: keeps_id_def)
  have view: "claim_view t (snd (sql_update (\<lambda>r. task_id r = t) ?f (w_db w)))
      = Some (Some (d_replacementTaskId d), Some RS_skipped, Some (rq\<lparr>rq_failureNotice := Some n\<rparr>))"
    unfolding claim_view_update [OF k r(1)] using r by (simp add: row_claim_def request_or_empty_def)
  then show ?thesis
    unfolding recordSkipped_def [abs_def] released_def using claimed_update [OF c k view] v(2) assms(2-4) by (auto simp: on_db_def told_def)
qed

lemma clear_released:
  assumes "claimed t (d_replacementTaskId d) w" "claim_view t (w_db w) = Some (Some (d_replacementTaskId d), Some RS_skipped, Some rq)"
    "rq_dispatch rq = Some d" "rq_failureNotice rq = Some n" "(t, ''failed'', True) \<in> set (w_published w)"
  shows "released t d (on_db (clearFailureNotice t (n_id n)) w)"
proof -
  let ?f = "\<lambda>r. let remaining = (request_or_empty (replacement_request r))\<lparr>rq_failureNotice := None\<rparr>
                 in r\<lparr>replacement_request := (if remaining = empty_request then None else Some remaining)\<rparr>"
  obtain r where r: "find_task t (w_db w) = Some r" "task_id r = t" "replaced_by_task_id r = Some (d_replacementTaskId d)"
      "replacement_state r = Some RS_skipped" "replacement_request r = Some rq"
    using claim_view_row [OF assms(2)] by blast
  have k: "keeps_id ?f" by (simp add: keeps_id_def Let_def)
  have "rq\<lparr>rq_failureNotice := None\<rparr> \<noteq> empty_request" using assms(3) by (auto simp: empty_request_def dest: arg_cong [of _ _ rq_dispatch])
  then have view: "claim_view t (snd (sql_update (has_notice t (n_id n)) ?f (w_db w)))
      = Some (Some (d_replacementTaskId d), Some RS_skipped, Some (rq\<lparr>rq_failureNotice := None\<rparr>))"
    unfolding claim_view_update [OF k r(1)] using r assms(4) by (simp add: row_claim_def request_or_empty_def has_notice_def row_notice_def)
  then show ?thesis
    unfolding clearFailureNotice_def [abs_def] released_def using claimed_update [OF assms(1) k view] assms(3,5) by (auto simp: on_db_def told_def)
qed

lemma deliver_released:
  assumes r: "released t d w" and view: "claim_view t (w_db w) = Some (Some (d_replacementTaskId d), Some RS_skipped, Some rq)"
    and n: "rq_failureNotice rq = Some n" and t: "t_taskId task = t" and e: "env_publishTaskUpdate e \<noteq> None"
  shows "released t d (deliverFailureNotice e task n l w)"
proof -
  have c: "claimed t (d_replacementTaskId d) w" and dis: "rq_dispatch rq = Some d" and told: "told t (Some n) w"
    using r view n by (auto simp: released_def)
  obtain reason where reason: "n_reason n = Some reason" "n_publish n" "\<not> n_exhausted n" using told by (auto simp: told_def)
  obtain p where p: "env_publishTaskUpdate e = Some p" using e by blast
  define w2 where "w2 = publishTaskUpdate p t ''failed'' (append_event (skipped_event task n reason) w)"
  have f: "frame t w w2" unfolding w2_def by (rule claim_frame_trans [OF frame_append_event frame_publish])
  have run: "deliverFailureNotice e task n l w = (if p then on_db (clearFailureNotice t (n_id n)) w2 else w2)"
    using reason p t by (simp add: deliverFailureNotice_def notice_comment_def failure_alert_def Let_def w2_def)
  show ?thesis
  proof (cases p)
    case True
    then have "(t, ''failed'', True) \<in> set (w_published w2)" by (simp add: w2_def publishTaskUpdate_def)
    then show ?thesis unfolding run using True clear_released [OF frame_claimed [OF f c] frame_view [OF f view] dis n] by simp
  next
    case False
    then show ?thesis unfolding run using frame_released [OF f r] by simp
  qed
qed

lemma resumeClaimed_accounted:
  assumes "owed t d w" "env_publishTaskUpdate e \<noteq> None"
  shows "accounted t d (snd (resumeClaimed e t c d w))"
proof (cases "loadTask t (w_db w)")
  case (Some task)
  have t: "t_taskId task = t" using loadTask_id [OF Some] .
  have state: "t_replacementState task = Some RS_pending"
    using assms(1) Some by (auto simp: owed_def claim_view_def row_claim_def loadTask_def taskFromRow_def)
  obtain ok w1 where q: "enqueue e (d_jobData d) (d_jobId d) w = (ok, w1)" by fastforce
  have f1: "frame t w w1" using frame_enqueue [of t w e "d_jobData d" "d_jobId d"] q by simp
  have w1: "reached_queue d w1" if ok using q that by (auto simp: enqueue_def reached_queue_def)
  have "accounted t d (snd (confirmDispatched e task c d ts a w1))" if ok for ts a
    using confirm_accounted [OF frame_owed [OF f1 assms(1)] w1 [OF that] t] .
  moreover have "accounted t d w1" using frame_owed [OF f1 assms(1)] by (simp add: accounted_def)
  moreover have "accounted t d (snd (confirmDispatched e task c d ts a w))" if "hasRunTransition (d_replacementTaskId d) (w_db w)" for ts a
    using confirm_accounted [OF assms(1) _ t] that by (simp add: reached_queue_def)
  moreover have "accounted t d (releaseNotStarted e task c d w)"
  proof -
    let ?n = "newNotice e task ((notice_fields c (Some Skip_replacement_not_started))
        \<lparr>n_replacementTaskId := Some (d_replacementTaskId d), n_attemptNumber := Some (d_attemptNumber d)\<rparr>)"
    have "n_publish ?n" "n_reason ?n \<noteq> None" "\<not> n_exhausted ?n" using state by (simp_all add: newNotice_def notice_fields_def)
    from recordSkipped_released [OF assms(1) this]
    have "released t d (deliverFailureNotice e task ?n None (on_db (recordSkipped t RS_skipped ?n) w))"
      using deliver_released [OF _ _ _ t assms(2)] by blast
    then show ?thesis by (simp add: releaseNotStarted_def releaseSkipped_def Let_def t accounted_def)
  qed
  ultimately show ?thesis
    using Some q loadTask_id assms(1) by (auto simp: resumeClaimed_def Let_def accounted_def split: option.split)
qed (use assms(1) in \<open>simp add: resumeClaimed_def accounted_def\<close>)

lemma snd_case_sum: "snd (case p of (Inl err, x) \<Rightarrow> (f err, x) | (Inr out, x) \<Rightarrow> (g out, x)) = snd p"
  by (cases p; cases "fst p") simp_all

lemma frame_resume_entry:
  assumes "claimed t s w" "pr_taskId entry \<noteq> t"
  shows "frame t w (snd (resume_entry e entry w))"
proof -
  note f = frame_resumeClaimed [OF assms(2), of w e] frame_withdraw [OF assms(2), of w e] frame_complete [OF assms(1), of e]
    frame_setState [OF assms(2), of w]
  show ?thesis
    using f by (auto simp: resume_entry_def Let_def snd_case_pair snd_case_sum split: option.split)
qed

lemma resume_entries_accounted:
  assumes "accounted t d w" "distinct (map pr_taskId entries)" "\<And>n. env_publishTaskUpdate (env n) \<noteq> None"
    and "\<And>entry. entry \<in> set entries \<Longrightarrow> pr_taskId entry = t \<Longrightarrow>
           owed t d w \<and> pr_replacedByTaskId entry = Some (d_replacementTaskId d) \<and> rq_dispatch (pr_request entry) = Some d"
  shows "accounted t d (snd (resume_entries env n entries counts w))"
  using assms(1,2,4)
proof (induction entries arbitrary: n counts w)
  case (Cons entry entries)
  obtain eff w1 where step: "resume_entry (env n) entry w = (eff, w1)" by fastforce
  obtain a b where counts: "counts = (a, b)" by fastforce
  have frame: "frame t w w1" if "pr_taskId entry \<noteq> t"
    using frame_resume_entry [OF accounted_claimed [OF Cons.prems(1)] that, of "env n"] step by simp
  have acc: "accounted t d w1"
  proof (cases "pr_taskId entry = t")
    case True
    then have here: "owed t d w" "pr_replacedByTaskId entry = Some (d_replacementTaskId d)" "rq_dispatch (pr_request entry) = Some d"
      using Cons.prems(3) [of entry] by simp_all
    then have "w1 = snd (resumeClaimed (env n) t (option_or (rq_cause (pr_request entry)) Infra_lost) d w)"
      using step True by (auto simp: resume_entry_def Let_def split: prod.splits)
    then show ?thesis using resumeClaimed_accounted [OF here(1) assms(3)] by simp
  next
    case False
    then show ?thesis using frame_accounted [OF frame Cons.prems(1)] by simp
  qed
  have later: "owed t d w1 \<and> pr_replacedByTaskId x = Some (d_replacementTaskId d) \<and> rq_dispatch (pr_request x) = Some d"
    if "x \<in> set entries" "pr_taskId x = t" for x
  proof -
    have "pr_taskId entry \<noteq> t" using Cons.prems(2) that by auto
    then show ?thesis using Cons.prems(3) [of x] that frame_owed [OF frame] by simp
  qed
  have rest: "accounted t d (snd (resume_entries env (Suc n) entries cs w1))" for cs
    using Cons.IH [OF acc _ later] Cons.prems(2) by simp
  show ?case using rest acc by (simp add: counts step split: sum.split)
qed simp

lemma resume_notices_accounted:
  assumes "accounted t d w" "distinct (map fst notices)" "\<And>n. env_publishTaskUpdate (env n) \<noteq> None"
    and "\<And>n. (t, n) \<in> set notices \<Longrightarrow> released t d w
           \<and> (\<exists>rq. claim_view t (w_db w) = Some (Some (d_replacementTaskId d), Some RS_skipped, Some rq) \<and> rq_failureNotice rq = Some n)"
  shows "accounted t d (snd (resume_notices env k notices c w))"
  using assms(1,2,4)
proof (induction notices arbitrary: k c w)
  case (Cons notice notices)
  obtain u n where un: "notice = (u, n)" by fastforce
  show ?case
  proof (cases "loadTask u (w_db w)")
    case None
    then show ?thesis using Cons.IH [OF Cons.prems(1)] Cons.prems(2,3) by (auto simp: un)
  next
    case (Some task)
    let ?w1 = "deliverFailureNotice (env k) task n None w"
    have u: "t_taskId task = u" using loadTask_id [OF Some] .
    have frame: "frame t w ?w1" if "u \<noteq> t" using frame_deliver u that by blast
    have acc: "accounted t d ?w1"
    proof (cases "u = t")
      case True
      then obtain rq where "released t d w" "claim_view t (w_db w) = Some (Some (d_replacementTaskId d), Some RS_skipped, Some rq)" "rq_failureNotice rq = Some n"
        using Cons.prems(3) [of n] un by auto
      then show ?thesis using deliver_released [OF _ _ _ _ assms(3)] u True by (auto simp: accounted_def)
    next
      case False
      then show ?thesis using frame_accounted [OF frame Cons.prems(1)] by simp
    qed
    have later: "released t d ?w1 \<and> (\<exists>rq. claim_view t (w_db ?w1) = Some (Some (d_replacementTaskId d), Some RS_skipped, Some rq) \<and> rq_failureNotice rq = Some m)"
      if "(t, m) \<in> set notices" for m
    proof -
      have "u \<noteq> t" using Cons.prems(2) that un by force
      then show ?thesis using Cons.prems(3) [of m] that frame_released [OF frame] frame_view [OF frame] by auto
    qed
    show ?thesis using Cons.IH [OF acc _ later] Cons.prems(2) Some by (simp add: un)
  qed
qed simp

text \<open>What the recovery queries list.\<close>

lemma distinct_map_filter_option:
  assumes "distinct (map f xs)" "\<And>x y. g x = Some y \<Longrightarrow> h y = f x"
  shows "distinct (map h (List.map_filter g xs))"
  using assms(1)
proof (induction xs)
  case (Cons x xs)
  have "h ` set (List.map_filter g xs) \<subseteq> f ` set xs"
    by (auto simp: List.map_filter_def assms(2))
  then show ?case using Cons assms(2) [of x] by (auto simp: List.map_filter_def split: option.split)
qed (simp add: List.map_filter_def)

lemma distinct_listed:
  assumes "distinct_ids db"
  shows "distinct (map task_id (take n (sort_key task_id (filter P (db_tasks db)))))"
proof -
  have "distinct (map task_id (filter P (db_tasks db)))" using assms by (simp add: distinct_ids_def distinct_map_filter)
  then have "distinct (map task_id (sort_key task_id (filter P (db_tasks db))))" by (simp add: distinct_map)
  then show ?thesis by (simp add: take_map [symmetric] distinct_take)
qed

lemma pending_entry_id: "pending_entry b db r = Some entry \<Longrightarrow> pr_taskId entry = task_id r"
  by (auto simp: pending_entry_def Let_def split: option.splits if_splits)

lemma listed_pending:
  assumes "entry \<in> set (listPendingRequests b n db)"
  shows "\<exists>r \<in> set (db_tasks db). replacement_state r = Some RS_pending \<and> pending_entry b db r = Some entry"
  using assms by (auto simp: listPendingRequests_def List.map_filter_def dest!: in_set_takeD)

lemma listed_notice:
  assumes "(t, m) \<in> set (listFailureNotices b n db)"
  shows "\<exists>r \<in> set (db_tasks db). task_id r = t \<and> row_notice r = Some m"
  using assms by (auto simp: listFailureNotices_def List.map_filter_def dest!: in_set_takeD)

lemma accounted_row:
  assumes "accounted t d w" "r \<in> set (db_tasks (w_db w))" "task_id r = t"
  shows "find_task t (w_db w) = Some r" "replaced_by_task_id r = Some (d_replacementTaskId d)" "claim_view t (w_db w) = Some (row_claim r)"
proof -
  have c: "claimed t (d_replacementTaskId d) w" using assms(1) by (rule accounted_claimed)
  then obtain q where q: "find_task t (w_db w) = Some q" "replaced_by_task_id q = Some (d_replacementTaskId d)" using claimed_row by blast
  moreover have "r = q" using only_row [OF _ q(1) assms(2,3)] c by (simp add: claimed_def)
  ultimately show "find_task t (w_db w) = Some r" "replaced_by_task_id r = Some (d_replacementTaskId d)" "claim_view t (w_db w) = Some (row_claim r)"
    by (simp_all add: claim_view_def)
qed

lemma pending_accounted:
  assumes "accounted t d w" "entry \<in> set (listPendingRequests b n (w_db w))" "pr_taskId entry = t"
  shows "owed t d w \<and> pr_replacedByTaskId entry = Some (d_replacementTaskId d) \<and> rq_dispatch (pr_request entry) = Some d"
proof -
  obtain r where r: "r \<in> set (db_tasks (w_db w))" "replacement_state r = Some RS_pending" "pending_entry b (w_db w) r = Some entry"
    using listed_pending [OF assms(2)] by blast
  then have "task_id r = t" using pending_entry_id assms(3) by simp
  note row = accounted_row [OF assms(1) r(1) this]
  have s: "d_replacementTaskId d \<noteq> []" using accounted_claimed [OF assms(1)] by (simp add: claimed_def)
  have ow: "owed t d w" using assms(1) r(2) row(3) by (auto simp: accounted_def delivered_def released_def row_claim_def)
  then obtain rq where "replacement_request r = Some rq" "rq_dispatch rq = Some d" using row(3) by (auto simp: owed_def row_claim_def)
  then have "pr_request entry = rq \<and> pr_replacedByTaskId entry = Some (d_replacementTaskId d)"
    using r(3) row(2) s by (auto simp: pending_entry_def Let_def text_column_def split: option.splits if_splits)
  with ow \<open>rq_dispatch rq = Some d\<close> show ?thesis by simp
qed

lemma notice_accounted:
  assumes "accounted t d w" "(t, m) \<in> set (listFailureNotices b n (w_db w))"
  shows "released t d w \<and> (\<exists>rq. claim_view t (w_db w) = Some (Some (d_replacementTaskId d), Some RS_skipped, Some rq) \<and> rq_failureNotice rq = Some m)"
proof -
  obtain r where r: "r \<in> set (db_tasks (w_db w))" "task_id r = t" "row_notice r = Some m" using listed_notice [OF assms(2)] by blast
  note row = accounted_row [OF assms(1) r(1,2)]
  obtain rq where rq: "replacement_request r = Some rq" "rq_failureNotice rq = Some m" using r(3) by (auto simp: row_notice_def split: option.splits)
  then have "released t d w" using assms(1) row(3) by (auto simp: accounted_def owed_def delivered_def row_claim_def)
  then show ?thesis using row(3) rq by (auto simp: released_def row_claim_def)
qed

lemma resumePending_accounted:
  assumes acc: "accounted t d w" and env: "\<And>n. env_publishTaskUpdate (env n) \<noteq> None"
  shows "accounted t d (snd (resumePending env lim0 w))"
proof -
  let ?b = "env_now (env 0) - PENDING_REPLACEMENT_RECOVERY_MS" and ?n = "option_or lim0 20"
  let ?pending = "listPendingRequests ?b ?n (w_db w)"
  have ids: "distinct_ids (w_db w')" if "accounted t d w'" for w' using accounted_claimed [OF that] by (simp add: claimed_def)
  have dist: "distinct (map pr_taskId ?pending)"
    unfolding listPendingRequests_def by (rule distinct_map_filter_option [OF distinct_listed [OF ids [OF acc]]]) (rule pending_entry_id)
  have entries: "accounted t d (snd (resume_entries env 0 ?pending (0, 0) w))"
    by (rule resume_entries_accounted [OF acc dist env]) (rule pending_accounted [OF acc])
  have notices: "accounted t d (snd (resume_notices env k (listFailureNotices ?b ?n (w_db w1)) c w1))" if a: "accounted t d w1" for k c w1
  proof -
    have dist: "distinct (map fst (listFailureNotices ?b ?n (w_db w1)))"
      unfolding listFailureNotices_def by (rule distinct_map_filter_option [OF distinct_listed [OF ids [OF a]]]) auto
    show ?thesis by (rule resume_notices_accounted [OF a dist env]) (rule notice_accounted [OF a])
  qed
  obtain res w1 where e: "resume_entries env 0 ?pending (0, 0) w = (res, w1)" by fastforce
  have w1: "accounted t d w1" using entries e by simp
  show ?thesis
    using notices [OF w1] w1 by (auto simp: resumePending_def Let_def e snd_case_pair split: sum.split prod.split)
qed

subsection \<open>From the claim on\<close>

text \<open>The decision of the task was recorded by \<open>prepare\<close>, or none was; no notice of an earlier decision is left.\<close>

definition fresh_decision :: "ReplaceableTask \<Rightarrow> bool" where
  "fresh_decision task =
     (case t_replacementRequest task of None \<Rightarrow> True | Some rq \<Rightarrow> rq_requestedAt rq \<noteq> None \<and> rq_failureNotice rq = None)"

lemma claim_owed:
  assumes run: "createReplacement i (w_db w) = (Return True, db')" and ids: "distinct_ids (w_db w)" and s: "cr_replacementTaskId i \<noteq> []"
    and fresh: "fresh_decision (cr_original i)"
  shows "owed (t_taskId (cr_original i)) (dispatch_record i) (w\<lparr>w_db := db'\<rparr>)"
proof -
  let ?t = "t_taskId (cr_original i)" and ?w1 = "on_db (\<lambda>db. snd (claim_slot i db)) w"
  let ?P = "\<lambda>r. task_id r = ?t \<and> replaced_by_task_id r = None"
  let ?f = "\<lambda>r. r\<lparr>replaced_by_task_id := Some (cr_replacementTaskId i), replacement_state := Some RS_pending,
              replacement_request := Some (claim_request i)\<rparr>"
  have "fst (claim_slot i (w_db w)) \<noteq> 0" using run by (auto simp: createReplacement_def split: prod.splits if_splits)
  then obtain p where p: "p \<in> set (db_tasks (w_db w))" "?P p" by (auto simp: claim_slot_def sql_update_def filter_empty_conv)
  then obtain r where r: "find_task ?t (w_db w) = Some r" by (cases "find_task ?t (w_db w)") (auto simp: find_task_def find_None_iff)
  then have "p = r" using only_row ids p by blast
  have k: "keeps_id ?f" by (simp add: keeps_id_def)
  have v: "claim_view ?t (snd (claim_slot i (w_db w))) = Some (Some (cr_replacementTaskId i), Some RS_pending, Some (claim_request i))"
    unfolding claim_slot_def claim_view_update [OF k r] using p \<open>p = r\<close> by (simp add: row_claim_def)
  have "claimed ?t (cr_replacementTaskId i) ?w1"
    using v s ids distinct_ids_update [OF k] by (simp add: claimed_def on_db_def claim_slot_def)
  then have "owed ?t (dispatch_record i) ?w1"
    using v fresh by (auto simp: owed_def on_db_def dispatch_record_def claim_request_def fresh_decision_def empty_request_def split: option.splits)
  then show ?thesis by (rule frame_owed [OF frame_after_claim [OF run]])
qed

lemma dispatch_accounted:
  assumes "dispatch e plan q w = (Return out, w')" "out \<noteq> Outcome_none" "distinct_ids (w_db w)" "fresh_decision (e_task plan)"
  shows "accounted (t_taskId (e_task plan)) (dispatch_record (replacement_input e plan q)) w'"
proof -
  let ?i = "replacement_input e plan q" and ?t = "t_taskId (e_task plan)"
  let ?d = "dispatch_record ?i"
  obtain db1 where run: "createReplacement ?i (w_db w) = (Return True, db1)"
    using assms(1,2) by (auto simp: dispatch_def Let_def split: prod.splits sum.splits if_splits)
  let ?w1 = "w\<lparr>w_db := db1\<rparr>"
  have owed: "owed ?t ?d ?w1" using claim_owed [OF run assms(3)] assms(4) by (simp add: replacement_input_fields)
  obtain ok w2 where q2: "enqueue e (cr_jobData ?i) (cr_jobId ?i) ?w1 = (ok, w2)" by fastforce
  have owed2: "owed ?t ?d w2" using frame_owed [OF _ owed] frame_enqueue q2 by (metis snd_conv)
  have reached: "reached_queue ?d w2" if ok using q2 that by (auto simp: enqueue_def reached_queue_def dispatch_record_def)
  have "w' = w2 \<or> (ok \<and> w' = snd (confirmDispatched e (e_task plan) (q_cause q) ?d (env_now e) (Some ''pending'') w2))"
    using assms(1) run q2 by (auto simp: dispatch_def Let_def split: prod.splits if_splits)
  moreover have "accounted ?t ?d w2" using owed2 by (simp add: accounted_def)
  ultimately show ?thesis using confirm_accounted [OF owed2 reached refl] by blast
qed

text \<open>
  What may follow: a sweep of recovery, any other call of the service, and any transition of a task. Each is one step;
  the calls of two processes do not overlap here.
\<close>

inductive service_step :: "rep_world \<Rightarrow> rep_world \<Rightarrow> bool" where
  Sweep: "(\<And>n. env_publishTaskUpdate (env n) \<noteq> None) \<Longrightarrow> service_step w (snd (resumePending env lim0 w))"
| Prepare: "service_step w (snd (prepare e q w))"
| Complete: "service_step w (snd (complete e q w))"
| Withdraw_decision: "service_step w (snd (withdraw e u rq w))"
| Transition: "service_step w (on_db (\<lambda>db. db\<lparr>db_history := db_history db @ hs\<rparr>) w)"
| Announce: "service_step w (publishTaskUpdate ok t st w)"

lemma service_step_accounted: "service_step w w' \<Longrightarrow> accounted t d w \<Longrightarrow> accounted t d w'"
proof (induction rule: service_step.induct)
  case (Sweep env w lim0)
  then show ?case using resumePending_accounted by blast
next
  case (Prepare w e q)
  then show ?case using frame_prepare [OF accounted_claimed] frame_accounted by blast
next
  case (Complete w e q)
  then show ?case using frame_complete [OF accounted_claimed] frame_accounted by blast
next
  case (Withdraw_decision w e u rq)
  then show ?case using frame_withdraw_claimed [OF accounted_claimed] frame_accounted by blast
next
  case (Transition w hs)
  then show ?case using frame_accounted [OF frame_history] by blast
next
  case (Announce w ok u st)
  then show ?case using frame_accounted [OF frame_publish] by blast
qed


text \<open>An unconfirmed add of the claimed example, then a sweep that finds the queue again.\<close>

definition ex_world :: rep_world where
  "ex_world = \<lparr>w_db = ex_db, w_adds = [], w_published = [], w_comments = []\<rparr>"

definition ex_down :: rep_env where "ex_down = ex_env\<lparr>env_enqueueConfirmed := False\<rparr>"

definition ex_claimed :: rep_world where "ex_claimed = snd (dispatch ex_down ex_plan ex_request ex_world)"

definition ex_swept :: rep_world where
  "ex_swept = snd (resumePending (\<lambda>n. ex_env\<lparr>env_now := 600000\<rparr>) None ex_claimed)"

lemma ex_dispatch:
  "dispatch ex_down ex_plan ex_request ex_world = (Return (Outcome_delivery_pending ''integry-propr-42-codex-gpt-c2'' 2), ex_claimed)"
  by code_simp

lemma ex_swept_state: "map_option replacement_state (find_task ''t1'' (w_db ex_swept)) = Some (Some RS_dispatched)"
  by code_simp

lemma ex_start: "distinct_ids (w_db ex_world)" "fresh_decision (e_task ex_plan)" "t_taskId (e_task ex_plan) = ''t1''"
  by code_simp+

lemma ex_sweep: "service_step\<^sup>*\<^sup>* ex_claimed ex_swept"
  unfolding ex_swept_def by (rule r_into_rtranclp, rule service_step.Sweep) (simp add: ex_env_def)


subsection \<open>Recovery gets through\<close>


definition ex_entry :: PendingReplacementRequest where
  "ex_entry = hd (listPendingRequests 300000 20 (w_db ex_claimed))"

definition ex_dispatch_record :: ReplacementDispatchRecord where
  "ex_dispatch_record = dispatch_record (replacement_input ex_down ex_plan ex_request)"

lemma ex_owed: "owed ''t1'' ex_dispatch_record ex_claimed"
proof -
  have "createReplacement (replacement_input ex_down ex_plan ex_request) (w_db ex_world) = (Return True, w_db ex_claimed)"
    "ex_claimed = (ex_world\<lparr>w_db := w_db ex_claimed\<rparr>)\<lparr>w_adds := w_adds ex_claimed\<rparr>"
    "fresh_decision (cr_original (replacement_input ex_down ex_plan ex_request))"
    "t_taskId (cr_original (replacement_input ex_down ex_plan ex_request)) = ''t1''"
    by code_simp+
  note ex = this
  have "owed ''t1'' ex_dispatch_record (ex_world\<lparr>w_db := w_db ex_claimed\<rparr>)"
    using claim_owed [OF ex(1) ex_start(1) _ ex(3)] ex(4) by (simp add: replacement_input_fields ex_dispatch_record_def)
  moreover have "frame ''t1'' (ex_world\<lparr>w_db := w_db ex_claimed\<rparr>) ex_claimed"
    by (subst (2) ex(2)) (simp add: frame_def grows_def ex_world_def)
  ultimately show ?thesis using frame_owed by blast
qed

lemma ex_listed: "ex_entry \<in> set (listPendingRequests 300000 20 (w_db ex_claimed))" "pr_taskId ex_entry = ''t1''"
  "map_option t_latestState (loadTask (d_replacementTaskId ex_dispatch_record) (w_db ex_claimed)) = Some (Some ''pending'')"
  by code_simp+


subsection \<open>The final comment is posted a bounded number of times\<close>

definition notice_view :: "string \<Rightarrow> rep_world \<Rightarrow> FailureNoticeRecord option" where
  "notice_view t w = (case find_task t (w_db w) of Some r \<Rightarrow> row_notice r | None \<Rightarrow> None)"

text \<open>Recovery of one task: the stored notice is delivered again.\<close>

definition redeliver :: "string \<Rightarrow> rep_env \<Rightarrow> rep_world \<Rightarrow> rep_world" where
  "redeliver t e w =
     (case (loadTask t (w_db w), notice_view t w) of
        (Some task, Some n) \<Rightarrow> deliverFailureNotice e task n None w
      | _ \<Rightarrow> w)"

definition posts :: "string \<Rightarrow> rep_world \<Rightarrow> nat" where
  "posts nid w = length (filter (\<lambda>c. fst c = exhaustedCommentMarker nid) (w_comments w))"

definition attempts_left :: "FailureNoticeRecord \<Rightarrow> nat" where
  "attempts_left n = MAX_EXHAUSTED_COMMENT_ATTEMPTS - option_or (n_commentAttempts n) 0"

text \<open>The posts that were made and the attempts that are left stay within a bound; a cleared notice leaves none.\<close>

definition within_posts :: "string \<Rightarrow> string \<Rightarrow> nat \<Rightarrow> rep_world \<Rightarrow> bool" where
  "within_posts t nid bound w =
     (case notice_view t w of
        Some n \<Rightarrow> n_id n = nid \<and> posts nid w + attempts_left n \<le> bound
      | None \<Rightarrow> posts nid w \<le> bound)"

definition holds :: "string \<Rightarrow> FailureNoticeRecord \<Rightarrow> nat \<Rightarrow> rep_world \<Rightarrow> bool" where
  "holds t n bound w = (notice_view t w = Some n \<and> posts (n_id n) w + attempts_left n \<le> bound)"

lemma notice_view_update:
  assumes "keeps_id f"
  shows "notice_view t (on_db (\<lambda>db. snd (sql_update P f db)) w)
           = (case find_task t (w_db w) of Some r \<Rightarrow> row_notice (if P r then f r else r) | None \<Rightarrow> None)"
  by (simp add: notice_view_def on_db_def find_task_update [OF assms] split: option.split)

lemma notice_view_patch:
  assumes "notice_view t w = Some n" "t_taskId task = t" "n_id m = n_id n"
  shows "notice_view t (patch_notice task m p w) = Some (p n)"
proof -
  let ?f = "\<lambda>r. r\<lparr>replacement_request := Some ((request_or_empty (replacement_request r))\<lparr>rq_failureNotice := map_option p (row_notice r)\<rparr>)\<rparr>"
  obtain r where r: "find_task t (w_db w) = Some r" "row_notice r = Some n" using assms(1) by (auto simp: notice_view_def split: option.splits)
  have k: "keeps_id ?f" by (simp add: keeps_id_def)
  have "has_notice t (n_id m) r" using r find_task_id [OF r(1)] assms(3) by (simp add: has_notice_def)
  moreover have "row_notice (?f r) = Some (p n)" using r(2) by (simp add: row_notice_def)
  ultimately show ?thesis
    unfolding patch_notice_def updateFailureNotice_def [abs_def] notice_view_update [OF k] assms(2) by (simp add: r(1))
qed

lemma notice_view_clear:
  assumes "notice_view t w = Some n" "n_id m = n_id n"
  shows "notice_view t (on_db (clearFailureNotice t (n_id m)) w) = None"
proof -
  let ?f = "\<lambda>r. let remaining = (request_or_empty (replacement_request r))\<lparr>rq_failureNotice := None\<rparr>
                 in r\<lparr>replacement_request := (if remaining = empty_request then None else Some remaining)\<rparr>"
  obtain r where r: "find_task t (w_db w) = Some r" "row_notice r = Some n" using assms(1) by (auto simp: notice_view_def split: option.splits)
  have k: "keeps_id ?f" by (simp add: keeps_id_def Let_def)
  have "has_notice t (n_id m) r" using r find_task_id [OF r(1)] assms(2) by (simp add: has_notice_def)
  moreover have "row_notice (?f r) = None" by (simp add: row_notice_def Let_def)
  ultimately show ?thesis unfolding clearFailureNotice_def [abs_def] notice_view_update [OF k] by (simp add: r(1))
qed

lemma posts_kept [simp]:
  "posts nid (on_db f w) = posts nid w" "posts nid (append_event ev w) = posts nid w" "posts nid (publishTaskUpdate ok u st w) = posts nid w"
  "posts nid (patch_notice task n p w) = posts nid w"
  by (simp_all add: posts_def on_db_def append_event_def publishTaskUpdate_def patch_notice_def)

lemma posts_post: "posts nid (snd (post_comment e n w)) \<le> Suc (posts nid w)"
  by (simp add: posts_def post_comment_def Let_def)

lemma notice_view_kept [simp]:
  "notice_view t (append_event ev w) = notice_view t w" "notice_view t (publishTaskUpdate ok u st w) = notice_view t w"
  "notice_view t (snd (post_comment e n w)) = notice_view t w"
proof -
  obtain hs where "append_event ev w = on_db (\<lambda>db. db\<lparr>db_history := db_history db @ hs\<rparr>) w" using append_event_world by blast
  then show "notice_view t (append_event ev w) = notice_view t w" by (simp add: notice_view_def on_db_def find_task_def)
qed (simp_all add: notice_view_def publishTaskUpdate_def post_comment_def Let_def)

lemma comment_holds:
  assumes "holds t n bound w" "t_taskId task = t"
  shows "\<exists>m. n_id m = n_id n \<and> holds t m bound (snd (deliverExhaustedComment e task n w))"
proof -
  let ?a = "option_or (n_commentAttempts n) 0"
  let ?w1 = "patch_notice task n (\<lambda>n. n\<lparr>n_commentAttempts := Some (?a + 1)\<rparr>) w"
  let ?w2 = "snd (post_comment e n ?w1)"
  have view: "notice_view t w = Some n" and le: "posts (n_id n) w + attempts_left n \<le> bound" using assms(1) by (auto simp: holds_def)
  have delivered: "\<exists>m. n_id m = n_id n \<and> holds t m bound (patch_notice task n (\<lambda>n. n\<lparr>n_commentDelivered := True\<rparr>) w')"
    if "holds t n' bound w'" "n_id n' = n_id n" for w' n'
    using that notice_view_patch [of t w' n' task n] assms(2)
    by (intro exI [of _ "n'\<lparr>n_commentDelivered := True\<rparr>"]) (auto simp: holds_def attempts_left_def)
  have posted: "holds t (n\<lparr>n_commentAttempts := Some (?a + 1)\<rparr>) bound ?w2" if "\<not> ?a \<ge> MAX_EXHAUSTED_COMMENT_ATTEMPTS"
    using that notice_view_patch [OF view assms(2) refl] le posts_post [of "n_id n" e n ?w1]
    by (auto simp: holds_def attempts_left_def option_or_def)
  obtain ok w2 where post: "post_comment e n ?w1 = (ok, w2)" by fastforce
  have "\<exists>m. n_id m = n_id n \<and> holds t m bound w2" if "\<not> ?a \<ge> MAX_EXHAUSTED_COMMENT_ATTEMPTS"
    using posted [OF that] post by (intro exI [of _ "n\<lparr>n_commentAttempts := Some (?a + 1)\<rparr>"]) simp
  moreover have "\<exists>m. n_id m = n_id n \<and> holds t m bound (patch_notice task n (\<lambda>n. n\<lparr>n_commentDelivered := True\<rparr>) w2)"
    if "\<not> ?a \<ge> MAX_EXHAUSTED_COMMENT_ATTEMPTS"
    using delivered [OF posted [OF that]] post by simp
  ultimately show ?thesis
    using assms(1) delivered [OF assms(1) refl] post by (auto simp: deliverExhaustedComment_def Let_def split: sum.split bool.split)
qed

lemma notice_comment_holds:
  assumes "holds t n bound w" "t_taskId task = t"
  shows "\<exists>m. n_id m = n_id n \<and> holds t m bound (snd (notice_comment e task n l w))"
proof -
  have h: "holds t n bound (append_event ev w')" if "holds t n bound w'" for ev w' using that by (simp add: holds_def)
  have "\<exists>m. n_id m = n_id n \<and> holds t m bound (snd (deliverExhaustedComment e task n (append_event b (append_event a w))))" for a b
    using comment_holds [OF h [OF h [OF assms(1)]] assms(2)] .
  then show ?thesis using h [OF assms(1)] assms(1) by (auto simp: notice_comment_def Let_def split: option.split)
qed

lemma deliver_within:
  assumes "holds t n bound w" "t_taskId task = t"
  shows "within_posts t (n_id n) bound (deliverFailureNotice e task n l w)"
proof -
  obtain settled w1 where c: "notice_comment e task n l w = (settled, w1)" by fastforce
  then obtain m where m: "n_id m = n_id n" "holds t m bound w1" using notice_comment_holds [OF assms, of e l] by auto
  define w2 where "w2 = (case failure_alert e task n of
      Some published \<Rightarrow> publishTaskUpdate published (t_taskId task) ''failed'' w1 | None \<Rightarrow> w1)"
  have h2: "holds t m bound w2" using m(2) by (simp add: w2_def holds_def split: option.split)
  have hold: "within_posts t (n_id n) bound w'" if "holds t m' bound w'" "n_id m' = n_id n" for w' m'
    using that by (simp add: within_posts_def holds_def)
  have "holds t (m\<lparr>n_publish := False\<rparr>) bound (patch_notice task n (\<lambda>n. n\<lparr>n_publish := False\<rparr>) w2)"
    using h2 notice_view_patch [of t w2 m task n] assms(2) m(1) by (auto simp: holds_def attempts_left_def)
  then have p: "within_posts t (n_id n) bound (patch_notice task n (\<lambda>n. n\<lparr>n_publish := False\<rparr>) w2)" by (rule hold) (simp add: m(1))
  have cl: "within_posts t (n_id n) bound (on_db (clearFailureNotice t (n_id n)) w2)"
    using h2 notice_view_clear [of t w2 m n] m(1) by (simp add: within_posts_def holds_def)
  have "deliverFailureNotice e task n l w =
      (if failure_alert e task n = Some False then w2
       else if \<not> settled then (if n_publish n then patch_notice task n (\<lambda>n. n\<lparr>n_publish := False\<rparr>) w2 else w2)
       else on_db (clearFailureNotice (t_taskId task) (n_id n)) w2)"
    by (simp only: deliverFailureNotice_def c Let_def prod.case w2_def)
  then show ?thesis using p cl hold [OF h2 m(1)] assms(2) by simp
qed

lemma redeliver_within: "within_posts t nid bound w \<Longrightarrow> within_posts t nid bound (redeliver t e w)"
proof -
  assume w: "within_posts t nid bound w"
  show ?thesis
  proof (cases "loadTask t (w_db w)"; cases "notice_view t w")
    fix task n assume task: "loadTask t (w_db w) = Some task" and n: "notice_view t w = Some n"
    then have "holds t n bound w" "n_id n = nid" using w by (auto simp: within_posts_def holds_def)
    then show ?thesis using deliver_within [of t n bound w task] loadTask_id [OF task] task n by (simp add: redeliver_def)
  qed (use w in \<open>simp_all add: redeliver_def\<close>)
qed

lemma w_comments_kept [simp]:
  "w_comments (on_db f w) = w_comments w" "w_comments (append_event ev w) = w_comments w" "w_comments (publishTaskUpdate ok u st w) = w_comments w"
  "w_comments (patch_notice task n p w) = w_comments w"
  by (simp_all add: on_db_def append_event_def publishTaskUpdate_def patch_notice_def)

lemma comment_prefix: "prefix (w_comments w) (w_comments (snd (deliverExhaustedComment e task n w)))"
  by (auto simp: deliverExhaustedComment_def post_comment_def Let_def split: sum.split bool.split)

lemma notice_comment_prefix: "prefix (w_comments w) (w_comments (snd (notice_comment e task n l w)))"
  using comment_prefix [of "append_event b (append_event a w)" e task n for a b]
  by (auto simp: notice_comment_def Let_def split: option.split)

lemma redeliver_prefix: "prefix (w_comments w) (w_comments (redeliver t e w))"
proof -
  have "w_comments (deliverFailureNotice e task n l w) = w_comments (snd (notice_comment e task n l w))" for task n l
    by (simp add: deliverFailureNotice_def Let_def split: prod.split option.split)
  then show ?thesis using notice_comment_prefix by (auto simp: redeliver_def split: option.split)
qed

interpretation follow_up: monotone_machine "redeliver t" "within_posts t nid bound" "\<lambda>w w'. prefix (w_comments w) (w_comments w')"
  for t nid bound
  by unfold_locales (auto intro: redeliver_within redeliver_prefix prefix_order.trans)

text \<open>
  C35: however often recovery repeats the follow-up of an exhausted lineage, and whatever GitHub answers, its final comment is posted at most
  five times.
\<close>

theorem exhausted_comment_posts_are_bounded:
  assumes "notice_view t w = Some n" "n_commentAttempts n = None"
  shows "posts (n_id n) (fold (redeliver t) es w) \<le> posts (n_id n) w + 5"
proof -
  have "within_posts t (n_id n) (posts (n_id n) w + 5) w"
    using assms by (simp add: within_posts_def attempts_left_def option_or_def MAX_EXHAUSTED_COMMENT_ATTEMPTS_def)
  then have "within_posts t (n_id n) (posts (n_id n) w + 5) (fold (redeliver t) es w)" by (rule follow_up.run_inv)
  then show ?thesis by (auto simp: within_posts_def split: option.splits)
qed

definition ex_exhausted :: rep_world where
  "ex_exhausted = on_db (recordSkipped ''t1'' RS_exhausted
     ((notice_fields Infra_lost (Some Skip_cap_reached))\<lparr>n_id := ''n1'', n_exhausted := True, n_publish := True\<rparr>)) ex_world"

definition ex_github_down :: rep_env where "ex_github_down = ex_env\<lparr>env_postIssueComment := Some False, env_findIssueComment := Some (Return False)\<rparr>"

lemma ex_exhausted_notice: "map_option n_id (notice_view ''t1'' ex_exhausted) = Some ''n1''"
  "map_option n_commentAttempts (notice_view ''t1'' ex_exhausted) = Some None" "posts ''n1'' ex_exhausted = 0"
  by code_simp+

theorem exhausted_comment_posts_are_bounded_witness:
  "posts ''n1'' (fold (redeliver ''t1'') (replicate 8 ex_github_down) ex_exhausted) \<le> 5"
proof -
  obtain n where "notice_view ''t1'' ex_exhausted = Some n" "n_commentAttempts n = None" "n_id n = ''n1''"
    using ex_exhausted_notice(1,2) by auto
  then show ?thesis using exhausted_comment_posts_are_bounded [of "''t1''" ex_exhausted n "replicate 8 ex_github_down"] ex_exhausted_notice(3) by simp
qed

subsection \<open>What is never replaced\<close>

lemma complete_claims:
  assumes "complete e q w = (Return out, w')" "out = Outcome_dispatched s n l \<or> out = Outcome_delivery_pending s n"
  shows "\<exists>plan. evaluate e q (w_db w) = Eligible plan \<and> bound_elsewhere q (w_db w) = None"
  using assms
  by (auto simp: complete_def recordSkip_def Let_def split: option.splits ReplacementEvaluation.splits prod.splits)

lemma exclusionFor_None:
  assumes "exclusionFor task q m = None"
  shows "t_taskType task \<noteq> Some ''goal''" "stopReasonExclusion (q_terminalReason q) = None"
    "stopReasonExclusion (t_latestTerminalReason task) = None" "t_latestState task \<noteq> Some ''cancelled''" "replay_supported task"
  using assms by (auto simp: exclusionFor_def first_some_def Let_def split: if_splits)

lemma remaining_positive:
  assumes "lineageCostCap replay = Some cap" "\<And>b. remainingBudget replay lineage = Some b \<Longrightarrow> 0 < b"
  shows "sum_list (map la_costUsd lineage) < cap"
proof -
  let ?x = "(cap - sum_list (map la_costUsd lineage)) * 1000000 + 1 / 2"
  have "remainingBudget replay lineage = Some (of_int \<lfloor>?x\<rfloor> / 1000000)" using assms(1) by (simp add: remainingBudget_def)
  from assms(2) [OF this] have "0 < \<lfloor>?x\<rfloor>" by simp
  then have "1 \<le> ?x" by linarith
  then show ?thesis by simp
qed



end
