(* ===== verification/Orphan_Replacement.thy ===== *)
theory Orphan_Replacement
  imports Reconcile_Transitions Replacement_Delivery
begin

section \<open>Where replacements come from: orphaned tasks and provider failures\<close>

text \<open>
  \<^verbatim>\<open>src/orphanReplacement.ts\<close>, \<^verbatim>\<open>src/taskReconciliationBudget.ts\<close> and
  \<^verbatim>\<open>src/jobs/providerReplacement.ts\<close>: the two callers of the replacement service. The reconciler fails a task that no queue job
  and no container runs any more; the error handler of an issue run reports a provider error. Both decide before the failure is written and
  complete the decision afterwards.

  Every call of the reconciler runs within the time budget of its pass: a \<open>fault\<close> says whether and how it is cut off. A call that is cut off
  may not have been started, or may run to its end unseen.
\<close>

definition ORPHANED_TASK_MESSAGE :: string where
  "ORPHANED_TASK_MESSAGE = ''Task was orphaned after worker restart; no BullMQ job or running task container was found''"

definition ORPHAN_FINALIZER :: string where "ORPHAN_FINALIZER = ''orphan_reconciliation''"

datatype fault_kind = Deadline_exhausted | Pass_aborted | Call_failed
datatype fault = No_fault | Not_started fault_kind | Unseen fault_kind

text \<open>The deadline error is thrown before the call when the budget is spent, and is the reason of the abort when it runs out later.\<close>

definition runWithinRemainingBudget :: "fault \<Rightarrow> ('w \<Rightarrow> 'a \<times> 'w) \<Rightarrow> 'w \<Rightarrow> (fault_kind + 'a) \<times> 'w" where
  "runWithinRemainingBudget f operation w =
     (case f of
        No_fault \<Rightarrow> (case operation w of (x, w1) \<Rightarrow> (Inr x, w1))
      | Not_started k \<Rightarrow> (Inl k, w)
      | Unseen k \<Rightarrow> (Inl k, snd (operation w)))"

definition deadlineWasExhausted :: "fault_kind \<Rightarrow> bool" where
  "deadlineWasExhausted k = (k = Deadline_exhausted)"

definition aborted :: "fault_kind \<Rightarrow> bool" where
  "aborted k = (k \<noteq> Call_failed)"

datatype orphan_outcome =
    Orphan_deferred
  | Orphan_handled
  | Orphan_replacement_error
  | Orphan_thrown fault_kind

record orphan_call =
  oc_env :: "nat \<Rightarrow> rep_env"
  oc_await :: fault
  oc_prepare :: fault
  oc_settle :: fault

definition orphan_request :: "string \<Rightarrow> ReplacementRequest" where
  "orphan_request t =
     \<lparr>q_taskId = t, q_cause = Infra_lost, q_terminalReason = None, q_error = Some ORPHANED_TASK_MESSAGE, q_finalizedBy = Some ORPHAN_FINALIZER\<rparr>"

text \<open>The decision that is still to be withdrawn when another writer ended the task.\<close>

definition plan_request :: "(ReplacementEvaluation \<times> ReplacementRequestRecord option) option \<Rightarrow> ReplacementRequestRecord option" where
  "plan_request plan =
     (case plan of Some (Nothing_to_decide, rq) \<Rightarrow> None | Some (ev, rq) \<Rightarrow> rq | None \<Rightarrow> None)"

definition plan_eligible :: "(ReplacementEvaluation \<times> ReplacementRequestRecord option) option \<Rightarrow> bool" where
  "plan_eligible plan = (case plan of Some (Eligible p, rq) \<Rightarrow> True | _ \<Rightarrow> False)"

text \<open>\<open>complete\<close> may reject; the rejection is a failed call.\<close>

definition settle_result :: "(fault_kind + 'a result) \<times> rep_world \<Rightarrow> orphan_outcome \<times> rep_world" where
  "settle_result r =
     (case r of
        (Inl k, w) \<Rightarrow> (if aborted k \<and> \<not> deadlineWasExhausted k then Orphan_thrown k else Orphan_replacement_error, w)
      | (Inr (Inl err), w) \<Rightarrow> (Orphan_replacement_error, w)
      | (Inr (Inr x), w) \<Rightarrow> (Orphan_handled, w))"

definition prepare_orphan ::
  "orphan_call \<Rightarrow> string \<Rightarrow> rep_world \<Rightarrow> (fault_kind + (ReplacementEvaluation \<times> ReplacementRequestRecord option) option) \<times> rep_world" where
  "prepare_orphan oc t w =
     (case runWithinRemainingBudget (oc_prepare oc) (prepare (oc_env oc 0) (orphan_request t)) w of
        (Inr plan, w1) \<Rightarrow> (Inr (Some plan), w1)
      | (Inl k, w1) \<Rightarrow> (if deadlineWasExhausted k \<or> aborted k then Inl k else Inr None, w1))"

definition settle_orphan ::
  "orphan_call \<Rightarrow> string \<Rightarrow> (ReplacementEvaluation \<times> ReplacementRequestRecord option) option \<Rightarrow> bool \<Rightarrow> rep_world \<Rightarrow> orphan_outcome \<times> rep_world" where
  "settle_orphan oc t plan finalized w =
     (if finalized
      then settle_result (runWithinRemainingBudget (oc_settle oc) (complete (oc_env oc 1) (orphan_request t)) w)
      else case plan_request plan of
             None \<Rightarrow> (Orphan_handled, w)
           | Some rq \<Rightarrow>
               settle_result (runWithinRemainingBudget (oc_settle oc) (\<lambda>w. case withdraw (oc_env oc 1) t rq w of (ok, w1) \<Rightarrow> (Return ok, w1)) w))"

text \<open>
  The failure that is written, with the mark that a replacement is pending when one was decided. \<open>finalize\<close> writes it and says whether this pass
  moved the task to it, or fails. It may use more of the world than the service, the \<open>'x\<close>. Without a replacement handler only the failure is written.
\<close>

definition orphan_transition :: "bool \<Rightarrow> PersistedTaskTerminalTransition" where
  "orphan_transition eligible =
     (let transition = failedTaskTransition ORPHANED_TASK_MESSAGE ORPHAN_FINALIZER
      in if eligible then transition\<lparr>pt_metadata := js_spread (pt_metadata transition) [(''replacement'', JStr ''pending'')]\<rparr> else transition)"

definition on_service :: "(rep_world \<Rightarrow> 'a \<times> rep_world) \<Rightarrow> rep_world \<times> 'x \<Rightarrow> 'a \<times> (rep_world \<times> 'x)" where
  "on_service f s = (case f (fst s) of (r, w) \<Rightarrow> (r, (w, snd s)))"

definition finalizeOrphan ::
  "bool \<Rightarrow> orphan_call \<Rightarrow> (PersistedTaskTerminalTransition \<Rightarrow> rep_world \<times> 'x \<Rightarrow> (fault_kind + bool) \<times> (rep_world \<times> 'x))
     \<Rightarrow> string \<Rightarrow> rep_world \<times> 'x \<Rightarrow> orphan_outcome \<times> (rep_world \<times> 'x)" where
  "finalizeOrphan handler oc finalize t s =
     (if \<not> handler
      then (case finalize (orphan_transition False) s of
              (Inl k, s1) \<Rightarrow> (Orphan_thrown k, s1)
            | (Inr finalized, s1) \<Rightarrow> (Orphan_handled, s1))
      else case on_service (runWithinRemainingBudget (oc_await oc) (\<lambda>w. (awaitingDelivery t (w_db w), w))) s of
             (Inl k, s1) \<Rightarrow> (Orphan_thrown k, s1)
           | (Inr True, s1) \<Rightarrow> (Orphan_deferred, s1)
           | (Inr False, s1) \<Rightarrow>
               (case on_service (prepare_orphan oc t) s1 of
                  (Inl k, s2) \<Rightarrow> (Orphan_thrown k, s2)
                | (Inr plan, s2) \<Rightarrow>
                    (case finalize (orphan_transition (plan_eligible plan)) s2 of
                       (Inl k, s3) \<Rightarrow> (Orphan_thrown k, s3)
                     | (Inr finalized, s3) \<Rightarrow> on_service (settle_orphan oc t plan finalized) s3)))"

subsection \<open>Provider failures\<close>

record ProviderFailure =
  pf_taskId :: "string option"
  pf_error :: run_error
  pf_fromAgentExecution :: bool
  pf_terminationReason :: "string option"
  pf_terminalReason :: "string option"

definition replaceable_failure :: "ProviderFailure \<Rightarrow> bool" where
  "replaceable_failure f = (pf_fromAgentExecution f \<and> isTransientProviderError (pf_error f) (pf_terminationReason f))"

definition provider_request :: "ProviderFailure \<Rightarrow> string \<Rightarrow> string option \<Rightarrow> ReplacementRequest" where
  "provider_request f t err =
     \<lparr>q_taskId = t, q_cause = Provider_transient, q_terminalReason = pf_terminalReason f, q_error = err, q_finalizedBy = None\<rparr>"

definition markCurrentFailed :: "LineageAttempt list \<Rightarrow> string \<Rightarrow> LineageAttempt list" where
  "markCurrentFailed lineage t = map (\<lambda>a. if la_taskId a = t then a\<lparr>la_state := Some ''failed''\<rparr> else a) lineage"

text \<open>The section of the failure comment: a retry notice, the attempts of the lineage, or nothing. Its wording is left out.\<close>

datatype comment_section = No_section | Retry_notice nat nat | Attempts "LineageAttempt list"

definition attempts_section :: "LineageAttempt list \<Rightarrow> string \<Rightarrow> comment_section" where
  "attempts_section lineage t = (if length lineage > 1 then Attempts (markCurrentFailed lineage t) else No_section)"

definition prepareProviderReplacement :: "rep_env \<Rightarrow> ProviderFailure \<Rightarrow> rep_world \<Rightarrow> comment_section \<times> rep_world" where
  "prepareProviderReplacement e f w =
     (case nonempty (pf_taskId f) of
        None \<Rightarrow> (No_section, w)
      | Some t \<Rightarrow>
          (if replaceable_failure f
           then (case prepare e (provider_request f t None) w of
                   ((Eligible plan, rq), w1) \<Rightarrow> (Retry_notice (e_attemptNumber plan) (e_maxReplacements plan), w1)
                 | ((Ineligible reason task lineage m, rq), w1) \<Rightarrow> (attempts_section lineage t, w1)
                 | ((Nothing_to_decide, rq), w1) \<Rightarrow> (attempts_section [] t, w1))
           else (attempts_section (lineage_of t (w_db w)) t, w)))"

definition failureText :: "run_error \<Rightarrow> string" where
  "failureText e = (case e of Error_text s \<Rightarrow> s | Error_object m _ _ _ \<Rightarrow> option_or m [] | Error_other \<Rightarrow> [])"

definition completeProviderReplacement :: "rep_env \<Rightarrow> ProviderFailure \<Rightarrow> rep_world \<Rightarrow> rep_world" where
  "completeProviderReplacement e f w =
     (case nonempty (pf_taskId f) of
        None \<Rightarrow> w
      | Some t \<Rightarrow> (if replaceable_failure f then snd (complete e (provider_request f t (Some (failureText (pf_error f)))) w) else w))"

subsection \<open>The callers only take steps of the service\<close>

definition takes_steps :: "(rep_world \<Rightarrow> 'a \<times> rep_world) \<Rightarrow> bool" where
  "takes_steps f = (\<forall>w. service_step\<^sup>*\<^sup>* w (snd (f w)))"

lemma takes_steps_service: "takes_steps (prepare e q)" "takes_steps (complete e q)" "takes_steps (withdraw e u rq)"
  unfolding takes_steps_def by (blast intro: r_into_rtranclp service_step.intros)+

lemma takes_steps_budget: "takes_steps f \<Longrightarrow> takes_steps (runWithinRemainingBudget c f)"
  by (auto simp: takes_steps_def runWithinRemainingBudget_def split: fault.split prod.split) (metis snd_conv)

lemma takes_stepsD: "takes_steps f \<Longrightarrow> f w = (x, w') \<Longrightarrow> service_step\<^sup>*\<^sup>* w w'"
  by (metis snd_conv takes_steps_def)

lemma takes_steps_prepare: "takes_steps (prepare_orphan oc t)"
  unfolding takes_steps_def prepare_orphan_def
  using takes_steps_budget [OF takes_steps_service(1), of "oc_prepare oc" "oc_env oc 0" "orphan_request t"]
  by (auto split: prod.split sum.split dest: takes_stepsD)

lemma snd_settle_result: "snd (settle_result r) = snd r"
  by (auto simp: settle_result_def split: prod.split sum.split)

lemma takes_steps_settle: "takes_steps (settle_orphan oc t plan finalized)"
proof -
  have "takes_steps (\<lambda>w. case withdraw (oc_env oc 1) t rq w of (ok, w1) \<Rightarrow> (Return ok :: bool result, w1))" for rq
    using takes_steps_service(3) [of "oc_env oc 1" t rq] by (simp add: takes_steps_def snd_case_pair)
  from takes_steps_budget [OF this] takes_steps_budget [OF takes_steps_service(2)]
  show ?thesis by (auto simp: takes_steps_def settle_orphan_def snd_settle_result split: option.split)
qed

lemma on_service_eq: "on_service f s = (r, s') \<longleftrightarrow> f (fst s) = (r, fst s') \<and> snd s' = snd s"
  by (cases s') (auto simp: on_service_def split: prod.split)

lemma finalizeOrphan_steps:
  assumes fin: "\<And>tr s. service_step\<^sup>*\<^sup>* (fst s) (fst (snd (finalize tr s)))"
  shows "service_step\<^sup>*\<^sup>* (fst s) (fst (snd (finalizeOrphan handler oc finalize t s)))"
proof -
  obtain r1 where await: "on_service (runWithinRemainingBudget (oc_await oc) (\<lambda>w. (awaitingDelivery t (w_db w), w))) s = (r1, s)"
    by (cases "oc_await oc") (auto simp: on_service_eq runWithinRemainingBudget_def)
  obtain r2 s2 where prep: "on_service (prepare_orphan oc t) s = (r2, s2)" by (metis surj_pair)
  have s2: "service_step\<^sup>*\<^sup>* (fst s) (fst s2)" using takes_stepsD [OF takes_steps_prepare] prep by (auto simp: on_service_eq)
  have fin2: "service_step\<^sup>*\<^sup>* (fst s) (fst s3)" if "finalize tr s2 = (b, s3)" for tr b s3
    using s2 fin [of s2 tr] that by simp
  have settle: "service_step\<^sup>*\<^sup>* (fst s) (fst (snd (on_service (settle_orphan oc t plan b) s3)))" if "finalize tr s2 = (r, s3)" for plan b tr r s3
  proof -
    have "service_step\<^sup>*\<^sup>* (fst s3) (snd (settle_orphan oc t plan b (fst s3)))" using takes_steps_settle by (simp add: takes_steps_def)
    then show ?thesis using fin2 [OF that] by (auto simp: on_service_def split: prod.split)
  qed
  show ?thesis
    using fin [of s "orphan_transition False"] s2 fin2 settle
    by (auto simp: finalizeOrphan_def await prep split: sum.split bool.split prod.split)
qed

lemma providerReplacement_steps:
  "service_step\<^sup>*\<^sup>* w (snd (prepareProviderReplacement e f w))" "service_step\<^sup>*\<^sup>* w (completeProviderReplacement e f w)"
  using takes_steps_service [of e]
  by (auto simp: prepareProviderReplacement_def completeProviderReplacement_def takes_steps_def
      split: option.split prod.split ReplacementEvaluation.split) (metis snd_conv)+

subsection \<open>An undelivered replacement is left to recovery\<close>

lemma owed_awaits:
  assumes "owed t d w" "find_task (d_replacementTaskId d) (w_db w) = Some r" "replaces_task_id r = Some t" "t \<noteq> []"
  shows "awaitingDelivery (d_replacementTaskId d) (w_db w)"
proof -
  let ?s = "d_replacementTaskId d"
  obtain rq where v: "claim_view t (w_db w) = Some (Some ?s, Some RS_pending, Some rq)" "rq_dispatch rq = Some d" "?s \<noteq> []"
    using assms(1) by (auto simp: owed_def claimed_def)
  obtain q where "find_task t (w_db w) = Some q" "replaced_by_task_id q = Some ?s" "replacement_state q = Some RS_pending"
    "replacement_request q = Some rq" using claim_view_row [OF v(1)] by blast
  then show ?thesis using assms(2-4) v(2,3) by (simp add: awaitingDelivery_def loadTask_def taskFromRow_def text_column_def)
qed

lemma created_row:
  assumes run: "createReplacement i db = (Return True, db')" and t: "cr_replacementTaskId i \<noteq> t_taskId (cr_original i)"
  shows "find_task (cr_replacementTaskId i) db' = Some (replacement_row i)"
proof -
  let ?s = "cr_replacementTaskId i" and ?db2 = "free_job_id i (snd (claim_slot i db))"
  let ?db3 = "?db2\<lparr>db_tasks := db_tasks ?db2 @ [replacement_row i], db_history := db_history ?db2 @ [replacement_history i]\<rparr>"
  have fresh: "\<not> (\<exists>r \<in> set (db_tasks ?db2). task_id r = ?s)" and db': "db' = stamp_root i ?db3"
    using run by (auto simp: createReplacement_def Let_def split: prod.splits if_splits)
  have "find (\<lambda>r. task_id r = ?s) (db_tasks ?db2) = None" using fresh by (auto simp: find_None_iff)
  moreover have "task_id (replacement_row i) = ?s" by (simp add: replacement_row_def Let_def)
  ultimately have found: "find_task ?s ?db3 = Some (replacement_row i)" by (simp add: find_task_def find_append)
  have k: "keeps_id (\<lambda>r. r\<lparr>lineage_root_task_id := Some (t_lineageRootTaskId (cr_original i))\<rparr>)" by (simp add: keeps_id_def)
  show ?thesis
    unfolding db' stamp_root_def find_task_update [OF k] using found t by (simp add: replacement_row_def Let_def)
qed

lemma pending_dispatch:
  assumes "dispatch e plan q w = (Return (Outcome_delivery_pending s n), w')" "distinct_ids (w_db w)" "fresh_decision (e_task plan)"
  defines "i \<equiv> replacement_input e plan q"
  shows "s = cr_replacementTaskId i \<and> owed (t_taskId (e_task plan)) (dispatch_record i) w'
       \<and> (\<exists>db1. createReplacement i (w_db w) = (Return True, db1) \<and> db_tasks (w_db w') = db_tasks db1)"
proof -
  obtain db1 where run: "createReplacement i (w_db w) = (Return True, db1)"
    using assms(1) by (auto simp: dispatch_def Let_def i_def split: prod.splits sum.splits if_splits)
  let ?w1 = "w\<lparr>w_db := db1\<rparr>" and ?t = "t_taskId (e_task plan)" and ?d = "dispatch_record i"
  have owed: "owed ?t ?d ?w1" using claim_owed [OF run assms(2)] assms(3) by (simp add: replacement_input_fields i_def)
  obtain ok w2 where eq: "enqueue e (cr_jobData i) (cr_jobId i) ?w1 = (ok, w2)" by fastforce
  let ?w3 = "publishTaskUpdate False (d_replacementTaskId ?d) ''pending'' (append_event (dispatched_event (e_task plan) (q_cause q) ?d (env_now e)) w2)"
  have w': "w' = w2 \<or> w' = ?w3" and s: "s = cr_replacementTaskId i"
    using assms(1) run eq unfolding dispatch_def i_def [symmetric] Let_def
    by (auto simp: confirmDispatched_def Let_def split: if_splits option.splits)
  have f2: "frame ?t ?w1 w2" using frame_enqueue [of ?t ?w1 e "cr_jobData i" "cr_jobId i"] eq by simp
  have f3: "frame ?t ?w1 ?w3" by (rule claim_frame_trans [OF claim_frame_trans [OF f2 frame_append_event] frame_publish])
  have w2: "db_tasks (w_db w2) = db_tasks db1" using eq by (auto simp: enqueue_def)
  obtain hs where "append_event (dispatched_event (e_task plan) (q_cause q) ?d (env_now e)) w2 = on_db (\<lambda>db. db\<lparr>db_history := db_history db @ hs\<rparr>) w2"
    using append_event_world by blast
  then have "db_tasks (w_db ?w3) = db_tasks db1" using w2 by (simp add: publishTaskUpdate_def on_db_def)
  then show ?thesis using w' s run w2 frame_owed [OF f2 owed] frame_owed [OF f3 owed] by auto
qed


definition ex_orphan_call :: orphan_call where
  "ex_orphan_call = \<lparr>oc_env = (\<lambda>n. ex_env), oc_await = No_fault, oc_prepare = No_fault, oc_settle = No_fault\<rparr>"


subsection \<open>A claim on top of an undelivered notice\<close>

text \<open>
  A withdrawn decision leaves a request that holds nothing but its notice. When the next \<open>prepare\<close> fails and \<open>complete\<close> runs all the same, the claim is
  written over that request and has no \<open>requestedAt\<close>: recovery never lists it, so an unconfirmed add of its job is not repeated.
\<close>

theorem claim_over_stored_notice_is_unlisted:
  assumes "createReplacement i db = (Return True, db')" "distinct_ids db"
    and "t_replacementRequest (cr_original i) = Some (empty_request\<lparr>rq_failureNotice := Some n\<rparr>)"
  shows "\<exists>r. find_task (t_taskId (cr_original i)) db' = Some r \<and> replacement_state r = Some RS_pending \<and> pending_entry b db'' r = None"
proof -
  let ?t = "t_taskId (cr_original i)" and ?w = "\<lparr>w_db = db, w_adds = [], w_published = [], w_comments = []\<rparr>"
  let ?f = "\<lambda>r. r\<lparr>replaced_by_task_id := Some (cr_replacementTaskId i), replacement_state := Some RS_pending,
              replacement_request := Some (claim_request i)\<rparr>"
  have "fst (claim_slot i db) \<noteq> 0" using assms(1) by (auto simp: createReplacement_def split: prod.splits if_splits)
  then obtain p where p: "p \<in> set (db_tasks db)" "task_id p = ?t" "replaced_by_task_id p = None"
    by (auto simp: claim_slot_def sql_update_def filter_empty_conv)
  then obtain r where r: "find_task ?t db = Some r" by (cases "find_task ?t db") (auto simp: find_task_def find_None_iff)
  then have "p = r" using only_row assms(2) p by blast
  have k: "keeps_id ?f" by (simp add: keeps_id_def)
  have "claim_view ?t (snd (claim_slot i db)) = Some (Some (cr_replacementTaskId i), Some RS_pending, Some (claim_request i))"
    unfolding claim_slot_def claim_view_update [OF k r] using p \<open>p = r\<close> by (simp add: row_claim_def)
  then have v: "claim_view ?t db' = Some (Some (cr_replacementTaskId i), Some RS_pending, Some (claim_request i))"
    using frame_view [OF frame_after_claim [of i ?w db' ?t]] assms(1) by (simp add: on_db_def)
  moreover have "rq_requestedAt (claim_request i) = None" using assms(3) by (simp add: claim_request_def empty_request_def)
  ultimately show ?thesis using claim_view_row [OF v] by (auto simp: pending_entry_def)
qed

end
