(* ===== verification/Reconcile_Store.thy ===== *)
theory Reconcile_Store
  imports Orphan_Replacement
begin

section \<open>The reconciler's view of the tables\<close>

text \<open>
  \<^verbatim>\<open>src/persistedTaskStateStore.ts\<close>: the paged scan of tasks that may be stuck, the observations of missing tasks, and the
  conditional insert of a last transition. The key \<open>history_id\<close>, which the database hands out in increasing order, is the position of a row in
  the table \<open>task_history\<close>. The table \<open>task_reconciliation_observations\<close>, keyed by the task, is a map.
\<close>

definition RECONCILABLE_PERSISTED_TASK_STATES :: "string list" where
  "RECONCILABLE_PERSISTED_TASK_STATES = [''pending'', ''processing'', ''claude_execution'', ''post_processing'']"

record PersistedTaskStateCandidate =
  c_taskId :: string
  c_jobId :: "string option"
  c_repository :: string
  c_issueNumber :: "int option"
  c_taskType :: "string option"
  c_state :: string
  c_updatedAt :: stamp
  c_historyId :: nat

record PersistedTaskStatePage =
  pg_tasks :: "PersistedTaskStateCandidate list"
  pg_nextCursor :: string

record ObservationRow =
  ob_expected_history_id :: nat
  ob_first_missing_at :: timestamp
  ob_last_missing_at :: timestamp
  ob_observations :: nat

type_synonym observations = "string \<rightharpoonup> ObservationRow"

subsection \<open>The scan\<close>

definition history_ids :: "string \<Rightarrow> task_db \<Rightarrow> nat list" where
  "history_ids t db = filter (\<lambda>i. Replacement_Store.history_row.h_task (db_history db ! i) = t) [0..<length (db_history db)]"

definition latest_history_id :: "string \<Rightarrow> task_db \<Rightarrow> nat option" where
  "latest_history_id t db = last_opt (history_ids t db)"

text \<open>A row of the join of a task with its last transition; a task without any has none.\<close>

definition candidateFromRow :: "task_db \<Rightarrow> task_row \<Rightarrow> PersistedTaskStateCandidate option" where
  "candidateFromRow db r =
     (case latest_history_id (task_id r) db of
        None \<Rightarrow> None
      | Some i \<Rightarrow>
          (let h = db_history db ! i
           in if task_type r = Some ''goal'' \<or> Replacement_Store.history_row.h_state h \<notin> set RECONCILABLE_PERSISTED_TASK_STATES then None
              else Some \<lparr>c_taskId = task_id r, c_jobId = job_id r, c_repository = repository r, c_issueNumber = issue_number r,
                     c_taskType = task_type r, c_state = Replacement_Store.history_row.h_state h,
                     c_updatedAt = Stamp_iso (Replacement_Store.history_row.h_timestamp h), c_historyId = i\<rparr>))"

definition after_cursor :: "string \<Rightarrow> task_row \<Rightarrow> bool" where
  "after_cursor cursor r = (cursor = [] \<or> cursor = ''0'' \<or> task_id r > cursor)"

definition scanNonTerminalTasks :: "string \<Rightarrow> nat \<Rightarrow> task_db \<Rightarrow> PersistedTaskStatePage" where
  "scanNonTerminalTasks cursor count db =
     (let rows = take count (List.map_filter (candidateFromRow db) (sort_key task_id (filter (after_cursor cursor) (db_tasks db))))
      in \<lparr>pg_tasks = rows, pg_nextCursor = (if length rows < count then ''0'' else case rows of [] \<Rightarrow> ''0'' | _ \<Rightarrow> c_taskId (last rows))\<rparr>)"

subsection \<open>Observations\<close>

definition recordMissing :: "PersistedTaskStateCandidate \<Rightarrow> timestamp \<Rightarrow> observations \<Rightarrow> (nat \<times> timestamp) \<times> observations" where
  "recordMissing c observedAt obs =
     (let first = ((1, observedAt), obs(c_taskId c \<mapsto> \<lparr>ob_expected_history_id = c_historyId c, ob_first_missing_at = observedAt,
                      ob_last_missing_at = observedAt, ob_observations = 1\<rparr>))
      in case obs (c_taskId c) of
           None \<Rightarrow> first
         | Some existing \<Rightarrow>
             (if ob_expected_history_id existing = c_historyId c
              then ((ob_observations existing + 1, ob_first_missing_at existing),
                    obs(c_taskId c \<mapsto> existing\<lparr>ob_observations := ob_observations existing + 1, ob_last_missing_at := observedAt\<rparr>))
              else first))"

definition clearMissing :: "string \<Rightarrow> observations \<Rightarrow> observations" where
  "clearMissing t obs = obs(t := None)"

subsection \<open>The conditional insert\<close>

definition ownsJobAssignment :: "PersistedTaskStateCandidate \<Rightarrow> task_db \<Rightarrow> bool" where
  "ownsJobAssignment c db = (case find_task (c_taskId c) db of None \<Rightarrow> False | Some r \<Rightarrow> job_id r = c_jobId c)"

definition candidate_current :: "PersistedTaskStateCandidate \<Rightarrow> task_db \<Rightarrow> bool" where
  "candidate_current c db =
     (latest_history_id (c_taskId c) db = Some (c_historyId c)
      \<and> Replacement_Store.history_row.h_state (db_history db ! c_historyId c) = c_state c
      \<and> list_ex (\<lambda>r. task_id r = c_taskId c \<and> job_id r = c_jobId c) (db_tasks db))"

definition final_row :: "PersistedTaskStateCandidate \<Rightarrow> PersistedTaskTerminalTransition \<Rightarrow> timestamp \<Rightarrow> Replacement_Store.history_row" where
  "final_row c transition ts =
     \<lparr>h_task = c_taskId c, h_state = show_state (pt_state transition), h_timestamp = ts, h_reason = pt_reason transition,
      h_metadata = Some (js_spread (pt_metadata transition)
        [(''previousState'', JStr (c_state c)), (''expectedHistoryId'', JNum (Fin (of_nat (c_historyId c))))])\<rparr>"

definition add_history :: "Replacement_Store.history_row \<Rightarrow> rep_world \<Rightarrow> rep_world" where
  "add_history h w = on_db (\<lambda>db. db\<lparr>db_history := db_history db @ [h]\<rparr>) w"

text \<open>The publisher may reject; the row is written all the same.\<close>

definition finalizeIfCurrent ::
  "bool result \<Rightarrow> PersistedTaskStateCandidate \<Rightarrow> PersistedTaskTerminalTransition \<Rightarrow> timestamp \<Rightarrow> rep_world \<times> observations
     \<Rightarrow> (bool \<times> bool) result \<times> (rep_world \<times> observations)" where
  "finalizeIfCurrent publication c transition ts s =
     (if \<not> candidate_current c (w_db (fst s)) then (Return (False, False), s)
      else let w1 = add_history (final_row c transition ts) (fst s); obs1 = clearMissing (c_taskId c) (snd s)
           in case publication of
                Inl err \<Rightarrow> (Throw err, (w1, obs1))
              | Inr ok \<Rightarrow> (Return (True, ok), (publishTaskUpdate ok (c_taskId c) (show_state (pt_state transition)) w1, obs1)))"

subsection \<open>A transition is only added to the one it was decided for\<close>

lemma history_ids_append:
  "history_ids t (db\<lparr>db_history := db_history db @ [h]\<rparr>) =
     history_ids t db @ (if Replacement_Store.history_row.h_task h = t then [length (db_history db)] else [])"
proof -
  have "filter (\<lambda>i. Replacement_Store.history_row.h_task ((db_history db @ [h]) ! i) = t) [0..<length (db_history db)] = history_ids t db"
    unfolding history_ids_def by (rule filter_cong) (auto simp: nth_append)
  then show ?thesis by (simp add: history_ids_def)
qed

lemma latest_after_insert:
  "Replacement_Store.history_row.h_task h = t \<Longrightarrow> latest_history_id t (w_db (add_history h w)) = Some (length (db_history (w_db w)))"
  by (simp add: latest_history_id_def add_history_def on_db_def history_ids_append last_opt_def)

lemma history_ids_bound: "i \<in> set (history_ids t db) \<Longrightarrow> i < length (db_history db) \<and> Replacement_Store.history_row.h_task (db_history db ! i) = t"
  by (auto simp: history_ids_def)

lemma latest_history_bound:
  assumes "latest_history_id t db = Some i"
  shows "i < length (db_history db) \<and> Replacement_Store.history_row.h_task (db_history db ! i) = t"
proof -
  have "i \<in> set (history_ids t db)" using assms by (auto simp: latest_history_id_def last_opt_def split: if_splits)
  then show ?thesis by (rule history_ids_bound)
qed

lemma finalized_once:
  assumes "finalizeIfCurrent p c tr ts s = (r, s1)" "candidate_current c (w_db (fst s))"
  shows "\<not> candidate_current c (w_db (fst s1))"
proof -
  have "latest_history_id (c_taskId c) (w_db (fst s1)) = Some (length (db_history (w_db (fst s))))"
    using assms latest_after_insert [of "final_row c tr ts" "c_taskId c" "fst s"]
    by (auto simp: finalizeIfCurrent_def final_row_def publishTaskUpdate_def Let_def split: sum.splits)
  then show ?thesis using assms(2) latest_history_bound [of "c_taskId c" "w_db (fst s)"] by (auto simp: candidate_current_def)
qed

end
