(* ===== verification/Reconciler.thy ===== *)
theory Reconciler
  imports Reconcile_Store
begin

section \<open>The reconciliation of stuck tasks\<close>

text \<open>
  \<^verbatim>\<open>src/taskStateReconciler.ts\<close>: a pass over the tasks whose last transition is old. A task that Redis knows to be finished gets
  the lost row; one whose queue job ended gets the outcome of the job; one that has neither a job nor a container is watched, and failed as an orphan when it
  is still missing after a grace period.

  The state of a pass is the world of the replacement service, which holds the tables, together with Redis, the observations, the events and calls
  the state manager logs, and the counters of the summary. Before each call other clients may change the tables and Redis, as \<open>rx_others\<close> says; the
  observations are written by the reconciler alone. Logging is left out.
\<close>

definition DEFAULT_RECONCILIATION_STALE_MS :: int where "DEFAULT_RECONCILIATION_STALE_MS = 15 * 60 * 1000"
definition DEFAULT_RECONCILIATION_ORPHAN_GRACE_MS :: int where "DEFAULT_RECONCILIATION_ORPHAN_GRACE_MS = 60 * 1000"
definition LEGACY_UNLINKED_TASK_MIN_AGE_MS :: int where "LEGACY_UNLINKED_TASK_MIN_AGE_MS = 7 * 24 * 60 * 60 * 1000"

record ReconciliationJob =
  rj_failedReason :: "string option"
  rj_returnvalue :: jsval
  rj_state :: string

datatype TaskContainerLiveness = Running | Not_found | Unavailable

record TaskStateReconciliationSummary =
  sm_scanned :: nat
  sm_stale :: nat
  sm_live :: nat
  sm_suspected :: nat
  sm_recovered :: nat
  sm_skipped :: nat
  sm_errors :: nat

definition LIVE_JOB_STATES :: "string list" where
  "LIVE_JOB_STATES = [''active'', ''waiting'', ''delayed'', ''prioritized'', ''waiting-children'', ''paused'']"

definition taskIdIsQueueJobId :: "PersistedTaskStateCandidate \<Rightarrow> bool" where
  "taskIdIsQueueJobId c =
     (c_taskType c \<in> {Some ''pr-comment'', Some ''review'', Some ''merge_conflict''}
      \<or> prefix ''pr-comment-'' (c_taskId c) \<or> prefix ''pr-comments-'' (c_taskId c))"

text \<open>The label of a container is looked up first, the name containers had before there were labels second.\<close>

definition inspectLegacyTaskContainerLiveness :: "TaskContainerLiveness \<Rightarrow> TaskContainerLiveness \<Rightarrow> TaskContainerLiveness" where
  "inspectLegacyTaskContainerLiveness exact legacy = (if exact = Running \<or> exact = Unavailable then exact else legacy)"

subsection \<open>State and calls\<close>

record 'j rest =
  rs_redis :: "'j redis"
  rs_observations :: observations
  rs_events :: "task_event list"
  rs_settled :: "(string \<times> jsval) list"
  rs_summary :: TaskStateReconciliationSummary

type_synonym 'j pass = "rep_world \<times> 'j rest"

datatype rec_point =
  At_getTaskState | At_getJob | At_getState | At_inspect | At_clear | At_record | At_owns | At_update | At_clearUpdated | At_persist

record 'j rec_env =
  rx_manager :: "'j manager"
  rx_getJob :: "string \<Rightarrow> ReconciliationJob option"
  rx_exact :: "string \<Rightarrow> TaskContainerLiveness"
  rx_legacy :: "string \<Rightarrow> TaskContainerLiveness"
  rx_now :: timestamp
  rx_staleMs :: int
  rx_orphanGraceMs :: int
  rx_replacement :: bool
  rx_orphan :: orphan_call
  rx_dateParse :: "string \<Rightarrow> int option"
  rx_publish :: "bool result"
  rx_fault :: "rec_point \<Rightarrow> fault"
  rx_others :: "rec_point \<Rightarrow> rep_world \<times> 'j redis \<Rightarrow> rep_world \<times> 'j redis"

definition tables :: "'j pass \<Rightarrow> rep_world \<times> 'j redis" where
  "tables s = (fst s, rs_redis (snd s))"

definition interfere :: "'j rec_env \<Rightarrow> rec_point \<Rightarrow> 'j pass \<Rightarrow> 'j pass" where
  "interfere e p s = (case rx_others e p (tables s) of (w, r) \<Rightarrow> (w, (snd s)\<lparr>rs_redis := r\<rparr>))"

definition rec_call :: "'j rec_env \<Rightarrow> rec_point \<Rightarrow> ('j pass \<Rightarrow> 'a \<times> 'j pass) \<Rightarrow> 'j pass \<Rightarrow> (fault_kind + 'a) \<times> 'j pass" where
  "rec_call e p operation s = runWithinRemainingBudget (rx_fault e p) operation (interfere e p s)"

definition and_then_call ::
  "(fault_kind + 'a) \<times> 's \<Rightarrow> ('a \<Rightarrow> 's \<Rightarrow> (fault_kind + 'b) \<times> 's) \<Rightarrow> (fault_kind + 'b) \<times> 's" where
  "and_then_call r f = (case r of (Inl k, s) \<Rightarrow> (Inl k, s) | (Inr x, s) \<Rightarrow> f x s)"

text \<open>A call whose promise is rejected.\<close>

definition rejecting :: "(fault_kind + 'a result) \<times> 's \<Rightarrow> (fault_kind + 'a) \<times> 's" where
  "rejecting r = (case r of (Inl k, s) \<Rightarrow> (Inl k, s) | (Inr (Inl err), s) \<Rightarrow> (Inl Call_failed, s) | (Inr (Inr x), s) \<Rightarrow> (Inr x, s))"

definition reading :: "('j pass \<Rightarrow> 'a) \<Rightarrow> 'j pass \<Rightarrow> 'a \<times> 'j pass" where
  "reading f s = (f s, s)"

definition count :: "(TaskStateReconciliationSummary \<Rightarrow> TaskStateReconciliationSummary) \<Rightarrow> 'j pass \<Rightarrow> 'j pass" where
  "count f s = (fst s, (snd s)\<lparr>rs_summary := f (rs_summary (snd s))\<rparr>)"

definition plus_stale :: "TaskStateReconciliationSummary \<Rightarrow> TaskStateReconciliationSummary" where "plus_stale m = m\<lparr>sm_stale := sm_stale m + 1\<rparr>"
definition plus_live :: "TaskStateReconciliationSummary \<Rightarrow> TaskStateReconciliationSummary" where "plus_live m = m\<lparr>sm_live := sm_live m + 1\<rparr>"
definition plus_suspected :: "TaskStateReconciliationSummary \<Rightarrow> TaskStateReconciliationSummary" where
  "plus_suspected m = m\<lparr>sm_suspected := sm_suspected m + 1\<rparr>"
definition plus_skipped :: "TaskStateReconciliationSummary \<Rightarrow> TaskStateReconciliationSummary" where
  "plus_skipped m = m\<lparr>sm_skipped := sm_skipped m + 1\<rparr>"
definition plus_errors :: "TaskStateReconciliationSummary \<Rightarrow> TaskStateReconciliationSummary" where
  "plus_errors m = m\<lparr>sm_errors := sm_errors m + 1\<rparr>"
definition plus_recovered :: "bool \<Rightarrow> TaskStateReconciliationSummary \<Rightarrow> TaskStateReconciliationSummary" where
  "plus_recovered published m =
     m\<lparr>sm_recovered := sm_recovered m + 1, sm_errors := (if published then sm_errors m else sm_errors m + 1)\<rparr>"

subsection \<open>Finalizing a candidate\<close>

text \<open>The call of the state manager. The row it inserts, if the insert succeeds, is added to the table with its metadata.\<close>

definition transition_error :: "PersistedTaskTerminalTransition \<Rightarrow> (string \<times> string option) option" where
  "transition_error tr =
     (if pt_state tr \<noteq> Failed then None
      else case js_get (pt_metadata tr) ''error'' of
             JObj r \<Rightarrow> Some (text_field r ''message'', js_string_of (js_get r ''category''))
           | _ \<Rightarrow> None)"

definition update_metadata :: "PersistedTaskTerminalTransition \<Rightarrow> UpdateMetadata" where
  "update_metadata tr =
     no_metadata\<lparr>um_reason := Some (pt_reason tr), um_error := transition_error tr, um_historyMetadata := Some (pt_metadata tr)\<rparr>"

definition inserted_metadata :: "UpdateMetadata \<Rightarrow> TaskStateData \<Rightarrow> TaskState \<Rightarrow> json_object" where
  "inserted_metadata md state previous =
     (let known = js_spread (or_empty (um_historyMetadata md))
            (reason_metadata (ts_terminalReason state)
             @ [(''previousState'', JStr (show_state previous)), (''attempts'', JNum (Fin (of_nat (ts_attempts state))))])
      in filter (\<lambda>(k, v). k \<notin> {''error'', ''worktreeInfo'', ''claudeResult'', ''prResult'', ''commitHash''}) known
         @ (case um_error md of
              Some (m, c) \<Rightarrow> [(''error'', JObj ((''message'', JStr m) # opt_field ''category'' (map_option JStr c)))]
            | None \<Rightarrow> []))"

definition inserted_row :: "UpdateMetadata \<Rightarrow> TaskStateData \<Rightarrow> Task_State.history_row \<Rightarrow> Replacement_Store.history_row" where
  "inserted_row md state r =
     \<lparr>h_task = row_task r, h_state = show_state (row_state r), h_timestamp = row_timestamp r, h_reason = row_reason r,
      h_metadata = Some (inserted_metadata md state (option_or (row_previous r) (row_state r)))\<rparr>"

definition update_state ::
  "'j manager \<Rightarrow> string \<Rightarrow> TaskStateData \<Rightarrow> PersistedTaskTerminalTransition \<Rightarrow> 'j pass \<Rightarrow> TaskStatePublicationResult option \<times> 'j pass" where
  "update_state m t current tr s =
     (let rest = snd s; md = update_metadata tr
      in case updateTaskStateIfCurrentDetailed m t (taskStateExpectation current) (pt_state tr) md
                (world.make (rs_redis rest) [] [] (rs_events rest) (rs_settled rest)) of
           (out, v) \<Rightarrow>
             (map_option snd out,
              (case out of
                 Some (state, publication) \<Rightarrow> fold (\<lambda>r. add_history (inserted_row md state r)) (world.task_history v) (fst s)
               | None \<Rightarrow> fst s,
               rest\<lparr>rs_redis := redis v, rs_events := events v, rs_settled := settled v\<rparr>)))"

definition clear_missing :: "string \<Rightarrow> 'j pass \<Rightarrow> unit \<times> 'j pass" where
  "clear_missing t s = ((), (fst s, (snd s)\<lparr>rs_observations := clearMissing t (rs_observations (snd s))\<rparr>))"

definition finalize_persisted ::
  "'j rec_env \<Rightarrow> PersistedTaskStateCandidate \<Rightarrow> PersistedTaskTerminalTransition \<Rightarrow> 'j pass \<Rightarrow> (bool \<times> bool) result \<times> 'j pass" where
  "finalize_persisted e c tr s =
     (case finalizeIfCurrent (rx_publish e) c tr (rx_now e) (fst s, rs_observations (snd s)) of
        (r, (w, obs)) \<Rightarrow> (r, (w, (snd s)\<lparr>rs_observations := obs\<rparr>)))"

definition persist_candidate ::
  "'j rec_env \<Rightarrow> PersistedTaskStateCandidate \<Rightarrow> PersistedTaskTerminalTransition \<Rightarrow> 'j pass \<Rightarrow> (fault_kind + bool) \<times> 'j pass" where
  "persist_candidate e c tr s =
     and_then_call (rejecting (rec_call e At_persist (finalize_persisted e c tr) s))
       (\<lambda>(stateChanged, published) s1.
          if stateChanged then (Inr True, count (plus_recovered published) s1) else (Inr False, count plus_skipped s1))"

definition finalizeCandidate ::
  "'j rec_env \<Rightarrow> PersistedTaskStateCandidate \<Rightarrow> TaskStateData option \<Rightarrow> PersistedTaskTerminalTransition \<Rightarrow> 'j pass \<Rightarrow> (fault_kind + bool) \<times> 'j pass" where
  "finalizeCandidate e c current tr s =
     and_then_call (rec_call e At_owns (reading (\<lambda>s. ownsJobAssignment c (w_db (fst s)))) s)
       (\<lambda>ownsJob s1.
          if \<not> ownsJob then (Inr False, count plus_skipped s1)
          else case current of
                 None \<Rightarrow> persist_candidate e c tr s1
               | Some cur \<Rightarrow>
                   if ts_state cur \<in> set TERMINAL_TASK_STATES then persist_candidate e c tr s1
                   else and_then_call (rec_call e At_update (update_state (rx_manager e) (c_taskId c) cur tr) s1)
                          (\<lambda>updated s2. case updated of
                             None \<Rightarrow> (Inr False, count plus_skipped s2)
                           | Some publication \<Rightarrow>
                               if historyPersisted publication
                               then and_then_call (rec_call e At_clearUpdated (clear_missing (c_taskId c)) s2)
                                      (\<lambda>_ s3. (Inr True, count (plus_recovered (eventPublished publication)) s3))
                               else persist_candidate e c tr s2))"

subsection \<open>A candidate\<close>

definition still_live :: "'j rec_env \<Rightarrow> PersistedTaskStateCandidate \<Rightarrow> 'j pass \<Rightarrow> (fault_kind + unit) \<times> 'j pass" where
  "still_live e c s = and_then_call (rec_call e At_clear (clear_missing (c_taskId c)) s) (\<lambda>_ s1. (Inr (), count plus_live s1))"

definition finalize_as ::
  "'j rec_env \<Rightarrow> PersistedTaskStateCandidate \<Rightarrow> TaskStateData option \<Rightarrow> PersistedTaskTerminalTransition \<Rightarrow> 'j pass \<Rightarrow> (fault_kind + unit) \<times> 'j pass" where
  "finalize_as e c current tr s = and_then_call (finalizeCandidate e c current tr s) (\<lambda>_ s1. (Inr (), s1))"

definition reconcileQueueJob ::
  "'j rec_env \<Rightarrow> PersistedTaskStateCandidate \<Rightarrow> TaskStateData option \<Rightarrow> ReconciliationJob \<Rightarrow> 'j pass \<Rightarrow> (fault_kind + unit) \<times> 'j pass" where
  "reconcileQueueJob e c current job s =
     and_then_call (rec_call e At_getState (reading (\<lambda>_. rj_state job)) s)
       (\<lambda>jobState s1.
          if jobState \<in> set LIVE_JOB_STATES then still_live e c s1
          else if jobState = ''completed'' then finalize_as e c current (completedJobTransition (rj_returnvalue job)) s1
          else if jobState = ''failed''
          then finalize_as e c current (failedTaskTransition
                 (case nonempty (rj_failedReason job) of Some m \<Rightarrow> m | None \<Rightarrow> ''Task job failed before task finalization'')
                 ''bullmq_failed_reconciliation'') s1
          else (Inr (), count plus_skipped s1))"

definition finish_orphan :: "orphan_outcome \<times> 'j pass \<Rightarrow> (fault_kind + unit) \<times> 'j pass" where
  "finish_orphan r =
     (case r of
        (Orphan_deferred, s) \<Rightarrow> (Inr (), count plus_skipped s)
      | (Orphan_handled, s) \<Rightarrow> (Inr (), s)
      | (Orphan_replacement_error, s) \<Rightarrow> (Inr (), count plus_errors s)
      | (Orphan_thrown k, s) \<Rightarrow> (Inl k, s))"

definition record_missing :: "'j rec_env \<Rightarrow> PersistedTaskStateCandidate \<Rightarrow> 'j pass \<Rightarrow> (nat \<times> timestamp) \<times> 'j pass" where
  "record_missing e c s =
     (case recordMissing c (rx_now e) (rs_observations (snd s)) of (r, obs) \<Rightarrow> (r, (fst s, (snd s)\<lparr>rs_observations := obs\<rparr>)))"

definition unlinked_too_young :: "'j rec_env \<Rightarrow> PersistedTaskStateCandidate \<Rightarrow> bool" where
  "unlinked_too_young e c =
     (nonempty (c_jobId c) = None \<and> \<not> taskIdIsQueueJobId c
      \<and> (case taskAgeMs (rx_dateParse e) (c_updatedAt c) (rx_now e) of
           None \<Rightarrow> True
         | Some candidateAge \<Rightarrow> candidateAge < LEGACY_UNLINKED_TASK_MIN_AGE_MS))"

definition confirmed_missing :: "'j rec_env \<Rightarrow> nat \<times> timestamp \<Rightarrow> bool" where
  "confirmed_missing e observation =
     (fst observation \<ge> 2
      \<and> (case taskAgeMs (rx_dateParse e) (Stamp_iso (snd observation)) (rx_now e) of
           None \<Rightarrow> False
         | Some observationAge \<Rightarrow> observationAge \<ge> rx_orphanGraceMs e))"

definition reconcileMissingJob ::
  "'j rec_env \<Rightarrow> PersistedTaskStateCandidate \<Rightarrow> TaskStateData option \<Rightarrow> 'j pass \<Rightarrow> (fault_kind + unit) \<times> 'j pass" where
  "reconcileMissingJob e c current s =
     and_then_call
       (rec_call e At_inspect (reading (\<lambda>_. inspectLegacyTaskContainerLiveness (rx_exact e (c_taskId c)) (rx_legacy e (c_taskId c)))) s)
       (\<lambda>liveness s1. case liveness of
          Running \<Rightarrow> still_live e c s1
        | Unavailable \<Rightarrow> (Inr (), count plus_errors s1)
        | Not_found \<Rightarrow>
            if current \<noteq> None \<and> nonempty (c_jobId c) = None \<and> \<not> taskIdIsQueueJobId c then (Inr (), count plus_skipped s1)
            else if unlinked_too_young e c then (Inr (), count plus_skipped s1)
            else and_then_call (rec_call e At_record (record_missing e c) s1)
                   (\<lambda>observation s2.
                      if \<not> confirmed_missing e observation then (Inr (), count plus_suspected s2)
                      else finish_orphan
                             (finalizeOrphan (rx_replacement e) (rx_orphan e) (finalizeCandidate e c current) (c_taskId c) s2)))"

definition not_stale :: "'j rec_env \<Rightarrow> stamp \<Rightarrow> bool" where
  "not_stale e updatedAt =
     (case taskAgeMs (rx_dateParse e) updatedAt (rx_now e) of None \<Rightarrow> True | Some age \<Rightarrow> age < rx_staleMs e)"

definition redis_recent :: "'j rec_env \<Rightarrow> TaskStateData option \<Rightarrow> bool" where
  "redis_recent e current =
     (case current of
        None \<Rightarrow> False
      | Some cur \<Rightarrow>
          (case taskAgeMs (rx_dateParse e) (Stamp_iso (ts_updatedAt cur)) (rx_now e) of None \<Rightarrow> False | Some age \<Rightarrow> age < rx_staleMs e))"

definition queue_job_id :: "PersistedTaskStateCandidate \<Rightarrow> string" where
  "queue_job_id c = option_or (c_jobId c) (c_taskId c)"

definition reconcileCandidate :: "'j rec_env \<Rightarrow> PersistedTaskStateCandidate \<Rightarrow> 'j pass \<Rightarrow> (fault_kind + unit) \<times> 'j pass" where
  "reconcileCandidate e c s =
     (if not_stale e (c_updatedAt c) then (Inr (), count plus_skipped s)
      else and_then_call
             (rec_call e At_getTaskState (reading (\<lambda>s. getTaskState (rx_manager e) (c_taskId c) (rs_redis (snd s)))) (count plus_stale s))
             (\<lambda>current s1.
                if (case current of Some cur \<Rightarrow> ts_state cur \<in> set TERMINAL_TASK_STATES | None \<Rightarrow> False)
                then finalize_as e c current (redisTerminalTransition (the current)) s1
                else if redis_recent e current then still_live e c s1
                else and_then_call (rec_call e At_getJob (reading (\<lambda>_. rx_getJob e (queue_job_id c))) s1)
                       (\<lambda>job s2. case job of
                          Some j \<Rightarrow> reconcileQueueJob e c current j s2
                        | None \<Rightarrow> reconcileMissingJob e c current s2)))"

subsection \<open>A pass\<close>

definition empty_summary :: "nat \<Rightarrow> TaskStateReconciliationSummary" where
  "empty_summary n = \<lparr>sm_scanned = n, sm_stale = 0, sm_live = 0, sm_suspected = 0, sm_recovered = 0, sm_skipped = 0, sm_errors = 0\<rparr>"

text \<open>The loop; \<open>expired i\<close> says whether the deadline has passed before the candidate with that number. The result is what is left.\<close>

fun reconcile_tasks ::
  "(nat \<Rightarrow> 'j rec_env) \<Rightarrow> (nat \<Rightarrow> bool) \<Rightarrow> nat \<Rightarrow> PersistedTaskStateCandidate list \<Rightarrow> 'j pass
     \<Rightarrow> (fault_kind + PersistedTaskStateCandidate list) \<times> 'j pass" where
  "reconcile_tasks env expired i [] s = (Inr [], s)"
| "reconcile_tasks env expired i (c # cs) s =
     (if expired i then (Inr (c # cs), s)
      else case reconcileCandidate (env i) c s of
             (Inr u, s1) \<Rightarrow> reconcile_tasks env expired (Suc i) cs s1
           | (Inl k, s1) \<Rightarrow>
               (if deadlineWasExhausted k then (Inr (c # cs), s1)
                else if aborted k then (Inl k, s1)
                else reconcile_tasks env expired (Suc i) cs (count plus_errors s1)))"

record TaskStateReconciliationResult =
  rr_nextCursor :: string
  rr_backlog :: "PersistedTaskStateCandidate list"
  rr_summary :: TaskStateReconciliationSummary

definition reconcileStaleTaskStates ::
  "(nat \<Rightarrow> 'j rec_env) \<Rightarrow> (nat \<Rightarrow> bool) \<Rightarrow> fault \<Rightarrow> string \<Rightarrow> nat \<Rightarrow> PersistedTaskStateCandidate list \<Rightarrow> 'j pass
     \<Rightarrow> (fault_kind + TaskStateReconciliationResult) \<times> 'j pass" where
  "reconcileStaleTaskStates env expired scanFault cursor batchSize backlog s =
     and_then_call
       (if backlog \<noteq> [] then (Inr \<lparr>pg_tasks = backlog, pg_nextCursor = cursor\<rparr>, s)
        else runWithinRemainingBudget scanFault (reading (\<lambda>s. scanNonTerminalTasks cursor batchSize (w_db (fst s)))) s)
       (\<lambda>page s1.
          and_then_call (reconcile_tasks env expired 0 (pg_tasks page) (count (\<lambda>_. empty_summary (length (pg_tasks page))) s1))
            (\<lambda>left s2. (Inr \<lparr>rr_nextCursor = pg_nextCursor page, rr_backlog = left, rr_summary = rs_summary (snd s2)\<rparr>, s2)))"

end
