(* ===== verification/Reconcile_Safety.thy ===== *)
theory Reconcile_Safety
  imports Reconciler
begin

section \<open>What the reconciler may do to a task\<close>

text \<open>
  An interface for relations that a reconciliation step keeps, its interpretations for the orphan failures in the history, the observations and the
  steps of the replacement service, and the theorem that a task is only failed as an orphan after two sightings.
\<close>

subsection \<open>What a step keeps\<close>

text \<open>
  A relation between the state before and after a step that everything but the writes keeps, as an interface: its laws for the writes of a
  transition that is \<open>allowed\<close> give it for a whole candidate.
\<close>

lemmas interfere_simps = interfere_def tables_def

lemma observations_interfere [simp]: "rs_observations (snd (interfere e p s)) = rs_observations (snd s)"
  by (simp add: interfere_simps split: prod.split)

lemma reading_result:
  "rec_call e p (reading f) s = (Inr x, s1) \<Longrightarrow> x = f (interfere e p s) \<and> s1 = interfere e p s"
  by (auto simp: rec_call_def runWithinRemainingBudget_def reading_def split: fault.splits)

locale pass_frame =
  fixes R :: "'j pass \<Rightarrow> 'j pass \<Rightarrow> bool" and e :: "'j rec_env"
  assumes frame_self: "R s s"
    and frame_chain: "R s t \<Longrightarrow> R t u \<Longrightarrow> R s u"
    and frame_others: "R s (interfere e p s)"
    and frame_count: "R s (count f s)"
    and frame_clear: "R s (snd (clear_missing taskId s))"
begin

lemma call_frame:
  assumes "\<And>s. R s (snd (operation s))"
  shows "R s (snd (rec_call e p operation s))"
proof -
  have ran: "R s (snd (operation (interfere e p s)))" using frame_chain [OF frame_others assms] .
  obtain x s1 where "operation (interfere e p s) = (x, s1)" by (metis surj_pair)
  then show ?thesis
    using ran frame_others [of s p] by (cases "rx_fault e p") (simp_all add: rec_call_def runWithinRemainingBudget_def)
qed

lemma reading_frame: "R s (snd (rec_call e p (reading f) s))"
  by (rule call_frame) (simp add: reading_def frame_self)

lemma then_frame: "R s (snd r) \<Longrightarrow> (\<And>x s1. r = (Inr x, s1) \<Longrightarrow> R s1 (snd (f x s1))) \<Longrightarrow> R s (snd (and_then_call r f))"
  by (cases r; cases "fst r") (auto simp: and_then_call_def intro: frame_chain)

lemma live_frame: "R s (snd (still_live e c s))"
  unfolding still_live_def by (rule then_frame) (auto intro: call_frame frame_clear frame_count)

lemma rejecting_frame: "R s (snd r) \<Longrightarrow> R s (snd (rejecting r))"
  by (auto simp: rejecting_def split: prod.split sum.split)

end

locale pass_writes = pass_frame R e for R :: "'j pass \<Rightarrow> 'j pass \<Rightarrow> bool" and e :: "'j rec_env" +
  fixes allowed persistable :: "PersistedTaskTerminalTransition \<Rightarrow> bool"
  assumes frame_update: "allowed tr \<Longrightarrow> R s (snd (update_state m taskId cur tr s))"
    and frame_persist: "persistable tr \<Longrightarrow> R s (snd (finalize_persisted e c tr s))"
    and allowed_persistable: "allowed tr \<Longrightarrow> persistable tr"
    and completed_allowed: "allowed (completedJobTransition v)"
    and failed_allowed: "allowed (failedTaskTransition msg ''bullmq_failed_reconciliation'')"
    and replay_persistable: "persistable (redisTerminalTransition task)"
begin

lemma persist_frame: "persistable tr \<Longrightarrow> R s (snd (persist_candidate e c tr s))"
  unfolding persist_candidate_def
  by (rule then_frame) (auto intro: rejecting_frame call_frame frame_persist frame_count)

lemma update_frame:
  assumes "allowed tr"
  shows "R s (snd (and_then_call (rec_call e At_update (update_state (rx_manager e) (c_taskId c) cur tr) s)
          (\<lambda>updated s2. case updated of
             None \<Rightarrow> (Inr False, count plus_skipped s2)
           | Some publication \<Rightarrow>
               if historyPersisted publication
               then and_then_call (rec_call e At_clearUpdated (clear_missing (c_taskId c)) s2)
                      (\<lambda>_ s3. (Inr True, count (plus_recovered (eventPublished publication)) s3))
               else persist_candidate e c tr s2)))"
proof (rule then_frame)
  show "R s (snd (rec_call e At_update (update_state (rx_manager e) (c_taskId c) cur tr) s))"
    by (rule call_frame) (rule frame_update [OF assms])
  have "R s2 (snd (and_then_call (rec_call e At_clearUpdated (clear_missing (c_taskId c)) s2)
      (\<lambda>_ s3. (Inr True, count (plus_recovered b) s3))))" for s2 b
    by (rule then_frame) (auto intro: call_frame frame_clear frame_count)
  then show "R s2 (snd (case updated of None \<Rightarrow> (Inr False, count plus_skipped s2)
     | Some publication \<Rightarrow> if historyPersisted publication
         then and_then_call (rec_call e At_clearUpdated (clear_missing (c_taskId c)) s2)
                (\<lambda>_ s3. (Inr True, count (plus_recovered (eventPublished publication)) s3))
         else persist_candidate e c tr s2))" for updated s2
    using persist_frame [OF allowed_persistable [OF assms]] by (auto simp: frame_count split: option.split)
qed

lemma finalize_frame: "allowed tr \<Longrightarrow> R s (snd (finalizeCandidate e c current tr s))"
  unfolding finalizeCandidate_def
  by (rule then_frame) (auto simp: frame_count persist_frame allowed_persistable update_frame split: option.split intro: reading_frame)

lemma replay_frame:
  assumes "ts_state cur \<in> set TERMINAL_TASK_STATES"
  shows "R s (snd (finalize_as e c (Some cur) (redisTerminalTransition cur) s))"
proof -
  have "R s (snd (finalizeCandidate e c (Some cur) (redisTerminalTransition cur) s))"
    unfolding finalizeCandidate_def
    by (rule then_frame) (auto simp: assms frame_count persist_frame replay_persistable intro: reading_frame)
  then show ?thesis unfolding finalize_as_def by (rule then_frame) (simp add: frame_self)
qed

lemma finalize_as_frame: "allowed tr \<Longrightarrow> R s (snd (finalize_as e c current tr s))"
  unfolding finalize_as_def by (rule then_frame) (auto simp: finalize_frame frame_self)

lemma queue_frame: "R s (snd (reconcileQueueJob e c current job s))"
  unfolding reconcileQueueJob_def
  by (rule then_frame)
     (auto simp: reading_frame live_frame finalize_as_frame completed_allowed failed_allowed frame_count)

end

subsection \<open>The path of a missing task\<close>

context pass_frame
begin

lemma missing_frame:
  assumes "\<And>s. R s (snd (record_missing e c s))"
    and "\<And>s1 ob s2. rs_observations (snd s1) = rs_observations (snd s) \<Longrightarrow> record_missing e c s1 = (ob, s2)
           \<Longrightarrow> inspectLegacyTaskContainerLiveness (rx_exact e (c_taskId c)) (rx_legacy e (c_taskId c)) = Not_found \<Longrightarrow> confirmed_missing e ob
           \<Longrightarrow> R s2 (snd (finalizeOrphan (rx_replacement e) (rx_orphan e) (finalizeCandidate e c current) (c_taskId c) s2))"
  shows "R s (snd (reconcileMissingJob e c current s))"
  unfolding reconcileMissingJob_def
proof (rule then_frame [OF reading_frame], goal_cases)
  case (1 liveness s1)
  have s1: "rs_observations (snd s1) = rs_observations (snd s)"
    and l: "liveness = inspectLegacyTaskContainerLiveness (rx_exact e (c_taskId c)) (rx_legacy e (c_taskId c))"
    using reading_result [OF 1] by auto
  have fin: "R s2 (snd (finish_orphan (finalizeOrphan (rx_replacement e) (rx_orphan e) (finalizeCandidate e c current) (c_taskId c) s2)))"
    if "rec_call e At_record (record_missing e c) s1 = (Inr ob, s2)" "confirmed_missing e ob" "liveness = Not_found" for ob s2
  proof -
    have "record_missing e c (interfere e At_record s1) = (ob, s2)"
      using that(1) by (auto simp: rec_call_def runWithinRemainingBudget_def split: fault.splits prod.splits)
    from assms(2) [OF _ this] have "R s2 (snd (finalizeOrphan (rx_replacement e) (rx_orphan e) (finalizeCandidate e c current) (c_taskId c) s2))"
      using that(2,3) s1 l by simp
    then show ?thesis by (auto simp: finish_orphan_def split: prod.split orphan_outcome.split intro: frame_chain frame_count)
  qed
  have rec: "R s1 (snd (and_then_call (rec_call e At_record (record_missing e c) s1)
      (\<lambda>observation s2.
         if \<not> confirmed_missing e observation then (Inr (), count plus_suspected s2)
         else finish_orphan (finalizeOrphan (rx_replacement e) (rx_orphan e) (finalizeCandidate e c current) (c_taskId c) s2))))"
    if "liveness = Not_found"
    by (rule then_frame [OF call_frame [OF assms(1)]]) (simp add: frame_count fin that)
  show ?case
    using rec by (cases liveness) (simp_all add: live_frame frame_count)
qed

end

context pass_writes
begin

lemma candidate_frame:
  assumes "\<And>current s1. rs_observations (snd s1) = rs_observations (snd s) \<Longrightarrow> rx_getJob e (queue_job_id c) = None
      \<Longrightarrow> R s1 (snd (reconcileMissingJob e c current s1))"
  shows "R s (snd (reconcileCandidate e c s))"
proof (cases "not_stale e (c_updatedAt c)")
  case True
  then show ?thesis by (simp add: reconcileCandidate_def frame_count)
next
  case False
  let ?read = "rec_call e At_getTaskState (reading (\<lambda>s. getTaskState (rx_manager e) (c_taskId c) (rs_redis (snd s))))"
  have stale: "rs_observations (snd (count plus_stale s)) = rs_observations (snd s)" by (simp add: count_def)
  have job: "R s1 (snd (and_then_call (rec_call e At_getJob (reading (\<lambda>_. rx_getJob e (queue_job_id c))) s1)
      (\<lambda>job s2. case job of Some j \<Rightarrow> reconcileQueueJob e c current j s2 | None \<Rightarrow> reconcileMissingJob e c current s2)))"
    if "?read (count plus_stale s) = (Inr current, s1)" for current s1
  proof (rule then_frame [OF reading_frame], goal_cases)
    case (1 j s2)
    then show ?case
      using reading_result [OF 1] reading_result [OF that] stale assms queue_frame by (auto split: option.split)
  qed
  have "R (count plus_stale s) (snd (and_then_call (?read (count plus_stale s))
      (\<lambda>current s1.
         if (case current of Some cur \<Rightarrow> ts_state cur \<in> set TERMINAL_TASK_STATES | None \<Rightarrow> False)
         then finalize_as e c current (redisTerminalTransition (the current)) s1
         else if redis_recent e current then still_live e c s1
         else and_then_call (rec_call e At_getJob (reading (\<lambda>_. rx_getJob e (queue_job_id c))) s1)
                (\<lambda>job s2. case job of Some j \<Rightarrow> reconcileQueueJob e c current j s2 | None \<Rightarrow> reconcileMissingJob e c current s2))))"
    by (rule then_frame [OF reading_frame]) (auto simp: live_frame replay_frame job split: option.split)
  from frame_chain [OF frame_count this] show ?thesis using False by (simp add: reconcileCandidate_def)
qed

end

subsection \<open>Failing an orphan takes two sightings\<close>

definition orphan_failure :: "Replacement_Store.history_row \<Rightarrow> bool" where
  "orphan_failure h = (js_nullish (metadata_field h ''event'') \<and> metadata_field h ''finalizedBy'' = JStr ORPHAN_FINALIZER)"

definition orphan_failures :: "rep_world \<Rightarrow> Replacement_Store.history_row list" where
  "orphan_failures w = filter orphan_failure (db_history (w_db w))"

text \<open>Only the reconciler fails orphans: what other clients write is something else.\<close>

definition others_fail_no_orphan :: "'j rec_env \<Rightarrow> bool" where
  "others_fail_no_orphan e = (\<forall>p x. orphan_failures (fst (rx_others e p x)) = orphan_failures (fst x))"

lemma js_get_inserted:
  assumes "k \<in> {''finalizedBy'', ''expectedHistoryId''}"
  shows "js_get (inserted_metadata (update_metadata tr) st prev) k = js_get (pt_metadata tr) k"
proof -
  have drop_keys: "map_of (filter (\<lambda>(k, v). k \<notin> S) xs @ ys) k = map_of xs k" if "k \<notin> S" "map_of ys k = None" for S k and xs ys :: "(string \<times> jsval) list"
    using that by (induction xs) auto
  show ?thesis
    unfolding inserted_metadata_def Let_def js_get_def
    using assms by (subst drop_keys)
       (auto simp: map_of_js_spread update_metadata_def reason_metadata_def or_empty_def no_metadata_def split: option.split)
qed

lemma orphan_failures_add:
  "orphan_failures (add_history h w) = orphan_failures w @ (if orphan_failure h then [h] else [])"
  by (simp add: orphan_failures_def add_history_def on_db_def)

lemma orphan_failures_fold:
  "(\<And>r. \<not> orphan_failure (f r)) \<Longrightarrow> orphan_failures (fold (\<lambda>r. add_history (f r)) rs w) = orphan_failures w"
  by (induction rs arbitrary: w) (simp_all add: orphan_failures_add)

lemma orphan_failures_publish: "orphan_failures (publishTaskUpdate ok t st w) = orphan_failures w"
  by (simp add: orphan_failures_def publishTaskUpdate_def)

interpretation orphan_rows: pass_writes
  "\<lambda>s s'. others_fail_no_orphan e \<longrightarrow> orphan_failures (fst s') = orphan_failures (fst s)" e
  "\<lambda>tr. js_get (pt_metadata tr) ''finalizedBy'' \<noteq> JStr ORPHAN_FINALIZER"
  "\<lambda>tr. js_get (pt_metadata tr) ''finalizedBy'' \<noteq> JStr ORPHAN_FINALIZER" for e :: "'j rec_env"
proof (unfold_locales, goal_cases)
  case (3 s p)
  then show ?case by (simp add: others_fail_no_orphan_def interfere_simps split: prod.split) (metis fst_conv)
next
  case (6 tr s m taskId cur)
  have "\<not> orphan_failure (inserted_row (update_metadata tr) state r)" for state r
    using 6 by (simp add: orphan_failure_def inserted_row_def metadata_field_def js_get_inserted)
  then show ?case by (simp add: update_state_def Let_def orphan_failures_fold split: prod.split option.split)
next
  case (7 tr s c)
  have "\<not> orphan_failure (final_row c tr (rx_now e))"
    using 7 by (simp add: orphan_failure_def final_row_def metadata_field_def js_get_spread)
  then show ?case
    by (auto simp: finalize_persisted_def finalizeIfCurrent_def Let_def orphan_failures_add orphan_failures_publish split: prod.split sum.split)
qed (simp_all add: count_def clear_missing_def finalizer_of_completed finalizer_of_replay ORPHAN_FINALIZER_def COMPLETED_RECONCILIATION_def)

text \<open>Relations that the replacement service keeps as well.\<close>

locale pass_service = pass_writes R e allowed persistable
  for R :: "'j pass \<Rightarrow> 'j pass \<Rightarrow> bool" and e :: "'j rec_env" and allowed persistable :: "PersistedTaskTerminalTransition \<Rightarrow> bool" +
  assumes frame_prepare: "R s (snd (prepare v q (fst s)), snd s)"
    and frame_complete: "R s (snd (complete v q (fst s)), snd s)"
    and frame_withdraw: "R s (snd (withdraw v u rq (fst s)), snd s)"
    and orphan_allowed: "allowed (orphan_transition b)"
begin

lemma service_frame: "snd (on_service f s) = (snd (f (fst s)), snd s)"
  by (simp add: on_service_def split: prod.split)

lemma budget_cases: "snd (runWithinRemainingBudget fault f w) \<in> {w, snd (f w)}"
  by (auto simp: runWithinRemainingBudget_def split: fault.split prod.split)

lemma prepare_frame: "R s (snd (on_service (prepare_orphan oc t) s))"
proof -
  have "snd (prepare_orphan oc t (fst s)) \<in> {fst s, snd (prepare (oc_env oc 0) (orphan_request t) (fst s))}"
    using budget_cases [of "oc_prepare oc" "prepare (oc_env oc 0) (orphan_request t)" "fst s"]
    by (auto simp: prepare_orphan_def split: prod.split sum.split)
  then show ?thesis using frame_self [of s] frame_prepare [of s] by (auto simp: service_frame)
qed

lemma settle_frame: "R s (snd (on_service (settle_orphan oc t plan finalized) s))"
proof (cases finalized)
  case True
  then have "snd (settle_orphan oc t plan finalized (fst s)) \<in> {fst s, snd (complete (oc_env oc 1) (orphan_request t) (fst s))}"
    using budget_cases [of "oc_settle oc" "complete (oc_env oc 1) (orphan_request t)" "fst s"] by (simp add: settle_orphan_def snd_settle_result)
  then show ?thesis using frame_self [of s] frame_complete [of s] by (auto simp: service_frame)
next
  case False
  show ?thesis
  proof (cases "plan_request plan")
    case None
    then show ?thesis using False frame_self [of s] by (simp add: settle_orphan_def service_frame)
  next
    case (Some rq)
    let ?f = "\<lambda>w. case withdraw (oc_env oc 1) t rq w of (ok, w1) \<Rightarrow> (Return ok :: bool result, w1)"
    have "snd (?f (fst s)) = snd (withdraw (oc_env oc 1) t rq (fst s))" by (simp split: prod.split)
    then have "snd (settle_orphan oc t plan finalized (fst s)) \<in> {fst s, snd (withdraw (oc_env oc 1) t rq (fst s))}"
      using budget_cases [of "oc_settle oc" ?f "fst s"] False Some by (simp add: settle_orphan_def snd_settle_result)
    then show ?thesis using frame_self [of s] frame_withdraw [of s] by (auto simp: service_frame)
  qed
qed

lemma orphan_frame: "R s (snd (finalizeOrphan handler oc (finalizeCandidate e c current) t s))"
proof -
  note fin = finalize_frame [OF orphan_allowed]
  obtain r1 where r1: "on_service (runWithinRemainingBudget (oc_await oc) (\<lambda>w. (awaitingDelivery t (w_db w), w))) s = (r1, s)"
    by (cases "oc_await oc") (auto simp: on_service_eq runWithinRemainingBudget_def)
  obtain r2 s2 where r2: "on_service (prepare_orphan oc t) s = (r2, s2)" by (metis surj_pair)
  have s2: "R s s2" using prepare_frame [of s oc t] r2 by simp
  have s3: "R s s3" if "finalizeCandidate e c current (orphan_transition b) s2 = (r3, s3)" for b r3 s3
    using frame_chain [OF s2] fin [of s2 c current b] that by simp
  have s4: "R s (snd (on_service (settle_orphan oc t plan f) s3))" if "finalizeCandidate e c current (orphan_transition b) s2 = (r3, s3)" for b r3 s3 plan f
    using frame_chain [OF s3 [OF that] settle_frame] .
  show ?thesis
    using fin [of s c current False] s2 s3 s4 frame_self
    by (auto simp: finalizeOrphan_def r1 r2 split: sum.split bool.split prod.split)
qed

lemma candidate_service_frame:
  assumes "rx_getJob e (queue_job_id c) = None
      \<Longrightarrow> inspectLegacyTaskContainerLiveness (rx_exact e (c_taskId c)) (rx_legacy e (c_taskId c)) = Not_found \<Longrightarrow> (\<And>s. R s (snd (record_missing e c s)))"
  shows "R s (snd (reconcileCandidate e c s))"
proof (rule candidate_frame, goal_cases)
  case (1 current s1)
  show ?case
  proof (cases "inspectLegacyTaskContainerLiveness (rx_exact e (c_taskId c)) (rx_legacy e (c_taskId c)) = Not_found")
    case True
    then show ?thesis using 1 assms by (intro missing_frame orphan_frame) auto
  next
    case False
    show ?thesis
      unfolding reconcileMissingJob_def
    proof (rule then_frame [OF reading_frame], goal_cases)
      case (1 liveness s2)
      then have "liveness \<noteq> Not_found" using False reading_result [OF 1] by simp
      then show ?case by (cases liveness) (simp_all add: live_frame frame_count)
    qed
  qed
qed

end

definition looked_dead :: "'j rec_env \<Rightarrow> PersistedTaskStateCandidate \<Rightarrow> bool" where
  "looked_dead e c =
     (rx_getJob e (queue_job_id c) = None \<and> inspectLegacyTaskContainerLiveness (rx_exact e (c_taskId c)) (rx_legacy e (c_taskId c)) = Not_found)"

definition sighting :: "'j rec_env \<Rightarrow> PersistedTaskStateCandidate \<Rightarrow> string \<Rightarrow> nat \<Rightarrow> timestamp \<Rightarrow> bool" where
  "sighting e c t h first = (looked_dead e c \<and> c_taskId c = t \<and> c_historyId c = h \<and> rx_now e = first)"

text \<open>Every observation of the new table was there, with the same transition and the same first time, or is a new sighting.\<close>

definition observed_by :: "(string \<Rightarrow> nat \<Rightarrow> timestamp \<Rightarrow> bool) \<Rightarrow> observations \<Rightarrow> observations \<Rightarrow> bool" where
  "observed_by saw obs obs' =
     (\<forall>t ob'. obs' t = Some ob' \<longrightarrow>
        (\<exists>ob. obs t = Some ob \<and> ob_expected_history_id ob = ob_expected_history_id ob' \<and> ob_first_missing_at ob = ob_first_missing_at ob')
        \<or> saw t (ob_expected_history_id ob') (ob_first_missing_at ob'))"

lemma observed_by_self: "observed_by saw obs obs" by (auto simp: observed_by_def)

lemma observed_by_chain: "observed_by saw a b \<Longrightarrow> observed_by saw b c \<Longrightarrow> observed_by saw a c"
  unfolding observed_by_def by metis

lemma observed_by_clear: "observed_by saw obs (clearMissing t obs)"
  by (auto simp: observed_by_def clearMissing_def)

lemma observed_by_record:
  "observed_by (\<lambda>t h first. c_taskId c = t \<and> c_historyId c = h \<and> ts = first) obs (snd (recordMissing c ts obs))"
  by (auto simp: observed_by_def recordMissing_def Let_def split: option.split)

interpretation observations: pass_service
  "\<lambda>s s'. observed_by (sighting e c) (rs_observations (snd s)) (rs_observations (snd s'))" e "\<lambda>tr. True" "\<lambda>tr. True"
  for e :: "'j rec_env" and c
proof (unfold_locales, goal_cases)
  case 2
  then show ?case by (rule observed_by_chain)
next
  case (7 tr s d)
  then show ?case
    by (auto simp: finalize_persisted_def finalizeIfCurrent_def Let_def observed_by_self observed_by_clear split: prod.split sum.split)
qed (simp_all add: observed_by_self observed_by_clear count_def clear_missing_def update_state_def Let_def on_service_def split: prod.split)

text \<open>Reconciled candidates, in order, from an empty table of observations; anything else may happen in between that leaves the observations alone.\<close>

inductive reconciled :: "('j rec_env \<times> PersistedTaskStateCandidate) list \<Rightarrow> 'j pass \<Rightarrow> bool" where
  Fresh: "rs_observations (snd s) = Map.empty \<Longrightarrow> reconciled [] s"
| Reconcile: "reconciled looks s \<Longrightarrow> reconciled (looks @ [(e, c)]) (snd (reconcileCandidate e c s))"
| Elsewhere: "reconciled looks s \<Longrightarrow> rs_observations (snd s') = rs_observations (snd s) \<Longrightarrow> reconciled looks s'"

lemma record_missing_obs: "rs_observations (snd (snd (record_missing e c s))) = snd (recordMissing c (rx_now e) (rs_observations (snd s)))"
  by (simp add: record_missing_def split: prod.split)

lemma observation_was_sighted:
  "reconciled looks s \<Longrightarrow> rs_observations (snd s) t = Some ob
     \<Longrightarrow> \<exists>(e, c) \<in> set looks. sighting e c t (ob_expected_history_id ob) (ob_first_missing_at ob)"
proof (induction arbitrary: t ob rule: reconciled.induct)
  case (Reconcile looks s e c)
  have "observed_by (sighting e c) (rs_observations (snd s)) (rs_observations (snd (snd (reconcileCandidate e c s))))"
    using observed_by_record [of c "rx_now e"]
    by (intro observations.candidate_service_frame) (simp add: record_missing_obs sighting_def [abs_def] looked_dead_def)
  then show ?case using Reconcile.IH Reconcile.prems unfolding observed_by_def by fastforce
qed auto

lemma confirmed_evidence:
  assumes "recordMissing c (rx_now e) obs = (ob, obs')" "confirmed_missing e ob"
  shows "\<exists>seen. obs (c_taskId c) = Some seen \<and> ob_expected_history_id seen = c_historyId c
       \<and> ob_first_missing_at seen + rx_orphanGraceMs e \<le> rx_now e"
  using assms by (auto simp: recordMissing_def confirmed_missing_def taskAgeMs_iso Let_def split: option.splits if_splits)

text \<open>
  C6: a task is failed as an orphan only when two looks at it, at least the grace period apart, both found neither a queue job nor a container, and its
  last transition was the same both times. Other clients may change the tables and Redis between any two calls, and calls may be cut off.
\<close>

theorem orphan_needs_two_sightings:
  assumes "reconciled looks s" "others_fail_no_orphan e"
    and "orphan_failures (fst (snd (reconcileCandidate e c s))) \<noteq> orphan_failures (fst s)"
  shows "looked_dead e c
       \<and> (\<exists>e' c'. (e', c') \<in> set looks \<and> looked_dead e' c' \<and> c_taskId c' = c_taskId c \<and> c_historyId c' = c_historyId c
            \<and> rx_now e' + rx_orphanGraceMs e \<le> rx_now e)"
proof (rule ccontr)
  let ?evidence = "\<exists>e' c'. (e', c') \<in> set looks \<and> looked_dead e' c' \<and> c_taskId c' = c_taskId c \<and> c_historyId c' = c_historyId c
            \<and> rx_now e' + rx_orphanGraceMs e \<le> rx_now e"
  assume none: "\<not> (looked_dead e c \<and> ?evidence)"
  have sighted: ?evidence if "recordMissing c (rx_now e) (rs_observations (snd s)) = (ob, obs')" "confirmed_missing e ob" for ob obs'
    using confirmed_evidence [OF that] observation_was_sighted [OF assms(1)] by (fastforce simp: sighting_def)
  have "others_fail_no_orphan e \<longrightarrow> orphan_failures (fst (snd (reconcileCandidate e c s))) = orphan_failures (fst s)"
  proof (intro orphan_rows.candidate_frame orphan_rows.missing_frame, goal_cases)
    case (1 current s1 s)
    then show ?case by (simp add: record_missing_def split: prod.split)
  next
    case (2 current s1 s2 ob s3)
    have "looked_dead e c" using 2 by (simp add: looked_dead_def)
    moreover have "\<exists>obs'. recordMissing c (rx_now e) (rs_observations (snd s)) = (ob, obs')"
      using 2 by (auto simp: record_missing_def split: prod.splits)
    ultimately show ?case using none sighted 2 by blast
  qed
  then show False using assms(2,3) by simp
qed

text \<open>A task whose worker is gone, looked at five minutes apart.\<close>

definition ex_stuck :: "TaskStateData pass" where
  "ex_stuck =
     (\<lparr>w_db = \<lparr>db_tasks = [ex_row\<lparr>job_id := Some ''j1''\<rparr>],
         db_history = [\<lparr>h_task = ''t1'', h_state = ''processing'', h_timestamp = 0, h_reason = ''started'', h_metadata = None\<rparr>], db_executions = []\<rparr>,
       w_adds = [], w_published = [], w_comments = []\<rparr>,
      \<lparr>rs_redis = Map.empty, rs_observations = Map.empty, rs_events = [], rs_settled = [], rs_summary = empty_summary 0\<rparr>)"

definition ex_look :: "timestamp \<Rightarrow> TaskStateData rec_env" where
  "ex_look now =
     \<lparr>rx_manager = sample_manager, rx_getJob = (\<lambda>_. None), rx_exact = (\<lambda>_. Not_found), rx_legacy = (\<lambda>_. Not_found), rx_now = now,
      rx_staleMs = DEFAULT_RECONCILIATION_STALE_MS, rx_orphanGraceMs = DEFAULT_RECONCILIATION_ORPHAN_GRACE_MS, rx_replacement = True,
      rx_orphan = ex_orphan_call, rx_dateParse = (\<lambda>_. None), rx_publish = Return True, rx_fault = (\<lambda>_. No_fault), rx_others = (\<lambda>_ x. x)\<rparr>"

definition ex_candidate :: PersistedTaskStateCandidate where
  "ex_candidate = hd (pg_tasks (scanNonTerminalTasks ''0'' 10 (w_db (fst ex_stuck))))"

definition ex_watched :: "TaskStateData pass" where
  "ex_watched = snd (reconcileCandidate (ex_look 1200000) ex_candidate ex_stuck)"

theorem orphan_needs_two_sightings_witness:
  "orphan_failures (fst (snd (reconcileCandidate (ex_look 1500000) ex_candidate ex_watched))) \<noteq> []
   \<and> orphan_failures (fst ex_watched) = []
   \<and> looked_dead (ex_look 1500000) ex_candidate
   \<and> (\<exists>e' c'. (e', c') \<in> set [(ex_look 1200000, ex_candidate)] \<and> looked_dead e' c' \<and> c_taskId c' = ''t1'' \<and> c_historyId c' = 0
        \<and> rx_now e' + 60000 \<le> 1500000)"
proof -
  have run: "reconciled ([] @ [(ex_look 1200000, ex_candidate)]) ex_watched"
    unfolding ex_watched_def by (intro reconciled.intros) (simp add: ex_stuck_def)
  have quiet: "others_fail_no_orphan (ex_look 1500000)" by (simp add: others_fail_no_orphan_def ex_look_def)
  have failed: "orphan_failures (fst (snd (reconcileCandidate (ex_look 1500000) ex_candidate ex_watched))) \<noteq> []"
    "orphan_failures (fst ex_watched) = []" by code_simp+
  have "orphan_failures (fst (snd (reconcileCandidate (ex_look 1500000) ex_candidate ex_watched))) \<noteq> orphan_failures (fst ex_watched)"
    unfolding failed(2) by (rule failed(1))
  note orphan_needs_two_sightings [OF run quiet this]
  moreover have "c_taskId ex_candidate = ''t1''" "c_historyId ex_candidate = 0" by code_simp+
  moreover have "rx_orphanGraceMs (ex_look 1500000) = 60000" "rx_now (ex_look 1500000) = 1500000"
    by (simp_all add: ex_look_def DEFAULT_RECONCILIATION_ORPHAN_GRACE_MS_def)
  ultimately show ?thesis using failed by simp
qed

subsection \<open>Reconciliation takes steps of the replacement service\<close>

text \<open>
  When other clients only do what the service and its callers do, a reconciled candidate does no more either: what holds of every sequence of
  such steps, as that a claimed replacement is never lost, holds across passes of the reconciler.
\<close>

definition others_take_steps :: "'j rec_env \<Rightarrow> bool" where
  "others_take_steps e = (\<forall>p x. service_step\<^sup>*\<^sup>* (fst x) (fst (rx_others e p x)))"

lemma add_history_step: "service_step w (add_history h w)"
  unfolding add_history_def by (rule service_step.Transition)

lemma fold_add_history_steps: "service_step\<^sup>*\<^sup>* w (fold (\<lambda>r. add_history (f r)) rs w)"
  by (induction rs arbitrary: w) (auto intro: converse_rtranclp_into_rtranclp add_history_step)

interpretation service: pass_service
  "\<lambda>s s'. others_take_steps e \<longrightarrow> service_step\<^sup>*\<^sup>* (fst s) (fst s')" e "\<lambda>tr. True" "\<lambda>tr. True" for e :: "'j rec_env"
proof (unfold_locales, goal_cases)
  case (3 s p)
  then show ?case by (simp add: others_take_steps_def interfere_simps split: prod.split) (metis fst_conv)
next
  case (6 tr s m taskId cur)
  then show ?case by (simp add: update_state_def Let_def fold_add_history_steps split: prod.split option.split)
next
  case (7 tr s c)
  then show ?case
    by (auto simp: finalize_persisted_def finalizeIfCurrent_def Let_def split: prod.split sum.split
        intro: add_history_step rtranclp.rtrancl_into_rtrancl service_step.Announce)
next
  case (12 s v q)
  then show ?case by (auto intro: service_step.intros)
next
  case (13 s v q)
  then show ?case by (auto intro: service_step.intros)
next
  case (14 s v u rq)
  then show ?case by (auto intro: service_step.intros)
qed (auto simp: count_def clear_missing_def)

lemma reconciliation_keeps_claims:
  assumes "others_take_steps e" "accounted t d (fst s)"
  shows "accounted t d (fst (snd (reconcileCandidate e c s)))"
proof -
  have "others_take_steps e \<longrightarrow> service_step\<^sup>*\<^sup>* (fst s) (fst (snd (reconcileCandidate e c s)))"
    by (intro service.candidate_service_frame) (simp add: record_missing_def split: prod.split)
  then have "service_step\<^sup>*\<^sup>* (fst s) (fst (snd (reconcileCandidate e c s)))" using assms(1) by blast
  then show ?thesis by (induction rule: rtranclp_induct) (use assms(2) service_step_accounted in auto)
qed

end
