(* ===== verification/Reconcile_History.thy ===== *)
theory Reconcile_History
  imports Reconcile_Safety
begin

section \<open>A reconciled transition directly follows the one it was decided for\<close>

text \<open>
  The reconciler decides on a candidate it read earlier, in this pass or in one before. The conditional insert names the transition the decision was
  made for; the invariant says that nothing of the task came in between.
\<close>

definition expects :: "Replacement_Store.history_row \<Rightarrow> nat \<Rightarrow> bool" where
  "expects h n = (js_nullish (metadata_field h ''event'') \<and> metadata_field h ''expectedHistoryId'' = JNum (Fin (of_nat n)))"

definition directly_follows :: "Replacement_Store.history_row list \<Rightarrow> nat \<Rightarrow> nat \<Rightarrow> bool" where
  "directly_follows hs n i =
     (n < i \<and> Replacement_Store.history_row.h_task (hs ! n) = Replacement_Store.history_row.h_task (hs ! i)
      \<and> metadata_field (hs ! i) ''previousState'' = JStr (Replacement_Store.history_row.h_state (hs ! n))
      \<and> (\<forall>j. n < j \<longrightarrow> j < i \<longrightarrow> Replacement_Store.history_row.h_task (hs ! j) \<noteq> Replacement_Store.history_row.h_task (hs ! i)))"

definition in_order :: "rep_world \<Rightarrow> bool" where
  "in_order w = (\<forall>i n. i < length (db_history (w_db w)) \<longrightarrow> expects (db_history (w_db w) ! i) n \<longrightarrow> directly_follows (db_history (w_db w)) n i)"

subsection \<open>Rows of everybody else\<close>

definition plain :: "Replacement_Store.history_row \<Rightarrow> bool" where
  "plain h = (\<forall>n. \<not> expects h n)"

definition grows_plain :: "rep_world \<Rightarrow> rep_world \<Rightarrow> bool" where
  "grows_plain w w' = (\<exists>hs. db_history (w_db w') = db_history (w_db w) @ hs \<and> list_all plain hs)"

lemma grows_plain_self [intro]: "grows_plain w w"
  by (auto simp: grows_plain_def)

lemma grows_plain_chain: "grows_plain w w1 \<Longrightarrow> grows_plain w1 w2 \<Longrightarrow> grows_plain w w2"
  unfolding grows_plain_def by (elim exE conjE, rename_tac a b, rule_tac x = "a @ b" in exI) simp

lemma grows_plain_same: "db_history (w_db w') = db_history (w_db w) \<Longrightarrow> grows_plain w w'"
  by (auto simp: grows_plain_def)

lemma directly_follows_append: "i < length hs \<Longrightarrow> directly_follows (hs @ ys) n i = directly_follows hs n i"
  by (auto simp: directly_follows_def nth_append)

lemma in_order_grows:
  assumes "in_order w" "grows_plain w w'"
  shows "in_order w'"
proof -
  let ?hs = "db_history (w_db w)"
  obtain ys where ys: "db_history (w_db w') = ?hs @ ys" "list_all plain ys" using assms(2) by (auto simp: grows_plain_def)
  have "\<not> expects ((?hs @ ys) ! i) n" if "i < length (?hs @ ys)" "\<not> i < length ?hs" for i n
  proof -
    have "(?hs @ ys) ! i \<in> set ys" using that by (auto simp: nth_append)
    then show ?thesis using ys(2) by (auto simp: plain_def list_all_iff)
  qed
  then show ?thesis
    using assms(1) unfolding in_order_def ys(1) by (metis directly_follows_append nth_append)
qed

lemma history_sql_update [simp]: "db_history (snd (sql_update P f db)) = db_history db"
  by (simp add: sql_update_def)

lemma grows_append_event: "grows_plain w (append_event ev w)"
proof -
  let ?row = "\<lambda>st. \<lparr>h_task = ev_taskId ev, h_state = st, h_timestamp = ev_timestamp ev, h_reason = ev_reason ev,
     h_metadata = Some (js_spread (ev_metadata ev) [(''event'', JStr (ev_event ev))])\<rparr>"
  have "plain (?row st)" for st by (simp add: plain_def expects_def metadata_field_def js_get_spread)
  then show ?thesis by (auto simp: append_event_def appendEvent_def on_db_def grows_plain_def)
qed

lemma grows_publish: "grows_plain w (publishTaskUpdate ok t st w)"
  by (rule grows_plain_same) (simp add: publishTaskUpdate_def)

lemma grows_patch: "grows_plain w (patch_notice task notice patch w)"
  by (rule grows_plain_same) (simp add: patch_notice_def on_db_def updateFailureNotice_def)

lemma grows_clear: "grows_plain w (on_db (clearFailureNotice t i) w)"
  by (rule grows_plain_same) (simp add: on_db_def clearFailureNotice_def)

lemma grows_comment: "grows_plain w (snd (deliverExhaustedComment e task notice w))"
  by (rule grows_plain_same)
     (auto simp: deliverExhaustedComment_def post_comment_def patch_notice_def on_db_def updateFailureNotice_def Let_def
       split: sum.split bool.split prod.split)

lemma grows_notice_comment: "grows_plain w (snd (notice_comment e task notice known w))"
  by (auto simp: notice_comment_def Let_def split: option.split
      intro: grows_append_event grows_plain_chain [OF grows_plain_chain [OF grows_append_event grows_append_event] grows_comment])

lemma grows_notice: "grows_plain w (deliverFailureNotice e task notice known w)"
proof -
  obtain settled w1 where c: "notice_comment e task notice known w = (settled, w1)" by fastforce
  have w1: "grows_plain w w1" using grows_notice_comment [of w e task notice known] c by simp
  show ?thesis
    unfolding deliverFailureNotice_def c
    by (auto simp: Let_def w1 split: option.split intro: grows_plain_chain [OF w1] grows_plain_chain grows_publish grows_patch grows_clear)
qed

lemma grows_release: "grows_plain w (releaseSkipped e task st given lineage w)"
proof -
  have "grows_plain w (on_db (recordSkipped (t_taskId task) st n) w)" for n
    by (rule grows_plain_same) (simp add: on_db_def recordSkipped_def)
  then show ?thesis unfolding releaseSkipped_def Let_def using grows_notice grows_plain_chain by blast
qed

lemma grows_withdraw: "grows_plain w (snd (withdraw e t rq w))"
proof -
  let ?n = "(notice_fields (option_or (rq_cause rq) Infra_lost) None)\<lparr>n_id := env_randomId e, n_publish := True, n_recordedAt := env_now e\<rparr>"
  obtain ok db1 where run: "withdrawRequest t rq ?n (w_db w) = (ok, db1)" by fastforce
  then have "db_history db1 = db_history (w_db w)" by (auto simp: withdrawRequest_def sql_update_def)
  then have w1: "grows_plain w (w\<lparr>w_db := db1\<rparr>)" by (intro grows_plain_same) simp
  show ?thesis
    unfolding withdraw_def Let_def run using w1 grows_plain_chain [OF w1 grows_notice] by (simp split: option.split)
qed

lemma grows_prepare: "grows_plain w (snd (prepare e q w))"
  by (rule grows_plain_same)
     (auto simp: prepare_def Let_def markRequested_def sql_update_def split: ReplacementEvaluation.split)

lemma grows_confirm: "grows_plain w (snd (confirmDispatched e task c d ts st w))"
proof -
  let ?w1 = "append_event (dispatched_event task c d ts) w"
  have w1: "grows_plain w ?w1" by (rule grows_append_event)
  have set_state: "grows_plain v (on_db (setState t x) v)" for t x v by (rule grows_plain_same) (simp add: on_db_def setState_def)
  show ?thesis
    by (auto simp: confirmDispatched_def Let_def w1 split: option.split
        intro: grows_plain_chain [OF w1] grows_plain_chain [OF grows_publish set_state] grows_publish set_state)
qed

lemma createReplacement_history:
  assumes "createReplacement i db = (r, db1)"
  shows "db_history db1 = db_history db \<or> db_history db1 = db_history db @ [replacement_history i]"
proof -
  obtain n d where slot: "claim_slot i db = (n, d)" by fastforce
  have "db_history (snd (claim_slot i db)) = db_history db" by (simp add: claim_slot_def)
  then have "db_history d = db_history db" by (simp add: slot)
  then show ?thesis
    using assms by (auto simp: createReplacement_def slot stamp_root_def free_job_id_def Let_def split: if_splits)
qed

lemma grows_dispatch: "grows_plain w (snd (dispatch e plan q w))"
proof -
  let ?i = "replacement_input e plan q"
  obtain r db1 where run: "createReplacement ?i (w_db w) = (r, db1)" by fastforce
  have "plain (replacement_history ?i)"
    by (simp add: plain_def expects_def replacement_history_def metadata_field_def js_get_def)
  then have claim: "grows_plain w (w\<lparr>w_db := db1\<rparr>)" using createReplacement_history [OF run] by (auto simp: grows_plain_def)
  have enq: "grows_plain v (snd (enqueue e d j v))" for d j v by (rule grows_plain_same) (simp add: enqueue_def)
  obtain ok w2 where w2: "enqueue e (cr_jobData ?i) (cr_jobId ?i) (w\<lparr>w_db := db1\<rparr>) = (ok, w2)" by fastforce
  have w2': "grows_plain w w2" using grows_plain_chain [OF claim enq] w2 by (metis snd_conv)
  obtain ann w3 where w3: "confirmDispatched e (e_task plan) (q_cause q) (dispatch_record ?i) (env_now e) (Some ''pending'') w2 = (ann, w3)" by fastforce
  have w3': "grows_plain w w3" using grows_plain_chain [OF w2' grows_confirm] w3 by (metis snd_conv)
  show ?thesis
    unfolding dispatch_def Let_def run using claim w2' w3' by (auto simp: w2 w3 split: sum.split)
qed

lemma grows_complete: "grows_plain w (snd (complete e q w))"
  by (auto simp: complete_def withdrawUnbound_def recordSkip_def Let_def grows_dispatch grows_release grows_withdraw
      split: option.split ReplacementEvaluation.split)

subsection \<open>The invariant\<close>

definition others_append_plain :: "'j rec_env \<Rightarrow> bool" where
  "others_append_plain e = (\<forall>p x. grows_plain (fst x) (fst (rx_others e p x)))"

lemma latest_is_last:
  assumes "latest_history_id t db = Some i" "i < j" "j < length (db_history db)"
  shows "Replacement_Store.history_row.h_task (db_history db ! j) \<noteq> t"
proof
  assume "Replacement_Store.history_row.h_task (db_history db ! j) = t"
  then have j: "j \<in> set (history_ids t db)" using assms(3) by (simp add: history_ids_def)
  have "sorted (history_ids t db)" by (simp add: history_ids_def sorted_wrt_filter)
  then have "j \<le> last (history_ids t db)" using j by (metis in_set_conv_decomp last_in_set last_ConsR last_appendR list.discI sorted_append sorted_simps(2) nle_le last_ConsL)
  then show False using assms(1,2) j by (auto simp: latest_history_id_def last_opt_def split: if_splits)
qed

lemma in_order_insert:
  assumes "in_order w" "candidate_current c (w_db w)"
  shows "in_order (add_history (final_row c tr ts) w)"
proof -
  let ?hs = "db_history (w_db w)" and ?r = "final_row c tr ts"
  have latest: "latest_history_id (c_taskId c) (w_db w) = Some (c_historyId c)"
    and st: "Replacement_Store.history_row.h_state (?hs ! c_historyId c) = c_state c" using assms(2) by (auto simp: candidate_current_def)
  have "directly_follows (?hs @ [?r]) n (length ?hs)" if "expects ?r n" for n
  proof -
    have "n = c_historyId c" using that by (simp add: expects_def final_row_def metadata_field_def js_get_spread)
    then show ?thesis
      using latest_history_bound [OF latest] latest_is_last [OF latest] st
      by (auto simp: directly_follows_def nth_append final_row_def metadata_field_def js_get_spread)
  qed
  then show ?thesis
    using assms(1) by (auto simp: in_order_def add_history_def on_db_def nth_append less_Suc_eq directly_follows_append)
qed

lemma expected_of_failed: "js_get (pt_metadata (failedTaskTransition msg f)) ''expectedHistoryId'' = JUndefined"
  by (simp add: failedTaskTransition_def js_get_def)

lemma expected_of_completed: "js_get (pt_metadata (completedJobTransition v)) ''expectedHistoryId'' = JUndefined"
proof -
  have "js_get (pt_metadata (cancelledJobTransition st reason m)) ''expectedHistoryId'' = js_get m ''expectedHistoryId''" for st reason m
    by (simp add: cancelledJobTransition_def js_get_spread split: option.split)
  moreover note expected_of_failed
  moreover have "js_get [(''finalizedBy'', x), (''jobResultStatus'', y), (''jobResultReason'', z)] ''expectedHistoryId'' = JUndefined" for x y z
    by (simp add: js_get_def)
  ultimately show ?thesis
    unfolding completedJobTransition_def Let_def by (simp only: split: option.split if_split) simp
qed

lemma grows_fold: "(\<And>r. plain (f r)) \<Longrightarrow> grows_plain w (fold (\<lambda>r. add_history (f r)) rs w)"
proof (induction rs arbitrary: w)
  case (Cons r rs)
  have "grows_plain w (add_history (f r) w)" using Cons.prems by (simp add: grows_plain_def add_history_def on_db_def)
  then show ?case using Cons grows_plain_chain by simp
qed auto

interpretation history_order: pass_service
  "\<lambda>s s'. others_append_plain e \<and> in_order (fst s) \<longrightarrow> in_order (fst s')" e
  "\<lambda>tr. js_get (pt_metadata tr) ''expectedHistoryId'' = JUndefined" "\<lambda>tr. True" for e :: "'j rec_env"
proof (unfold_locales, goal_cases)
  case (3 s p)
  then show ?case
    using in_order_grows by (auto simp: others_append_plain_def interfere_simps split: prod.split) (metis fst_conv)
next
  case (6 tr s m taskId cur)
  have plain: "plain (inserted_row (update_metadata tr) state r)" for state r
    using 6 by (simp add: plain_def expects_def inserted_row_def metadata_field_def js_get_inserted)
  have "in_order (fold (\<lambda>r. add_history (inserted_row (update_metadata tr) state r)) rs (fst s))" if "in_order (fst s)" for state rs
    by (rule in_order_grows [OF that grows_fold [OF plain]])
  then show ?case by (auto simp: update_state_def Let_def split: prod.split option.split)
next
  case (7 tr s c)
  have "in_order (publishTaskUpdate ok t st w) = in_order w" for ok t st w by (simp add: in_order_def publishTaskUpdate_def)
  then show ?case
    using in_order_insert by (auto simp: finalize_persisted_def finalizeIfCurrent_def Let_def split: prod.split sum.split)
next
  case (12 s v q)
  then show ?case using in_order_grows [OF _ grows_prepare] by auto
next
  case (13 s v q)
  then show ?case using in_order_grows [OF _ grows_complete] by auto
next
  case (14 s v u rq)
  then show ?case using in_order_grows [OF _ grows_withdraw] by auto
qed (auto simp: count_def clear_missing_def expected_of_completed expected_of_failed orphan_transition_def Let_def js_get_spread)

lemma candidate_in_order:
  "others_append_plain e \<Longrightarrow> in_order (fst s) \<Longrightarrow> in_order (fst (snd (reconcileCandidate e c s)))"
  using history_order.candidate_service_frame [of e c s] by (simp add: record_missing_def split: prod.splits)

lemma tasks_in_order:
  "(\<And>i. others_append_plain (env i)) \<Longrightarrow> in_order (fst s) \<Longrightarrow> in_order (fst (snd (reconcile_tasks env expired i cs s)))"
proof (induction cs arbitrary: i s)
  case (Cons c cs)
  obtain r s1 where run: "reconcileCandidate (env i) c s = (r, s1)" by (metis surj_pair)
  have "in_order (fst s1)" using candidate_in_order [of "env i" s c] Cons.prems run by simp
  then show ?case using Cons run by (cases r) (auto simp: count_def)
qed simp


text \<open>The pass of the example inserts the failure of the orphan.\<close>

definition ex_failing :: "TaskStateData pass" where
  "ex_failing = snd (reconcileStaleTaskStates (\<lambda>_. ex_look 1500000) (\<lambda>_. False) No_fault ''0'' 10 [ex_candidate] ex_watched)"


end
