(* ===== verification/Reconcile_Sweep.thy ===== *)
theory Reconcile_Sweep
  imports Reconcile_Safety
begin

section \<open>The sweep over the stuck tasks\<close>

text \<open>
  A pass takes the candidates the last one left, or the next page of the scan, and leaves what it did not get to; the worker hands the cursor and the
  rest to the next pass. Here: a round of passes, from the first page until the cursor is back at the start with nothing left, gets through every
  task that was stuck all the time, although the tables change between the passes.
\<close>

subsection \<open>A pass handles a prefix\<close>

fun reconcile_all :: "(nat \<Rightarrow> 'j rec_env) \<Rightarrow> nat \<Rightarrow> PersistedTaskStateCandidate list \<Rightarrow> 'j pass \<Rightarrow> 'j pass" where
  "reconcile_all env i [] s = s"
| "reconcile_all env i (c # cs) s =
     reconcile_all env (Suc i) cs
       (case reconcileCandidate (env i) c s of (Inr u, s1) \<Rightarrow> s1 | (Inl k, s1) \<Rightarrow> count plus_errors s1)"

text \<open>The candidates before the rest are reconciled; the first of the rest may have been started and cut off.\<close>

lemma reconcile_tasks_prefix:
  assumes "reconcile_tasks env expired i cs s = (Inr left, s')"
  shows "\<exists>handled. cs = handled @ left
     \<and> (s' = reconcile_all env i handled s
        \<or> (\<exists>c rest. left = c # rest \<and> s' = snd (reconcileCandidate (env (i + length handled)) c (reconcile_all env i handled s))))"
  using assms
proof (induction cs arbitrary: i s)
  case (Cons c cs)
  obtain r s1 where run: "reconcileCandidate (env i) c s = (r, s1)" by (metis surj_pair)
  let ?next = "case (r, s1) of (Inr u, s1) \<Rightarrow> s1 | (Inl k, s1) \<Rightarrow> count plus_errors s1"
  consider (stop) "left = c # cs" "s' = s \<or> s' = s1"
    | (go) "reconcile_tasks env expired (Suc i) cs ?next = (Inr left, s')"
    using Cons.prems run by (cases r) (auto split: if_splits)
  then show ?case
  proof cases
    case stop
    then show ?thesis using run by (intro exI [of _ "[]"]) auto
  next
    case go
    from Cons.IH [OF go] obtain handled where h: "cs = handled @ left"
      "s' = reconcile_all env (Suc i) handled ?next
        \<or> (\<exists>d rest. left = d # rest \<and> s' = snd (reconcileCandidate (env (Suc i + length handled)) d (reconcile_all env (Suc i) handled ?next)))"
      by blast
    then show ?thesis using run by (intro exI [of _ "c # handled"]) simp
  qed
qed simp

definition page_of :: "string \<Rightarrow> nat \<Rightarrow> PersistedTaskStateCandidate list \<Rightarrow> 'j pass \<Rightarrow> PersistedTaskStateCandidate list" where
  "page_of cursor n backlog s = (if backlog \<noteq> [] then backlog else pg_tasks (scanNonTerminalTasks cursor n (w_db (fst s))))"

definition handled :: "PersistedTaskStateCandidate list \<Rightarrow> TaskStateReconciliationResult \<Rightarrow> PersistedTaskStateCandidate list" where
  "handled page r = take (length page - length (rr_backlog r)) page"

lemma pass_result:
  assumes "reconcileStaleTaskStates env expired scanFault cursor n backlog s = (Inr r, s')"
  shows "page_of cursor n backlog s = handled (page_of cursor n backlog s) r @ rr_backlog r"
    and "rr_nextCursor r = (if backlog \<noteq> [] then cursor else pg_nextCursor (scanNonTerminalTasks cursor n (w_db (fst s))))"
proof -
  let ?page = "if backlog \<noteq> [] then (Inr \<lparr>pg_tasks = backlog, pg_nextCursor = cursor\<rparr>, s)
        else runWithinRemainingBudget scanFault (reading (\<lambda>s. scanNonTerminalTasks cursor n (w_db (fst s)))) s"
  obtain p s1 where page: "?page = (Inr p, s1)"
    using assms unfolding reconcileStaleTaskStates_def by (cases ?page; cases "fst ?page") (auto simp: and_then_call_def)
  then have p: "pg_tasks p = page_of cursor n backlog s"
    "pg_nextCursor p = (if backlog \<noteq> [] then cursor else pg_nextCursor (scanNonTerminalTasks cursor n (w_db (fst s))))"
    by (auto simp: page_of_def runWithinRemainingBudget_def reading_def split: if_splits fault.splits)
  obtain left s2 where run: "reconcile_tasks env expired 0 (pg_tasks p) (count (\<lambda>_. empty_summary (length (pg_tasks p))) s1) = (Inr left, s2)"
    and r: "rr_nextCursor r = pg_nextCursor p" "rr_backlog r = left"
    using assms unfolding reconcileStaleTaskStates_def page by (auto simp: and_then_call_def split: sum.splits prod.splits)
  show "page_of cursor n backlog s = handled (page_of cursor n backlog s) r @ rr_backlog r"
    using reconcile_tasks_prefix [OF run] r p by (auto simp: handled_def)
  show "rr_nextCursor r = (if backlog \<noteq> [] then cursor else pg_nextCursor (scanNonTerminalTasks cursor n (w_db (fst s))))"
    using r p by simp
qed

subsection \<open>The scan skips nothing\<close>

definition listed :: "string \<Rightarrow> task_db \<Rightarrow> bool" where
  "listed t db = list_ex (\<lambda>r. task_id r = t \<and> candidateFromRow db r \<noteq> None) (db_tasks db)"

text \<open>The empty text and \<open>'0'\<close> stand for the start of the scan and are not identifiers of tasks.\<close>

definition proper_ids :: "task_db \<Rightarrow> bool" where
  "proper_ids db = list_all (\<lambda>r. task_id r \<noteq> [] \<and> task_id r \<noteq> ''0'') (db_tasks db)"

definition scan_rows :: "string \<Rightarrow> task_db \<Rightarrow> PersistedTaskStateCandidate list" where
  "scan_rows cursor db = List.map_filter (candidateFromRow db) (sort_key task_id (filter (after_cursor cursor) (db_tasks db)))"

lemma candidate_id: "candidateFromRow db r = Some c \<Longrightarrow> c_taskId c = task_id r"
  by (auto simp: candidateFromRow_def Let_def split: option.splits if_splits)

lemma map_filter_ids: "map c_taskId (List.map_filter (candidateFromRow db) rs) = map task_id (filter (\<lambda>r. candidateFromRow db r \<noteq> None) rs)"
  by (induction rs) (auto simp: List.map_filter_def candidate_id)

lemma scan_rows_sorted: "sorted (map c_taskId (scan_rows cursor db))"
  unfolding scan_rows_def map_filter_ids by (simp add: sorted_filter)

lemma scan_rows_has: "listed t db \<Longrightarrow> cursor = ''0'' \<or> t > cursor \<Longrightarrow> t \<in> set (map c_taskId (scan_rows cursor db))"
  unfolding scan_rows_def map_filter_ids by (auto simp: listed_def list_ex_iff after_cursor_def)

lemma scan_rows_proper: "proper_ids db \<Longrightarrow> c \<in> set (scan_rows cursor db) \<Longrightarrow> c_taskId c \<noteq> [] \<and> c_taskId c \<noteq> ''0''"
  by (auto simp: scan_rows_def proper_ids_def list_all_iff List.map_filter_def candidate_id)

lemma scan_covers:
  assumes "listed t db" "proper_ids db" "cursor = ''0'' \<or> t > cursor" "0 < n"
  defines "page \<equiv> scanNonTerminalTasks cursor n db"
  shows "t \<in> c_taskId ` set (pg_tasks page) \<or> (pg_nextCursor page \<noteq> ''0'' \<and> t > pg_nextCursor page)"
proof -
  let ?rows = "scan_rows cursor db" and ?ids = "map c_taskId (scan_rows cursor db)"
  have page: "pg_tasks page = take n ?rows"
    "pg_nextCursor page = (if length ?rows < n then ''0'' else case take n ?rows of [] \<Rightarrow> ''0'' | _ \<Rightarrow> c_taskId (last (take n ?rows)))"
    unfolding page_def scanNonTerminalTasks_def scan_rows_def Let_def by simp_all
  have t: "t \<in> set ?ids" using scan_rows_has [OF assms(1,3)] .
  show ?thesis
  proof (cases "length ?rows < n")
    case True
    then show ?thesis using t by (auto simp: page)
  next
    case False
    then have ne: "take n ?rows \<noteq> []" using assms(4) by auto
    let ?last = "last (take n ?rows)"
    have l: "?last \<in> set ?rows" using last_in_set [OF ne] set_take_subset by fast
    have cur: "pg_nextCursor page = c_taskId ?last" using False ne by (auto simp: page split: list.split)
    have "t \<in> set (take n ?ids) \<or> t \<in> set (drop n ?ids)" using t by (metis Un_iff append_take_drop_id set_append)
    then show ?thesis
    proof
      assume "t \<in> set (take n ?ids)"
      then show ?thesis by (simp add: page take_map)
    next
      assume d: "t \<in> set (drop n ?ids)"
      have "sorted (take n ?ids @ drop n ?ids)" using scan_rows_sorted [of cursor db] by simp
      then have "c_taskId ?last \<le> t" using d last_in_set [OF ne] unfolding sorted_append by (auto simp: take_map)
      then show ?thesis
        using scan_rows_proper [OF assms(2) l] imageI [OF last_in_set [OF ne], of c_taskId] cur page(1) by (cases "c_taskId ?last = t") auto
    qed
  qed
qed

subsection \<open>A round\<close>

text \<open>The result of the last pass, the candidates got through so far, and the state the last pass ended in; anything may happen before the next.\<close>

inductive sweep :: "string \<Rightarrow> nat \<Rightarrow> TaskStateReconciliationResult \<Rightarrow> PersistedTaskStateCandidate list \<Rightarrow> 'j pass \<Rightarrow> bool" where
  First_pass: "listed t (w_db (fst s)) \<Longrightarrow> proper_ids (w_db (fst s)) \<Longrightarrow> reconcileStaleTaskStates env expired scanFault ''0'' n [] s = (Inr r, s')
     \<Longrightarrow> sweep t n r (handled (page_of ''0'' n [] s) r) s'"
| Next_pass: "sweep t n r v s1 \<Longrightarrow> rr_nextCursor r \<noteq> ''0'' \<or> rr_backlog r \<noteq> []
     \<Longrightarrow> listed t (w_db (fst s)) \<Longrightarrow> proper_ids (w_db (fst s))
     \<Longrightarrow> reconcileStaleTaskStates env expired scanFault (rr_nextCursor r) n (rr_backlog r) s = (Inr r', s')
     \<Longrightarrow> sweep t n r' (v @ handled (page_of (rr_nextCursor r) n (rr_backlog r) s) r') s'"

lemma sweep_invariant:
  "sweep t n r v s1 \<Longrightarrow> 0 < n \<Longrightarrow> t \<in> c_taskId ` set v \<or> t \<in> c_taskId ` set (rr_backlog r) \<or> (rr_nextCursor r \<noteq> ''0'' \<and> t > rr_nextCursor r)"
proof (induction rule: sweep.induct)
  case (First_pass t s env expired scanFault n r s')
  note res = pass_result [OF First_pass(3)]
  have "page_of ''0'' n [] s = pg_tasks (scanNonTerminalTasks ''0'' n (w_db (fst s)))" by (simp add: page_of_def)
  then show ?case using scan_covers [OF First_pass(1,2), of "''0''" n] First_pass.prems res by (metis Un_iff image_Un set_append)
next
  case (Next_pass t n r v s1 s env expired scanFault r' s')
  note res = pass_result [OF Next_pass(5)]
  let ?page = "page_of (rr_nextCursor r) n (rr_backlog r) s"
  have page: "c_taskId ` set ?page = c_taskId ` set (handled ?page r') \<union> c_taskId ` set (rr_backlog r')"
    using res(1) by (metis image_Un set_append)
  show ?case
  proof (cases "rr_backlog r = []")
    case False
    then show ?thesis using Next_pass res(2) page by (auto simp: page_of_def)
  next
    case True
    then have "?page = pg_tasks (scanNonTerminalTasks (rr_nextCursor r) n (w_db (fst s)))" by (simp add: page_of_def)
    then show ?thesis
      using Next_pass True res(2) page scan_covers [OF Next_pass(3,4), of "rr_nextCursor r" n] by auto
  qed
qed


text \<open>The first pass runs out of time at once and leaves the task, the second one looks at it.\<close>

definition ex_out_of_time :: "TaskStateReconciliationResult" where
  "ex_out_of_time = \<lparr>rr_nextCursor = ''0'', rr_backlog = [ex_candidate], rr_summary = empty_summary 1\<rparr>"

definition ex_second :: "(fault_kind + TaskStateReconciliationResult) \<times> TaskStateData pass" where
  "ex_second = reconcileStaleTaskStates (\<lambda>_. ex_look 1200000) (\<lambda>_. False) No_fault ''0'' 10 [ex_candidate] ex_stuck"


end
