(* ===== verification/Spec2Isabelle.thy ===== *)
theory Spec2Isabelle
  imports Watchdog Cost_Guard Auto_Merge Network Cron Task_State Leases Workflow_Slots Agent_Admission Ultrafix_Resume 
    Ci_Policy Plan_Status Reconcile_History Reconcile_Sweep
begin

text \<open>
  \<^bold>\<open>ProPR: a verification development\<close>

  ProPR (\<^verbatim>\<open>integry/propr\<close>) runs coding agents on GitHub issues and pull requests. A daemon and webhooks turn GitHub events into
  jobs of a Redis queue; workers run the jobs: they start an agent in a container, watch its output, meter its cost, record the state
  of the task and publish the result. Automatic loops (Ultrafix) review and fix a pull request until it is good enough.
  Much of what makes the program correct is in its decision procedures and in the small protocols with which many
  processes share Redis and the database. This development models those parts, from the TypeScript sources under
  \<^verbatim>\<open>src/\<close>, and proves what they promise.

  \<^bold>\<open>Layout.\<close> \<open>Prelude\<close> holds JavaScript values, strings and numbers, association lists, results
  (\<open>Throw\<close>/\<open>Return\<close>) and the locale \<open>monotone_machine\<close> (runs of a step function that keep an invariant and an order). Every
  other theory is one component:

  \<^item> One agent run. \<open>Output_Activity\<close> (\<^verbatim>\<open>claude/docker/agentOutputActivity.ts\<close>: what one streamed line tells), \<open>Watchdog\<close>
    (\<^verbatim>\<open>claude/docker/agentActivityWatchdog.ts\<close>: silence and degenerate output), \<open>Cost_Cap\<close>, \<open>Usage_Tally\<close> and \<open>Cost_Guard\<close>
    (\<^verbatim>\<open>budget/runCostCap.ts\<close>, \<^verbatim>\<open>runUsageTally.ts\<close>, \<^verbatim>\<open>runCostGuard.ts\<close>: the spending limit of a run), \<open>Network\<close> (the egress policy of the
    container), \<open>Agent_Admission\<close> (\<^verbatim>\<open>agents/agentRunAdmission.ts\<close>: how many agents may exist at once).
  \<^item> Workers and tasks. \<open>Task_State\<close> (\<^verbatim>\<open>utils/workerStateManager.ts\<close> and its transitions: the state of a task, written by compare-and-set),
    \<open>Workflow_Slots\<close> (\<^verbatim>\<open>workflow/workflowConcurrency.ts\<close>: slots per repository), \<open>Leases\<close>
    (\<^verbatim>\<open>jobs/prProcessingLock.ts\<close>, \<^verbatim>\<open>jobs/followupCiSuspensionLease.ts\<close>).
  \<^item> Failures. \<open>Retry\<close> (\<^verbatim>\<open>utils/retryHandler.ts\<close>: which errors may pass, and the retry loop), \<open>Replacement_Policy\<close>
    (\<^verbatim>\<open>taskReplacement/policy.ts\<close> and the identifiers of tasks), \<open>Replacement_Store\<close> (\<^verbatim>\<open>taskReplacement/store.ts\<close>: the rows and every query and update),
    \<open>Replacement_Ledger\<close> (the abstract specification: a ledger of attempts), \<open>Task_Replacement\<close> (\<^verbatim>\<open>taskReplacement/service.ts\<close>: the decision and
    the claim, and that the tables refine the ledger), \<open>Replacement_Delivery\<close> (\<^verbatim>\<open>service.ts\<close>, \<^verbatim>\<open>delivery.ts\<close>, \<^verbatim>\<open>exhaustedComment.ts\<close>:
    dispatch, recovery and notices), \<open>Orphan_Replacement\<close> (\<^verbatim>\<open>orphanReplacement.ts\<close>, \<^verbatim>\<open>jobs/providerReplacement.ts\<close>: the callers),
    \<open>Error_Text\<close> (\<^verbatim>\<open>jobs/errorSanitizer.ts\<close>: what is kept of an error message).
  \<^item> Reconciliation. \<open>Reconcile_Transitions\<close> (\<^verbatim>\<open>taskReconciliationTransitions.ts\<close>, \<^verbatim>\<open>taskReconciliationTime.ts\<close>: the transition a job or a Redis state
    becomes), \<open>Reconcile_Store\<close> (\<^verbatim>\<open>persistedTaskStateStore.ts\<close>: scan, observations, conditional insert), \<open>Reconciler\<close>
    (\<^verbatim>\<open>taskStateReconciler.ts\<close>: a pass over the tasks that may be stuck; the state is that of the replacement service with Redis, the observations and the
    counters), and its properties in \<open>Reconcile_Safety\<close> (orphans), \<open>Reconcile_History\<close> (the order of transitions) and \<open>Reconcile_Sweep\<close> (rounds of passes).
  \<^item> Policies. \<open>Auto_Merge\<close> (\<^verbatim>\<open>workflow/autoMergePolicy.ts\<close>: protected paths and the decision to arm auto-merge), \<open>Cron\<close> (schedules),
    \<open>Ci_Policy\<close> (\<^verbatim>\<open>jobs/followupCiSuspensionPolicy.ts\<close>), \<open>Plan_Status\<close> (\<^verbatim>\<open>webhook/statusMachine.ts\<close>), \<open>Slash_Commands\<close>
    (\<^verbatim>\<open>webhook/slashCommandParser.ts\<close>).
  \<^item> Ultrafix. \<open>Ultrafix_Epoch\<close> (\<^verbatim>\<open>jobs/ultrafixAutomaticWorkEpoch.ts\<close>: the fence between manual and automatic work), \<open>Ultrafix\<close>
    (\<^verbatim>\<open>ultrafixOrchestrationService.ts\<close>, \<^verbatim>\<open>ultrafixEscalationPolicy.ts\<close>, \<^verbatim>\<open>ultrafixReadinessPolicy.ts\<close>: the loop), \<open>Ultrafix_Resume\<close>
    (\<^verbatim>\<open>ultrafixResumeClaim.ts\<close>, \<^verbatim>\<open>ultrafixDeferredClaim.ts\<close>, \<^verbatim>\<open>ultrafixFailedStep.ts\<close> and the stores: how a waiting loop is resumed).

  \<^bold>\<open>How code is modelled.\<close> An object or a set of Redis keys is a record; a method or a Lua script is one definition with the same name and
  the same branches. A script is one atomic step. A function that awaits is a sequence of such steps with what others do in between as
  an argument (\<open>env\<close>, \<open>mid\<close>, \<open>re_others\<close>, \<open>rx_others\<close>), or the steps of an interleaving that is an inductive relation or a fold over events
  (\<open>Task_State\<close>, \<open>Workflow_Slots\<close>, \<open>Agent_Admission\<close>, \<open>Watchdog\<close>, \<open>Cost_Guard\<close>, \<open>Task_Replacement\<close>). A database table is the list of its
  rows and a statement or a transaction one step; where a theory takes a whole call of a service as one step it says so. Clocks, random tokens, JSON codecs, hashes, the pricing of
  models, DNS and GitHub answers are arguments. An exception is \<open>Throw\<close>. Money and scores are rationals, where the
  program has doubles; counters and times are whole numbers. Text is made of characters below U+0100.

  \<^bold>\<open>Interfaces.\<close> The locales are \<open>monotone_machine\<close> (interpreted on the cost guard, the watchdog, the heartbeat of the PR lock and the follow-up of a skipped replacement), \<open>lease\<close> and \<open>adoptable_lease\<close>
  (interpreted on the PR lock, the suspension lease and the Ultrafix resume claim), \<open>fenced_writer\<close> (interpreted on every write of the
  Ultrafix epoch), and \<open>pass_frame\<close>, \<open>pass_writes\<close> and \<open>pass_service\<close> (a relation that the steps of the reconciler keep; interpreted on the
  orphan failures, the observations, the steps of the replacement service and the order of the history).

  \<^bold>\<open>What is proved.\<close>

  \<^item> Bounds that hold however processes interleave: running jobs never exceed any cap (\<open>running_never_exceeds_any_cap\<close>), agent containers
    never exceed the entitlement (\<open>agents_within_entitlement\<close>), a run past its cap is stopped, stays stopped and is recorded so
    (\<open>check_stops_every_live_execution\<close>, \<open>stopped_run_stays_stopped\<close>, \<open>capped_run_recorded_as_capped\<close> below).
  \<^item> Failed runs: a lineage of replacements is bounded whatever interleaves (\<open>lineage_is_bounded\<close>), a claimed replacement is delivered,
    released with its failure told, or still recorded for recovery (\<open>claimed_replacement_is_never_lost\<close>), recovery delivers once the queue answers, the
    reconciler does not fail what is still to be delivered, and a task that was stopped or cancelled is not run again
    (\<open>stopped_task_is_never_replaced\<close>).
  \<^item> Stuck tasks: a task is failed as an orphan only after two sightings with the same last transition a grace period apart
    (\<open>orphan_needs_two_sightings\<close>), what the reconciler inserts directly follows the transition it was decided for
    (\<open>reconciled_transition_follows_its_candidate\<close>), and every round of passes gets to every stuck task (\<open>sweep_reaches_every_stuck_task\<close>).
  \<^item> Concurrency control: updates of a task serialize (\<open>concurrent_updates_serialize\<close>), a fresh lock holder is not displaced,
    leases exclude each other, a takeover fences older work, an interrupted resume loses no step.
  \<^item> Termination: retries, the search for the current lock and the wait for a lease are bounded, and a started Ultrafix loop ends after at most
    \<open>6 * max 1 maxCycles\<close> step jobs whatever reviews report and whichever jobs fail.
  \<^item> Algorithms against a reference: the glob automaton accepts exactly the language of the pattern, the cron search returns the first
    matching minute, the decision about auto-merge refines a specification that fails closed.
  \<^item> Parsers and identifiers: round trips, ranges and valid task identifiers.

  \<^bold>\<open>Fuel and bounds.\<close> Loops with a bound of their own carry it (8 compare-and-set attempts, 3 passes and attempts of a resume, the days of the
  cron search). The search for the PR lock has none in the code: it takes fuel and is proved to return with enough of it, as long as
  the key settles. Every other recursive function is total.

  \<^bold>\<open>Not modelled.\<close> The web interface, the desktop application, the command line, the API routes and the launcher are glue around these parts or
  present their data; Git, Docker and GitHub calls, prompts and log formatting have effects outside the model; generated, vendored
  and documentation files carry no logic of their own. Background timers are events that may fire at any time.
\<close>

section \<open>Across the components\<close>

lemma check_triggers:
  assumes "resolvedCap g = Some cap" "capUsd cap \<le> estimate opts (normalizeRecordedSpend v) g"
  shows "triggered (check_spend opts (Inr v) g)"
  using assms
  by (auto simp: check_spend_def readRecorded_def readRecordedStrict_def Cost_Guard.evaluate_def evaluate_commit_def snapshot_def Let_def)

lemma readRecorded_task: "g_taskId (snd (readRecorded read f g)) = g_taskId g"
  by (simp add: readRecorded_def readRecordedStrict_def Let_def split: sum.split)

lemma check_spend_task [simp]: "g_taskId (check_spend opts read g) = g_taskId g"
  using readRecorded_task [of read "lastRecorded g" g]
  by (auto simp: check_spend_def Cost_Guard.evaluate_def evaluate_commit_def Let_def split_beta split: option.split)

lemma guard_step_task: "g_taskId (guard_step opts parse e g) = g_taskId g"
proof (cases e)
  case (G_finish i read read')
  then show ?thesis using readRecorded_task [of read "lastRecorded g" g]
    by (auto simp: finish_handle_def finishExecution_def Let_def split_beta split: option.split)
qed (auto simp: start_guard_def readRecordedStrict_def readRecorded_def publishCap_def setWorkflowCap_def admit_def Cost_Guard.evaluate_def
       evaluate_commit_def beginExecution_def observe_execution_def close_guard_def Let_def split_beta split: option.split sum.split)

lemma guard_run_task [simp]: "g_taskId (guard_run opts parse ops g) = g_taskId g"
  by (induction ops arbitrary: g) (simp_all add: guard_run_def guard_step_task)

lemma triggered_reason:
  assumes "activeGuard te = Some g" "triggered g" "g_taskId g = ts_taskId c" "newState \<in> {Completed, Failed}"
    and "um_terminalReason md = None" "parse_reason (js_get (or_empty (um_historyMetadata md)) ''cancellationReason'') = None"
    and "decide_op te now (Op_update newState md) c = Some s"
  shows "ts_terminalReason s = Some R_cost_cap_exceeded"
  using assms by (auto simp: build_defs resolveTerminalReason_def or_else_def runCostCapTerminalReason_def Let_def split: if_splits)

text \<open>
  C14: From the cap to the task. When a spend check of a run's guard finds the cap reached, then whatever the guard
  does afterwards, and however other clients interleave with the write, the update that ends the task without
  naming another reason records that the cost cap was exceeded.
\<close>
theorem capped_run_recorded_as_capped:
  assumes "guard_inv g" "resolvedCap g = Some cap" "capUsd cap \<le> estimate opts (normalizeRecordedSpend v) g"
    and "activeGuard (m_task_env m) = Some (guard_run opts parse ops (check_spend opts (Inr v) g))"
    and "run_op m tid (Op_update newState md) w = (Written c s, w')" "ts_taskId c = g_taskId g"
    and "newState \<in> {Completed, Failed}" "um_terminalReason md = None"
    and "parse_reason (js_get (or_empty (um_historyMetadata md)) ''cancellationReason'') = None"
  shows "ts_terminalReason s = Some R_cost_cap_exceeded"
proof -
  let ?g = "check_spend opts (Inr v) g"
  have "triggered (guard_run opts parse ops ?g)"
    using check_triggers [OF assms(2,3)] guard_run_le [OF check_spend_inv [OF assms(1)], where ops = ops and parse = parse]
    by (auto simp: guard_le_def)
  moreover obtain i where "decide_op (m_task_env m) (m_now m i) (Op_update newState md) c = Some s"
    using assms(5) cas_loop_written by (force simp: run_op_def split: prod.splits)
  moreover have "g_taskId (guard_run opts parse ops ?g) = ts_taskId c" by (simp add: assms(6))
  ultimately show ?thesis using triggered_reason [OF assms(4) _ _ assms(7-9)] by blast
qed

theorem capped_run_recorded_as_capped_witness:
  "\<exists>s w'. run_op sample_manager ''t1'' (Op_update Failed no_metadata) sample_world = (Written sample_task s, w')
     \<and> ts_terminalReason s = Some R_cost_cap_exceeded"
proof -
  let ?s = "tr_state (buildTaskStateTransition sample_env 0 sample_task Failed no_metadata)"
  have "\<not> update_ignored sample_task Failed no_metadata"
    by (simp add: sample_task_def buildInitialTaskState_def update_ignored_def TERMINAL_TASK_STATES_def)
  then have run: "run_op sample_manager ''t1'' (Op_update Failed no_metadata) sample_world
      = (Written sample_task ?s, sample_world\<lparr>redis := [''worker:state:t1'' \<mapsto> ?s]\<rparr>)"
    by (simp add: run_op_def sample_manager_def sample_world_def getTaskKey_def MAX_ATOMIC_UPDATE_ATTEMPTS_def numeral_eq_Suc id_codec_def
        compareAndSetTaskStateData_def Let_def)
  have active: "activeGuard (m_task_env sample_manager)
      = Some (guard_run sample_options (\<lambda>_. None) [] (check_spend sample_options (Inr (JNum (Fin 6))) sample_guard))"
    by (simp add: sample_manager_def sample_env_def guard_run_def sample_stopped_def)
  have task: "ts_taskId sample_task = g_taskId sample_guard" by code_simp
  have "ts_terminalReason ?s = Some R_cost_cap_exceeded"
    by (rule capped_run_recorded_as_capped [OF sample_guard_inv(1) sample_guard_facts(1,6) active run task])
      (simp_all add: no_metadata_def or_empty_def parse_reason_def js_get_def)
  with run show ?thesis by blast
qed

end
